(* ===== verification/Gary_Prelude.thy ===== *)
theory Gary_Prelude
  imports Main "HOL-Library.Word" "HOL-Library.List_Lexorder"
begin

text \<open>
  Shared vocabulary of the development: bytes and machine integers, Rust's \<open>Result\<close>, slices,
  big-endian integer encodings, the checked and saturating \<open>usize\<close> operations the sources use,
  and the two codec interfaces (\<open>decodable\<close>, \<open>canonical_codec\<close>, with the fixed-width special case
  \<open>fixed_codec\<close>) that every wire or disk format of the workspace is an instance of.

  Conventions.  A Rust array \<open>[u8; N]\<close> is a list of bytes whose length is part of a
  well-formedness predicate; \<open>usize\<close> is a 64-bit quantity, read as a \<open>nat\<close> where it is the
  length of a buffer; a method on \<open>&mut self\<close> returns its result paired with the new state,
  also when the result is an error, because Rust keeps what was written before the early return.
\<close>

section \<open>Types\<close>

type_synonym byte = "8 word"
type_synonym bytes = "byte list"
type_synonym u16 = "16 word"
type_synonym u32 = "32 word"
type_synonym u64 = "64 word"

named_theorems layout \<open>definitions of byte layouts, unfolded together by the codec proofs\<close>
named_theorems lens \<open>lengths of encoded values\<close>

section \<open>Result\<close>

abbreviation Ok :: "'a \<Rightarrow> 'e + 'a" where "Ok \<equiv> Inr"
abbreviation Err :: "'e \<Rightarrow> 'e + 'a" where "Err \<equiv> Inl"

text \<open>The \<open>?\<close> operator.\<close>

primrec result_bind :: "'e + 'a \<Rightarrow> ('a \<Rightarrow> 'e + 'b) \<Rightarrow> 'e + 'b" where
  "result_bind (Inl e) f = Inl e"
| "result_bind (Inr x) f = f x"

primrec map_err :: "('e \<Rightarrow> 'd) \<Rightarrow> 'e + 'a \<Rightarrow> 'd + 'a" where
  "map_err f (Inl e) = Inl (f e)"
| "map_err f (Inr x) = Inr x"

primrec map_ok :: "('a \<Rightarrow> 'b) \<Rightarrow> 'e + 'a \<Rightarrow> 'e + 'b" where
  "map_ok f (Inl e) = Inl e"
| "map_ok f (Inr x) = Inr (f x)"

primrec ok_or :: "'e \<Rightarrow> 'a option \<Rightarrow> 'e + 'a" where
  "ok_or e None = Inl e"
| "ok_or e (Some x) = Inr x"

lemma result_bind_eq_Inr [simp]: "result_bind r f = Inr y \<longleftrightarrow> (\<exists>x. r = Inr x \<and> f x = Inr y)"
  by (cases r) auto

lemma map_err_eq_Inr [simp]: "map_err f r = Inr y \<longleftrightarrow> r = Inr y"
  by (cases r) auto

lemma map_ok_eq_Inr [simp]: "map_ok f r = Inr y \<longleftrightarrow> (\<exists>x. r = Inr x \<and> y = f x)"
  by (cases r) auto

lemma ok_or_eq_Inr [simp]: "ok_or e r = Inr y \<longleftrightarrow> r = Some y"
  by (cases r) auto

section \<open>Machine integers\<close>

text \<open>\<open>usize\<close> on a 64-bit target.\<close>

definition usize_bound :: nat where "usize_bound = 2 ^ 64"

definition checked_add_usize :: "nat \<Rightarrow> nat \<Rightarrow> nat option" where
  "checked_add_usize a b = (if a + b < usize_bound then Some (a + b) else None)"

definition saturating_add_usize :: "nat \<Rightarrow> nat \<Rightarrow> nat" where
  "saturating_add_usize a b = (if a + b < usize_bound then a + b else usize_bound - 1)"

definition checked_add :: "'a::len word \<Rightarrow> 'a word \<Rightarrow> 'a word option" where
  "checked_add a b = (if unat a + unat b < 2 ^ LENGTH('a) then Some (a + b) else None)"

definition saturating_add :: "'a::len word \<Rightarrow> 'a word \<Rightarrow> 'a word" where
  "saturating_add a b = (if unat a + unat b < 2 ^ LENGTH('a) then a + b else - 1)"

definition saturating_sub :: "'a::len word \<Rightarrow> 'a word \<Rightarrow> 'a word" where
  "saturating_sub a b = (if a < b then 0 else a - b)"

lemma unat_bound_u64: "unat (x :: u64) < 2 ^ 64"
  using unsigned_less [of x, where ?'a = nat] by simp

lemma unat_bound_u32: "unat (x :: u32) < 2 ^ 32"
  using unsigned_less [of x, where ?'a = nat] by simp

lemma unat_bound_u16: "unat (x :: u16) < 2 ^ 16"
  using unsigned_less [of x, where ?'a = nat] by simp

lemma checked_add_Some:
  "checked_add a b = Some c \<Longrightarrow> unat c = unat a + unat b \<and> c = a + b"
  by (auto simp: checked_add_def unat_add_lem split: if_splits)

lemma saturating_add_ge: "a \<le> saturating_add a b" for a b :: "'a::len word"
proof (cases "unat a + unat b < 2 ^ LENGTH('a)")
  case True
  then show ?thesis by (simp add: saturating_add_def word_le_nat_alt unat_add_lem [THEN iffD1])
qed (simp add: saturating_add_def word_order.extremum)

lemma unat_saturating_sub: "unat (saturating_sub a b) = unat a - unat b"
  by (auto simp: saturating_sub_def unat_sub word_less_nat_alt word_le_nat_alt)

section \<open>Slices\<close>

text \<open>\<open>xs[i..j]\<close>.  Rust panics when \<open>j\<close> exceeds the length; every use in the sources is behind a
  length check or on an array whose length is fixed by its type.\<close>

definition bslice :: "nat \<Rightarrow> nat \<Rightarrow> 'a list \<Rightarrow> 'a list" where
  "bslice i j xs = take (j - i) (drop i xs)"

lemma length_bslice [simp]: "length (bslice i j xs) = min (j - i) (length xs - i)"
  by (simp add: bslice_def)

lemma bslice_append: "i \<le> j \<Longrightarrow> j \<le> k \<Longrightarrow> bslice i j xs @ bslice j k xs = bslice i k xs"
  using take_add [of "j - i" "k - j" "drop i xs"] by (simp add: bslice_def)

lemma bslice_full: "length xs \<le> j \<Longrightarrow> bslice 0 j xs = xs"
  by (simp add: bslice_def)

lemma bslice_drop: "length xs \<le> j \<Longrightarrow> bslice i j xs = drop i xs"
  by (simp add: bslice_def)

lemma bslice_nth: "i < length xs \<Longrightarrow> [xs ! i] = bslice i (Suc i) xs"
  by (simp add: bslice_def Suc_diff_le take_Suc_conv_app_nth)

lemma nth_Cons_bslice: "i < length xs \<Longrightarrow> xs ! i # bslice (Suc i) k xs = bslice i k xs" if "i < k"
  using that by (simp add: bslice_def Suc_diff_Suc [symmetric] Cons_nth_drop_Suc [symmetric] del: diff_Suc_Suc)

lemma nth3_Cons_bslice:
  assumes "3 \<le> length xs" "3 \<le> k"
  shows "xs ! 0 # xs ! Suc 0 # xs ! 2 # bslice 3 k xs = bslice 0 k xs"
proof -
  have "xs ! 2 # bslice 3 k xs = bslice 2 k xs" using nth_Cons_bslice [of 2 k xs] assms by simp
  moreover have "xs ! Suc 0 # bslice 2 k xs = bslice (Suc 0) k xs"
    using nth_Cons_bslice [of "Suc 0" k xs] assms by (simp add: numeral_2_eq_2)
  moreover have "xs ! 0 # bslice (Suc 0) k xs = bslice 0 k xs"
    using nth_Cons_bslice [of 0 k xs] assms by (cases xs) auto
  ultimately show ?thesis by simp
qed

text \<open>Reading a field out of a concatenation: skip what comes before it, then take it.\<close>

lemma bslice_skip: "length xs \<le> i \<Longrightarrow> bslice i j (xs @ ys) = bslice (i - length xs) (j - length xs) ys"
  by (simp add: bslice_def)

lemma bslice_skip1: "0 < i \<Longrightarrow> bslice i j (x # ys) = bslice (i - 1) (j - 1) ys"
  by (cases i) (auto simp: bslice_def)

lemma bslice_here: "length xs = j \<Longrightarrow> bslice 0 j (xs @ ys) = xs"
  by (simp add: bslice_def)

lemma drop_skip: "length xs \<le> i \<Longrightarrow> drop i (xs @ ys) = drop (i - length xs) ys"
  by simp

lemmas bslice_fields = bslice_skip bslice_skip1 bslice_here bslice_full

section \<open>Byte strings\<close>

text \<open>A byte-string literal \<open>b"..."\<close>.\<close>

definition ascii :: "string \<Rightarrow> bytes" where
  "ascii s = map (\<lambda>c. of_nat (of_char c)) s"

lemma length_ascii [simp, lens]: "length (ascii s) = length s"
  by (simp add: ascii_def)

section \<open>Big-endian integers\<close>

primrec nat_to_be :: "nat \<Rightarrow> nat \<Rightarrow> bytes" where
  "nat_to_be 0 n = []"
| "nat_to_be (Suc k) n = nat_to_be k (n div 256) @ [of_nat (n mod 256)]"

definition be_to_nat :: "bytes \<Rightarrow> nat" where
  "be_to_nat bs = foldl (\<lambda>a b. a * 256 + unat b) 0 bs"

definition to_be_bytes :: "'a::len word \<Rightarrow> bytes" where
  "to_be_bytes w = nat_to_be (LENGTH('a) div 8) (unat w)"

definition from_be_bytes :: "bytes \<Rightarrow> 'a::len word" where
  "from_be_bytes bs = of_nat (be_to_nat bs)"

lemma length_nat_to_be [simp]: "length (nat_to_be k n) = k"
  by (induction k arbitrary: n) auto

lemma length_to_be_bytes [simp, lens]: "length (to_be_bytes (w :: 'a::len word)) = LENGTH('a) div 8"
  by (simp add: to_be_bytes_def)

lemma be_to_nat_Nil [simp]: "be_to_nat [] = 0"
  by (simp add: be_to_nat_def)

lemma be_to_nat_snoc [simp]: "be_to_nat (bs @ [b]) = be_to_nat bs * 256 + unat b"
  by (simp add: be_to_nat_def)

lemma unat_byte: "unat (b :: byte) < 256"
  using unsigned_less [of b, where ?'a = nat] by simp

lemma be_to_nat_nat_to_be: "be_to_nat (nat_to_be k n) = n mod 256 ^ k"
proof (induction k arbitrary: n)
  case (Suc k)
  have "(n div 256 mod 256 ^ k) * 256 + n mod 256 = n mod 256 ^ Suc k"
    by (metis mod_mult2_eq mult.commute power_Suc)
  with Suc show ?case by (simp add: unat_of_nat)
qed simp

lemma be_to_nat_less: "be_to_nat bs < 256 ^ length bs"
proof (induction bs rule: rev_induct)
  case (snoc b bs)
  then show ?case using unat_byte [of b] by simp
qed simp

lemma nat_to_be_be_to_nat: "nat_to_be (length bs) (be_to_nat bs) = bs"
proof (induction bs rule: rev_induct)
  case (snoc b bs)
  then show ?case using unat_byte [of b] by simp
qed simp

lemma pow256: "256 ^ k = (2 :: nat) ^ (8 * k)"
  by (simp add: power_mult)

lemma from_to_be_bytes [simp]:
  "8 dvd LENGTH('a) \<Longrightarrow> from_be_bytes (to_be_bytes (w :: 'a::len word)) = w"
  using unsigned_less [of w, where ?'a = nat]
  by (simp add: from_be_bytes_def to_be_bytes_def be_to_nat_nat_to_be pow256)

lemma unat_from_be_bytes:
  "8 * length bs \<le> LENGTH('a) \<Longrightarrow> unat (from_be_bytes bs :: 'a::len word) = be_to_nat bs"
  using be_to_nat_less [of bs]
  by (simp add: from_be_bytes_def unat_of_nat pow256 take_bit_nat_eq_self less_le_trans
      flip: take_bit_eq_mod)

lemma to_from_be_bytes [simp]:
  "8 * length bs = LENGTH('a) \<Longrightarrow> to_be_bytes (from_be_bytes bs :: 'a::len word) = bs"
  by (simp add: to_be_bytes_def unat_from_be_bytes)
     (metis nat_to_be_be_to_nat nonzero_mult_div_cancel_left zero_neq_numeral)

lemma to_be_bytes_inj [simp]:
  "8 dvd LENGTH('a) \<Longrightarrow> to_be_bytes (v :: 'a::len word) = to_be_bytes w \<longleftrightarrow> v = w"
  by (metis from_to_be_bytes)

section \<open>Codec interfaces\<close>

text \<open>
  \<open>enc\<close> may refuse a value (an oversized record), \<open>wf\<close> is what the Rust types guarantee of a
  value.  \<open>decodable\<close> is the promise every persisted or transmitted format makes: what was
  encoded decodes to the same value.
\<close>

locale decodable =
  fixes enc :: "'a \<Rightarrow> 'e + bytes"
    and dec :: "bytes \<Rightarrow> 'd + 'a"
    and wf :: "'a \<Rightarrow> bool"
  assumes dec_enc: "wf x \<Longrightarrow> enc x = Inr bs \<Longrightarrow> dec bs = Inr x"
begin

lemma enc_inj: "wf x \<Longrightarrow> wf y \<Longrightarrow> enc x = Inr bs \<Longrightarrow> enc y = Inr bs \<Longrightarrow> x = y"
  using dec_enc [of x bs] dec_enc [of y bs] by simp

end

text \<open>
  \<open>canonical_codec\<close> adds that nothing else decodes: an accepted byte string is the encoding of
  its value, so the decoder rejects every non-canonical spelling.
\<close>

locale canonical_codec = decodable +
  assumes enc_dec: "dec bs = Inr x \<Longrightarrow> wf x \<and> enc x = Inr bs"
begin

lemma dec_Ok_iff: "dec bs = Inr x \<longleftrightarrow> wf x \<and> enc x = Inr bs"
  using dec_enc enc_dec by blast

lemma dec_inj: "dec bs = Inr x \<Longrightarrow> dec cs = Inr x \<Longrightarrow> bs = cs"
  by (auto dest!: enc_dec)

lemma accepted_iff: "(\<exists>x. dec bs = Inr x) \<longleftrightarrow> (\<exists>x. wf x \<and> enc x = Inr bs)"
  by (simp add: dec_Ok_iff)

end

text \<open>Structs with a fixed-size array encoding \<open>[u8; LEN]\<close>: both directions are total.\<close>

locale fixed_codec =
  fixes fenc :: "'a \<Rightarrow> bytes"
    and fdec :: "bytes \<Rightarrow> 'a"
    and fwf :: "'a \<Rightarrow> bool"
    and len :: nat
  assumes fenc_len: "fwf x \<Longrightarrow> length (fenc x) = len"
    and fdec_fenc: "fwf x \<Longrightarrow> fdec (fenc x) = x"
    and fdec_wf: "length bs = len \<Longrightarrow> fwf (fdec bs)"
    and fenc_fdec: "length bs = len \<Longrightarrow> fenc (fdec bs) = bs"
begin

lemma fenc_inj: "fwf x \<Longrightarrow> fwf y \<Longrightarrow> fenc x = fenc y \<longleftrightarrow> x = y"
  by (metis fdec_fenc)

lemma fdec_inj: "length bs = len \<Longrightarrow> length cs = len \<Longrightarrow> fdec bs = fdec cs \<longleftrightarrow> bs = cs"
  by (metis fenc_fdec)

lemma fdec_prefix: "fwf x \<Longrightarrow> fdec (take len (fenc x @ rest)) = x"
  by (simp add: fenc_len fdec_fenc)

end

text \<open>A fixed codec behind a length check is a canonical codec.\<close>

sublocale fixed_codec \<subseteq> sized: canonical_codec
  "\<lambda>x. Inr (fenc x)" "\<lambda>bs. if length bs = len then Inr (fdec bs) else Inl ()" fwf
  by unfold_locales (auto simp: fenc_len fdec_fenc fdec_wf fenc_fdec split: if_splits)

end
