(* ===== verification/Wire_Pad.thy ===== *)
theory Wire_Pad
  imports Gary_Prelude
begin

text \<open>
  \<^verbatim>\<open>crates/libgary-wire/src/{constants,error,pad}.rs\<close>: the size limits of the wire format, its error
  type, and the universal padding \<open>PAD()\<close>.  The random generator is a parameter: \<open>fill r n\<close> are
  the \<open>n\<close> bytes \<open>RngCore::fill_bytes\<close> writes from generator state \<open>r\<close>, with the next state.
\<close>

section \<open>Constants and errors\<close>

definition RELAY_VERSION_V0 :: byte where "RELAY_VERSION_V0 = 0x01"
definition HEADER_VERSION_V0 :: byte where "HEADER_VERSION_V0 = 0x01"
definition MAX_RECORD_BODY_LEN :: nat where "MAX_RECORD_BODY_LEN = 1048576"
definition MAX_ROUTE_TOKEN_LEN :: nat where "MAX_ROUTE_TOKEN_LEN = 512"
definition MAX_OUTER_RECORD_SERIALIZED :: nat where
  "MAX_OUTER_RECORD_SERIALIZED = 4 + MAX_RECORD_BODY_LEN"

datatype WireError =
    Truncated
  | RecordLengthMismatch
  | RecordTooLarge
  | InitReservedNonZero
  | LogicalTooLarge
  | PaddingBucketMismatch
  | PaddingLogicalMismatch
  | InvalidHeaderVersion
  | InvalidHeaderType
  | InvalidHeaderFlags
  | InvalidRelayVersion
  | RouteTokenTooLong
  | OpaqueLengthMismatch
  | OpaqueTooLarge

section \<open>Padding\<close>

definition PADDING_BUCKETS :: "nat list" where
  "PADDING_BUCKETS = [256, 512, 1024, 2048, 4096, 8192, 16384, 32768]"

definition smallest_padding_bucket :: "nat \<Rightarrow> nat option" where
  "smallest_padding_bucket n = List.find (\<lambda>b. n \<le> b) PADDING_BUCKETS"

definition pad_outer :: "('r \<Rightarrow> nat \<Rightarrow> bytes \<times> 'r) \<Rightarrow> bytes \<Rightarrow> 'r \<Rightarrow> (WireError + bytes) \<times> 'r" where
  "pad_outer fill logical r =
     (case smallest_padding_bucket (length logical) of
        None \<Rightarrow> (Err LogicalTooLarge, r)
      | Some bucket \<Rightarrow>
          let pad_len = bucket - length logical;
              (tail, r') = fill r pad_len
          in (Ok (logical @ tail), r'))"

definition strip_outer_pad :: "bytes \<Rightarrow> nat \<Rightarrow> WireError + bytes" where
  "strip_outer_pad padded logical_len =
     result_bind (ok_or LogicalTooLarge (smallest_padding_bucket logical_len)) (\<lambda>bucket.
       if length padded \<noteq> bucket then Err PaddingBucketMismatch
       else if logical_len \<le> length padded then Ok (take logical_len padded)
       else Err PaddingLogicalMismatch)"

text \<open>What the padding relies on of the generator: \<open>fill_bytes\<close> fills the whole slice.\<close>

definition rng_fills :: "('r \<Rightarrow> nat \<Rightarrow> bytes \<times> 'r) \<Rightarrow> bool" where
  "rng_fills fill \<longleftrightarrow> (\<forall>r n. length (fst (fill r n)) = n)"

section \<open>Bucket selection\<close>

lemmas bucket_defs = smallest_padding_bucket_def PADDING_BUCKETS_def

lemma bucket_None_iff: "smallest_padding_bucket n = None \<longleftrightarrow> 32768 < n"
  by (auto simp: bucket_defs)

lemma bucket_Some_bounds:
  "smallest_padding_bucket n = Some b \<Longrightarrow> b \<in> set PADDING_BUCKETS \<and> n \<le> b"
  by (auto simp: bucket_defs split: if_splits)

lemma bucket_least:
  "smallest_padding_bucket n = Some b \<Longrightarrow> b' \<in> set PADDING_BUCKETS \<Longrightarrow> n \<le> b' \<Longrightarrow> b \<le> b'"
  by (auto simp: bucket_defs split: if_splits)

lemma pad_outer_Ok_iff:
  "fst (pad_outer fill l r) = Ok p \<longleftrightarrow>
     (\<exists>b. smallest_padding_bucket (length l) = Some b \<and> p = l @ fst (fill r (b - length l)))"
  by (auto simp: pad_outer_def Let_def split: option.splits prod.splits)

lemma pad_outer_length:
  "rng_fills fill \<Longrightarrow> fst (pad_outer fill l r) = Ok p \<Longrightarrow> smallest_padding_bucket (length l) = Some (length p)"
  using bucket_Some_bounds [of "length l"]
  by (auto simp: pad_outer_Ok_iff rng_fills_def)

lemma strip_outer_pad_Ok_iff:
  "strip_outer_pad p n = Ok l \<longleftrightarrow> smallest_padding_bucket n = Some (length p) \<and> l = take n p"
  using bucket_Some_bounds [of n]
  by (auto simp: strip_outer_pad_def)

lemma strip_pad:
  assumes "rng_fills fill" "fst (pad_outer fill l r) = Ok p"
  shows "strip_outer_pad p (length l) = Ok l"
proof -
  from assms(2) obtain t where "p = l @ t" by (auto simp: pad_outer_Ok_iff)
  with pad_outer_length [OF assms] show ?thesis by (simp add: strip_outer_pad_Ok_iff)
qed

lemma strip_outer_pad_length: "strip_outer_pad p n = Ok l \<Longrightarrow> length l = n"
  using bucket_Some_bounds [of n "length p"] by (auto simp: strip_outer_pad_Ok_iff)

section \<open>Properties\<close>

text \<open>Padding fails exactly on a logical message longer than the largest bucket; otherwise the padded
  message has the length of the smallest bucket that fits, and stripping with the logical length gives the
  message back, whatever the generator writes.\<close>

lemma pad_outer_correct:
  assumes "rng_fills fill"
  shows "(fst (pad_outer fill l r) = Err LogicalTooLarge \<longleftrightarrow> 32768 < length l) \<and>
    (\<forall>p. fst (pad_outer fill l r) = Ok p \<longrightarrow>
       length p \<in> set PADDING_BUCKETS \<and> length l \<le> length p
       \<and> (\<forall>b \<in> set PADDING_BUCKETS. length l \<le> b \<longrightarrow> length p \<le> b)
       \<and> strip_outer_pad p (length l) = Ok l)"
proof -
  have "fst (pad_outer fill l r) = Err LogicalTooLarge \<longleftrightarrow> 32768 < length l"
    using bucket_None_iff [of "length l"] by (auto simp: pad_outer_def Let_def split: option.splits prod.splits)
  then show ?thesis
    using pad_outer_length [OF assms, of l r] strip_pad [OF assms, of l r] bucket_Some_bounds bucket_least by blast
qed

lemma pad_outer_correct_witness:
  "fst (pad_outer (\<lambda>r n. (replicate n 7, r)) [1, 2, 3] ()) = Ok ([1, 2, 3] @ replicate 253 7) \<and>
   strip_outer_pad ([1, 2, 3] @ replicate 253 7) 3 = Ok [1, 2, 3]"
proof -
  have "rng_fills (\<lambda>r n. (replicate n 7, r :: unit))" by (simp add: rng_fills_def)
  note * = pad_outer_correct [OF this, of "[1, 2, 3]" "()"]
  have "fst (pad_outer (\<lambda>r n. (replicate n 7, r)) [1, 2, 3] ()) = Ok ([1, 2, 3] @ replicate 253 7)"
    by (simp add: pad_outer_Ok_iff bucket_defs)
  with * show ?thesis by (simp add: numeral_3_eq_3)
qed

end
