(* ===== verification/Wire_Records.thy ===== *)
theory Wire_Records
  imports Wire_Pad
begin

text \<open>
  \<^verbatim>\<open>crates/libgary-wire/src/{lib,outer}.rs\<close>: the 63-byte record header, the handshake bodies and the
  length-prefixed \<open>OuterRecord\<close>.  Each struct is a record whose array fields are byte lists; its
  \<open>wf_\<close> predicate says what the Rust field types guarantee.
\<close>

section \<open>Header\<close>

record header =
  version :: byte
  hdr_typ :: byte
  flags :: byte
  epoch_be :: u32
  hdr_session_id :: bytes
  counter_be :: u64
  ratchet_pub :: bytes

definition Header_LEN :: nat where "Header_LEN = 63"

definition wf_header :: "header \<Rightarrow> bool" where
  "wf_header h \<longleftrightarrow> length (hdr_session_id h) = 16 \<and> length (ratchet_pub h) = 32"

definition header_encode :: "header \<Rightarrow> bytes" where
  "header_encode h =
     [version h, hdr_typ h, flags h] @ to_be_bytes (epoch_be h) @ hdr_session_id h
     @ to_be_bytes (counter_be h) @ ratchet_pub h"

definition header_decode :: "bytes \<Rightarrow> header" where
  "header_decode b =
     \<lparr>version = b ! 0, hdr_typ = b ! 1, flags = b ! 2, epoch_be = from_be_bytes (bslice 3 7 b),
      hdr_session_id = bslice 7 23 b, counter_be = from_be_bytes (bslice 23 31 b),
      ratchet_pub = bslice 31 63 b\<rparr>"

definition validate_v0 :: "header \<Rightarrow> WireError + unit" where
  "validate_v0 h =
     (if version h \<noteq> HEADER_VERSION_V0 then Err InvalidHeaderVersion
      else if flags h \<noteq> 0 then Err InvalidHeaderFlags
      else if hdr_typ h \<in> {0x01, 0x02, 0x03, 0x05, 0x06, 0x07, 0x08} then Ok ()
      else Err InvalidHeaderType)"

definition parse_checked :: "bytes \<Rightarrow> WireError + header" where
  "parse_checked s =
     (if length s < Header_LEN then Err Truncated
      else let h = header_decode (bslice 0 Header_LEN s) in
        result_bind (validate_v0 h) (\<lambda>_. Ok h))"

section \<open>Handshake bodies\<close>

record init_body =
  initiator_sig_pk :: bytes
  initiator_dh_pk :: bytes
  ephemeral_ek_pub :: bytes
  otp_index_be :: u16
  reserved_be :: u16

definition InitBody_LEN :: nat where "InitBody_LEN = 100"

definition wf_init_body :: "init_body \<Rightarrow> bool" where
  "wf_init_body x \<longleftrightarrow> length (initiator_sig_pk x) = 32 \<and> length (initiator_dh_pk x) = 32
     \<and> length (ephemeral_ek_pub x) = 32"

definition init_body_encode :: "init_body \<Rightarrow> bytes" where
  "init_body_encode x =
     initiator_sig_pk x @ initiator_dh_pk x @ ephemeral_ek_pub x
     @ to_be_bytes (otp_index_be x) @ to_be_bytes (reserved_be x)"

definition init_body_decode :: "bytes \<Rightarrow> WireError + init_body" where
  "init_body_decode b =
     (if (from_be_bytes (bslice 98 100 b) :: u16) \<noteq> 0 then Err InitReservedNonZero
      else Ok \<lparr>initiator_sig_pk = bslice 0 32 b, initiator_dh_pk = bslice 32 64 b,
               ephemeral_ek_pub = bslice 64 96 b, otp_index_be = from_be_bytes (bslice 96 98 b),
               reserved_be = from_be_bytes (bslice 98 100 b)\<rparr>)"

record init_ack_core =
  responder_sig_pk :: bytes
  responder_dh_pk :: bytes
  ack_nonce_be :: u64

definition InitAckCore_LEN :: nat where "InitAckCore_LEN = 72"

definition wf_init_ack_core :: "init_ack_core \<Rightarrow> bool" where
  "wf_init_ack_core x \<longleftrightarrow> length (responder_sig_pk x) = 32 \<and> length (responder_dh_pk x) = 32"

definition init_ack_core_encode :: "init_ack_core \<Rightarrow> bytes" where
  "init_ack_core_encode x = responder_sig_pk x @ responder_dh_pk x @ to_be_bytes (ack_nonce_be x)"

definition init_ack_core_decode :: "bytes \<Rightarrow> init_ack_core" where
  "init_ack_core_decode b =
     \<lparr>responder_sig_pk = bslice 0 32 b, responder_dh_pk = bslice 32 64 b,
      ack_nonce_be = from_be_bytes (bslice 64 72 b)\<rparr>"

record init_ack_wire =
  ack_core :: init_ack_core
  wire_confirm_mac :: bytes

definition InitAckWire_LEN :: nat where "InitAckWire_LEN = 88"

definition wf_init_ack_wire :: "init_ack_wire \<Rightarrow> bool" where
  "wf_init_ack_wire x \<longleftrightarrow> wf_init_ack_core (ack_core x) \<and> length (wire_confirm_mac x) = 16"

definition init_ack_wire_encode :: "init_ack_wire \<Rightarrow> bytes" where
  "init_ack_wire_encode x = init_ack_core_encode (ack_core x) @ wire_confirm_mac x"

definition init_ack_wire_decode :: "bytes \<Rightarrow> init_ack_wire" where
  "init_ack_wire_decode b =
     \<lparr>ack_core = init_ack_core_decode (bslice 0 72 b), wire_confirm_mac = bslice 72 88 b\<rparr>"

section \<open>Outer record\<close>

record outer_record =
  rec_header :: header
  payload :: bytes

definition wf_outer_record :: "outer_record \<Rightarrow> bool" where
  "wf_outer_record r \<longleftrightarrow> wf_header (rec_header r)"

definition record_body_len :: "outer_record \<Rightarrow> nat" where
  "record_body_len r = Header_LEN + length (payload r)"

definition outer_record_encode :: "outer_record \<Rightarrow> WireError + bytes" where
  "outer_record_encode r =
     result_bind (validate_v0 (rec_header r)) (\<lambda>_.
       let rl = record_body_len r in
       if rl > MAX_RECORD_BODY_LEN then Err RecordTooLarge
       else if rl \<ge> 2 ^ 32 then Err RecordTooLarge
       else Ok (to_be_bytes (of_nat rl :: u32) @ header_encode (rec_header r) @ payload r))"

definition outer_record_decode :: "bytes \<Rightarrow> WireError + outer_record" where
  "outer_record_decode b =
     (if length b < 4 then Err Truncated
      else let rl = unat (from_be_bytes (bslice 0 4 b) :: u32) in
        if rl > MAX_RECORD_BODY_LEN then Err RecordTooLarge
        else result_bind (ok_or RecordLengthMismatch (checked_add_usize 4 rl)) (\<lambda>total.
          if length b \<noteq> total then Err RecordLengthMismatch
          else if rl < Header_LEN then Err Truncated
          else let h = header_decode (bslice 4 (4 + Header_LEN) b) in
            result_bind (validate_v0 h) (\<lambda>_.
              Ok \<lparr>rec_header = h, payload = drop (4 + Header_LEN) b\<rparr>)))"

section \<open>Layout lemmas\<close>

lemmas [layout] = header_encode_def header_decode_def init_body_encode_def init_body_decode_def
  init_ack_core_encode_def init_ack_core_decode_def init_ack_wire_encode_def init_ack_wire_decode_def
  bslice_def

lemmas wire_lens [simp] = Header_LEN_def InitBody_LEN_def InitAckCore_LEN_def InitAckWire_LEN_def

lemma length_header_encode [lens]: "wf_header h \<Longrightarrow> length (header_encode h) = Header_LEN"
  by (simp add: header_encode_def wf_header_def)

lemma length_init_body_encode [lens]: "wf_init_body x \<Longrightarrow> length (init_body_encode x) = InitBody_LEN"
  by (simp add: init_body_encode_def wf_init_body_def)

lemma length_init_ack_core_encode [lens]:
  "wf_init_ack_core x \<Longrightarrow> length (init_ack_core_encode x) = InitAckCore_LEN"
  by (simp add: init_ack_core_encode_def wf_init_ack_core_def)

lemma length_init_ack_wire_encode [lens]:
  "wf_init_ack_wire x \<Longrightarrow> length (init_ack_wire_encode x) = InitAckWire_LEN"
  by (simp add: init_ack_wire_encode_def wf_init_ack_wire_def length_init_ack_core_encode)

lemma header_decode_encode: "wf_header h \<Longrightarrow> header_decode (header_encode h) = h"
  by (simp add: layout wf_header_def)

lemma header_encode_decode: "length b = Header_LEN \<Longrightarrow> header_encode (header_decode b) = b"
  by (simp add: header_encode_def header_decode_def bslice_append nth3_Cons_bslice bslice_full)

lemma wf_header_decode: "length b = Header_LEN \<Longrightarrow> wf_header (header_decode b)"
  by (simp add: wf_header_def header_decode_def)

lemma init_body_decode_encode:
  "wf_init_body x \<Longrightarrow> reserved_be x = 0 \<Longrightarrow> init_body_decode (init_body_encode x) = Ok x"
  by (simp add: layout wf_init_body_def)

lemma init_body_encode_decode:
  assumes "length b = InitBody_LEN" "init_body_decode b = Ok x"
  shows "wf_init_body x \<and> reserved_be x = 0 \<and> init_body_encode x = b"
proof -
  have x: "x = \<lparr>initiator_sig_pk = bslice 0 32 b, initiator_dh_pk = bslice 32 64 b,
               ephemeral_ek_pub = bslice 64 96 b, otp_index_be = from_be_bytes (bslice 96 98 b),
               reserved_be = from_be_bytes (bslice 98 100 b)\<rparr>"
    and r: "reserved_be x = 0"
    using assms(2) by (auto simp: init_body_decode_def split: if_splits)
  have "init_body_encode x = b"
    using assms(1) by (simp add: x init_body_encode_def bslice_append bslice_full)
  with assms(1) x r show ?thesis by (simp add: wf_init_body_def)
qed

lemma init_body_decode_Ok_iff:
  "length b = InitBody_LEN \<Longrightarrow> init_body_decode b = Ok x \<longleftrightarrow>
     wf_init_body x \<and> reserved_be x = 0 \<and> init_body_encode x = b"
  using init_body_decode_encode [of x] init_body_encode_decode [of b x] by blast

lemma validate_v0_Ok_iff:
  "validate_v0 h = Ok () \<longleftrightarrow> version h = 1 \<and> flags h = 0 \<and> hdr_typ h \<in> {1, 2, 3, 5, 6, 7, 8}"
  by (auto simp: validate_v0_def HEADER_VERSION_V0_def)

section \<open>Instances of the codec interfaces\<close>

interpretation hdr: fixed_codec header_encode header_decode wf_header Header_LEN
  by unfold_locales
    (simp_all add: length_header_encode header_decode_encode wf_header_decode header_encode_decode
      del: wire_lens)

interpretation ack: fixed_codec init_ack_core_encode init_ack_core_decode wf_init_ack_core InitAckCore_LEN
  by unfold_locales
    (auto simp: init_ack_core_encode_def init_ack_core_decode_def wf_init_ack_core_def bslice_append
      bslice_full, simp_all add: bslice_def)

interpretation ackw: fixed_codec init_ack_wire_encode init_ack_wire_decode wf_init_ack_wire InitAckWire_LEN
proof
  fix x assume wf: "wf_init_ack_wire x"
  then show "length (init_ack_wire_encode x) = InitAckWire_LEN"
    by (rule length_init_ack_wire_encode)
  from wf show "init_ack_wire_decode (init_ack_wire_encode x) = x"
    using ack.fenc_len [of "ack_core x"] ack.fdec_fenc [of "ack_core x"]
    by (simp add: init_ack_wire_encode_def init_ack_wire_decode_def wf_init_ack_wire_def bslice_def)
next
  fix b :: bytes assume b: "length b = InitAckWire_LEN"
  then show "wf_init_ack_wire (init_ack_wire_decode b)"
    by (simp add: wf_init_ack_wire_def init_ack_wire_decode_def ack.fdec_wf [simplified])
  from b show "init_ack_wire_encode (init_ack_wire_decode b) = b"
    by (simp add: init_ack_wire_encode_def init_ack_wire_decode_def ack.fenc_fdec [simplified]
        bslice_append bslice_full)
qed

text \<open>The handshake \<open>InitBody\<close> decoder takes an array, and refuses a non-zero reserved field.\<close>

interpretation init: canonical_codec
  "\<lambda>x. Inr (init_body_encode x) :: WireError + bytes"
  "\<lambda>b. if length b = InitBody_LEN then map_err (\<lambda>e. Some e) (init_body_decode b) else Inl None"
  "\<lambda>x. wf_init_body x \<and> reserved_be x = 0"
  by unfold_locales
    (auto simp: init_body_decode_Ok_iff length_init_body_encode simp del: wire_lens split: if_splits)

section \<open>Outer record round trip\<close>

lemma outer_record_encode_Ok_iff:
  "outer_record_encode r = Ok b \<longleftrightarrow>
     validate_v0 (rec_header r) = Ok () \<and> record_body_len r \<le> MAX_RECORD_BODY_LEN
     \<and> b = to_be_bytes (of_nat (record_body_len r) :: u32) @ header_encode (rec_header r) @ payload r"
  by (auto simp: outer_record_encode_def Let_def MAX_RECORD_BODY_LEN_def)

lemma u32_of_nat: "n < 2 ^ 32 \<Longrightarrow> unat (of_nat n :: u32) = n"
  by (simp add: unat_of_nat)

lemma outer_record_decode_encode:
  assumes "wf_outer_record r" "outer_record_encode r = Ok b"
  shows "outer_record_decode b = Ok r"
proof -
  let ?n = "record_body_len r"
  from assms(2) have v: "validate_v0 (rec_header r) = Ok ()" and n: "?n \<le> MAX_RECORD_BODY_LEN"
    and b: "b = to_be_bytes (of_nat ?n :: u32) @ header_encode (rec_header r) @ payload r"
    by (simp_all add: outer_record_encode_Ok_iff)
  have wf: "wf_header (rec_header r)" using assms(1) by (simp add: wf_outer_record_def)
  have lh: "length (header_encode (rec_header r)) = 63" using hdr.fenc_len [OF wf] by simp
  have lb: "length b = 4 + ?n" using lh by (simp add: b record_body_len_def)
  have rl: "unat (from_be_bytes (bslice 0 4 b) :: u32) = ?n"
    using n by (simp add: b bslice_def u32_of_nat MAX_RECORD_BODY_LEN_def)
  have h: "header_decode (bslice 4 67 b) = rec_header r"
    using lh header_decode_encode [OF wf] by (simp add: b bslice_def)
  have p: "drop 67 b = payload r" using lh by (simp add: b)
  show ?thesis
    using lb rl h p v n
    by (simp add: outer_record_decode_def Let_def checked_add_usize_def usize_bound_def
        MAX_RECORD_BODY_LEN_def record_body_len_def)
qed

lemma outer_record_encode_decode:
  assumes "outer_record_decode b = Ok r"
  shows "wf_outer_record r \<and> outer_record_encode r = Ok b"
proof -
  let ?n = "unat (from_be_bytes (bslice 0 4 b) :: u32)"
  from assms have n: "?n \<le> MAX_RECORD_BODY_LEN" and lb: "length b = 4 + ?n" and n63: "63 \<le> ?n"
    and h: "rec_header r = header_decode (bslice 4 67 b)" and v: "validate_v0 (rec_header r) = Ok ()"
    and p: "payload r = drop 67 b"
    by (auto simp: outer_record_decode_def Let_def checked_add_usize_def split: if_splits)
  have l63: "length (bslice 4 67 b) = Header_LEN" using lb n63 by simp
  have n_eq: "record_body_len r = ?n" using lb n63 by (simp add: record_body_len_def p)
  have "to_be_bytes (of_nat ?n :: u32) = bslice 0 4 b" using lb by simp
  moreover have "header_encode (rec_header r) = bslice 4 67 b"
    using l63 by (simp add: h header_encode_decode del: length_bslice)
  moreover have "bslice 0 4 b @ bslice 4 67 b @ drop 67 b = b"
    using append_take_drop_id [of 4 b] append_take_drop_id [of 63 "drop 4 b"] by (simp add: bslice_def)
  ultimately show ?thesis
    using n n_eq v p wf_header_decode [OF l63, folded h]
    by (simp only: outer_record_encode_Ok_iff wf_outer_record_def simp_thms)
qed

interpretation outer: canonical_codec outer_record_encode outer_record_decode wf_outer_record
  by (unfold_locales, erule (1) outer_record_decode_encode, rule outer_record_encode_decode)

section \<open>Properties\<close>

text \<open>The outer record codec is canonical: a byte string decodes to a record exactly when that record,
  with array fields of their fixed lengths, encodes to it.  So every encoded record is read back, and no
  other spelling of it is accepted.\<close>

lemma outer_record_codec:
  "outer_record_decode b = Ok r \<longleftrightarrow> wf_outer_record r \<and> outer_record_encode r = Ok b"
  by (rule outer.dec_Ok_iff)

text \<open>An outer record is emitted exactly when its header is a valid version 0 header and its body fits
  the record limit, and then it is the length prefix, the 63 header bytes and the payload.\<close>

lemma outer_record_encode_succeeds:
  "(\<exists>b. outer_record_encode r = Ok b) \<longleftrightarrow>
     version (rec_header r) = 1 \<and> flags (rec_header r) = 0 \<and> hdr_typ (rec_header r) \<in> {1, 2, 3, 5, 6, 7, 8}
     \<and> length (payload r) \<le> 1048513"
  by (auto simp: outer_record_encode_Ok_iff validate_v0_Ok_iff record_body_len_def MAX_RECORD_BODY_LEN_def)

text \<open>The four fixed layouts of the handshake and of the header are inverse to their decoders in both
  directions; \<open>InitBody\<close> is decoded exactly when its reserved field is zero.\<close>

lemma fixed_layout_codecs:
  "((\<exists>h. wf_header h \<and> header_encode h = b) \<longleftrightarrow> length b = 63)
   \<and> (length b = 63 \<longrightarrow> header_encode (header_decode b) = b)
   \<and> (length b = 100 \<longrightarrow> (init_body_decode b = Ok x \<longleftrightarrow> wf_init_body x \<and> reserved_be x = 0 \<and> init_body_encode x = b))
   \<and> (wf_init_ack_core y \<longrightarrow> init_ack_core_decode (init_ack_core_encode y) = y)
   \<and> (wf_init_ack_wire z \<longrightarrow> init_ack_wire_decode (init_ack_wire_encode z) = z)"
  using init_body_decode_Ok_iff [of b x] hdr.fenc_len hdr.fdec_wf [of b] hdr.fenc_fdec [of b]
    ack.fdec_fenc [of y] ackw.fdec_fenc [of z] by auto

lemma fixed_layout_codecs_witness:
  "header_encode (header_decode (replicate 63 1)) = replicate 63 1
   \<and> init_body_decode (replicate 100 0)
       = Ok \<lparr>initiator_sig_pk = replicate 32 0, initiator_dh_pk = replicate 32 0, ephemeral_ek_pub = replicate 32 0,
            otp_index_be = 0, reserved_be = 0\<rparr>"
proof -
  let ?x = "\<lparr>initiator_sig_pk = replicate 32 0, initiator_dh_pk = replicate 32 0, ephemeral_ek_pub = replicate 32 0,
            otp_index_be = 0, reserved_be = 0\<rparr>"
  have "to_be_bytes (0 :: u16) = replicate 2 0" by (simp add: to_be_bytes_def numeral_2_eq_2)
  then have "init_body_encode ?x = replicate 100 0" by (simp add: init_body_encode_def flip: replicate_add)
  then show ?thesis
    using fixed_layout_codecs [of "replicate 63 1"] fixed_layout_codecs [of "replicate 100 0" ?x]
    by (simp add: wf_init_body_def)
qed

end
