(* ===== verification/Key_Schedule.thy ===== *)
theory Key_Schedule
  imports Wire_Records
begin

text \<open>
  \<^verbatim>\<open>crates/libgary-core/src/{constants,kdf,nonce,aead,x3dh,transcript,session,identity,ratchet}.rs\<close>:
  the labels, the HKDF tree, transcripts, key confirmation and the symmetric and DH ratchet steps.

  The primitives come from third-party crates (\<open>sha2\<close>, \<open>hkdf\<close>, \<open>hmac\<close>, \<open>chacha20poly1305\<close>,
  \<open>x25519-dalek\<close>, \<open>rand_core\<close>) and are the fields of the parameter \<open>'r crypto\<close>, \<open>'r\<close> being the state
  of the random generator.  \<open>crypto_lens\<close> and \<open>aead_ok\<close> are what the code relies on of them: output
  lengths, and that XChaCha20-Poly1305 opens what it sealed under the same key, nonce and
  associated data.
\<close>

section \<open>Primitives\<close>

record 'r crypto =
  sha256 :: "bytes \<Rightarrow> bytes"
  hkdf :: "bytes \<Rightarrow> bytes \<Rightarrow> bytes \<Rightarrow> nat \<Rightarrow> bytes" \<comment> \<open>salt, input key material, info, output length\<close>
  hmac_sha256 :: "bytes \<Rightarrow> bytes \<Rightarrow> bytes"
  aead_seal :: "bytes \<Rightarrow> bytes \<Rightarrow> bytes \<Rightarrow> bytes \<Rightarrow> bytes option" \<comment> \<open>key, nonce, message, associated data\<close>
  aead_open :: "bytes \<Rightarrow> bytes \<Rightarrow> bytes \<Rightarrow> bytes \<Rightarrow> bytes option"
  x25519 :: "bytes \<Rightarrow> bytes \<Rightarrow> bytes" \<comment> \<open>secret scalar, peer public key\<close>
  x25519_public :: "bytes \<Rightarrow> bytes"
  fill_bytes :: "'r \<Rightarrow> nat \<Rightarrow> bytes \<times> 'r"

text \<open>HKDF-SHA256 expands to at most \<open>255 * 32\<close> bytes (RFC 5869).\<close>

definition crypto_lens :: "'r crypto \<Rightarrow> bool" where
  "crypto_lens C \<longleftrightarrow>
     (\<forall>x. length (sha256 C x) = 32) \<and>
     (\<forall>s i f n. n \<le> 255 * 32 \<longrightarrow> length (hkdf C s i f n) = n) \<and>
     (\<forall>k m. length (hmac_sha256 C k m) = 32) \<and>
     (\<forall>k p. length (x25519 C k p) = 32) \<and>
     (\<forall>k. length (x25519_public C k) = 32) \<and>
     rng_fills (fill_bytes C)"

definition aead_ok :: "'r crypto \<Rightarrow> bool" where
  "aead_ok C \<longleftrightarrow>
     (\<forall>k n m a. length k = 32 \<longrightarrow> length n = 24 \<longrightarrow> length m \<le> 65536 \<longrightarrow>
        (\<exists>c. aead_seal C k n m a = Some c \<and> length c = length m + 16 \<and> aead_open C k n c a = Some m)) \<and>
     (\<forall>k n c a m. aead_open C k n c a = Some m \<longrightarrow> length c = length m + 16)"

lemma crypto_lensD:
  assumes "crypto_lens C"
  shows "length (sha256 C x) = 32" "n \<le> 8160 \<Longrightarrow> length (hkdf C s i f n) = n"
    "length (hmac_sha256 C k m) = 32" "length (x25519 C k p) = 32" "length (x25519_public C k) = 32"
    "length (fst (fill_bytes C r j)) = j" "rng_fills (fill_bytes C)"
  using assms by (auto simp: crypto_lens_def rng_fills_def)

lemma aead_okE:
  assumes "aead_ok C" "length k = 32" "length n = 24" "length m \<le> 65536"
  obtains c where "aead_seal C k n m a = Some c" "length c = length m + 16" "aead_open C k n c a = Some m"
  using assms unfolding aead_ok_def by blast

lemma aead_open_length: "aead_ok C \<Longrightarrow> aead_open C k n c a = Some m \<Longrightarrow> length c = length m + 16"
  by (auto simp: aead_ok_def)

section \<open>Labels\<close>

definition ZERO32 :: bytes where "ZERO32 = replicate 32 0"
definition SALT_HANDSHAKE_LABEL :: bytes where "SALT_HANDSHAKE_LABEL = ascii ''libgary-v0-handshake''"
definition INFO_ROOT_KEY_V1 :: bytes where "INFO_ROOT_KEY_V1 = ascii ''libgary-v0/root-key-v1''"
definition INFO_CONFIRM_V1 :: bytes where "INFO_CONFIRM_V1 = ascii ''libgary-v0/confirm-v1''"
definition INFO_INIT_AEAD_V1 :: bytes where "INFO_INIT_AEAD_V1 = ascii ''libgary-v0/init-aead-v1''"
definition INFO_ACK_AEAD_V1 :: bytes where "INFO_ACK_AEAD_V1 = ascii ''libgary-v0/ack-aead-v1''"
definition INFO_CONTROL_AEAD_V1 :: bytes where "INFO_CONTROL_AEAD_V1 = ascii ''libgary-v0/control-aead-v1''"
definition INFO_INIT_INNER_V1 :: bytes where "INFO_INIT_INNER_V1 = ascii ''libgary-v0/init-inner-v1''"
definition INFO_ACK_INNER_V1 :: bytes where "INFO_ACK_INNER_V1 = ascii ''libgary-v0/ack-inner-v1''"
definition INFO_NONCE_V1 :: bytes where "INFO_NONCE_V1 = ascii ''libgary-v0/nonce-v1''"
definition INFO_CHAIN :: bytes where "INFO_CHAIN = ascii ''libgary-v0/libgary-chain''"
definition INFO_ROOT_MIX :: bytes where "INFO_ROOT_MIX = ascii ''libgary-v0/libgary-root''"
definition INFO_MSG_PREFIX :: bytes where "INFO_MSG_PREFIX = ascii ''libgary-v0/libgary-msg''"
definition INFO_DATA_INNER_PAD_V1 :: bytes where "INFO_DATA_INNER_PAD_V1 = ascii ''libgary-v0/data-inner-pad-v1''"
definition INFO_CTRL_PAD_V1 :: bytes where "INFO_CTRL_PAD_V1 = ascii ''libgary-v0/ctrl-pad-v1''"
definition TH0_PREFIX :: bytes where "TH0_PREFIX = ascii ''libgary-v0/th0-v1''"
definition TH1_PREFIX :: bytes where "TH1_PREFIX = ascii ''libgary-v0/th1-v1''"
definition TH0_RESET_PREFIX :: bytes where "TH0_RESET_PREFIX = ascii ''libgary-v0/th0-reset-v1''"
definition TH1_RESET_PREFIX :: bytes where "TH1_RESET_PREFIX = ascii ''libgary-v0/th1-reset-v1''"
definition AAD_INIT_PREFIX :: bytes where "AAD_INIT_PREFIX = ascii ''libgary-v0/init-aad-v1''"
definition AAD_ACK_PREFIX :: bytes where "AAD_ACK_PREFIX = ascii ''libgary-v0/ack-aad-v1''"
definition AAD_RESET_INIT_PREFIX :: bytes where "AAD_RESET_INIT_PREFIX = ascii ''libgary-v0/reset-init-aad-v1''"
definition AAD_RESET_ACK_PREFIX :: bytes where "AAD_RESET_ACK_PREFIX = ascii ''libgary-v0/reset-ack-aad-v1''"
definition SAFETY_NUMBER_PREFIX :: bytes where "SAFETY_NUMBER_PREFIX = ascii ''libgary-v0/safety-number-v1''"

definition DATA_INNER_FIXED :: nat where "DATA_INNER_FIXED = 512"
definition MAX_SKIP :: nat where "MAX_SKIP = 2000"

lemmas label_defs = SALT_HANDSHAKE_LABEL_def INFO_ROOT_KEY_V1_def INFO_CONFIRM_V1_def
  INFO_INIT_AEAD_V1_def INFO_ACK_AEAD_V1_def INFO_CONTROL_AEAD_V1_def INFO_INIT_INNER_V1_def
  INFO_ACK_INNER_V1_def INFO_NONCE_V1_def INFO_CHAIN_def INFO_ROOT_MIX_def INFO_MSG_PREFIX_def
  INFO_DATA_INNER_PAD_V1_def INFO_CTRL_PAD_V1_def TH0_PREFIX_def TH1_PREFIX_def TH0_RESET_PREFIX_def
  TH1_RESET_PREFIX_def AAD_INIT_PREFIX_def AAD_ACK_PREFIX_def AAD_RESET_INIT_PREFIX_def
  AAD_RESET_ACK_PREFIX_def SAFETY_NUMBER_PREFIX_def

section \<open>KDF, nonces, AEAD\<close>

definition hkdf_sha256 :: "'r crypto \<Rightarrow> bytes \<Rightarrow> bytes \<Rightarrow> bytes \<Rightarrow> nat \<Rightarrow> bytes" where
  "hkdf_sha256 C salt ikm info out_len = hkdf C salt ikm info out_len"

definition hkdf_zero32 :: "'r crypto \<Rightarrow> bytes \<Rightarrow> bytes \<Rightarrow> nat \<Rightarrow> bytes" where
  "hkdf_zero32 C ikm info out_len = hkdf_sha256 C ZERO32 ikm info out_len"

definition sha256_label :: "'r crypto \<Rightarrow> bytes \<Rightarrow> bytes \<Rightarrow> bytes" where
  "sha256_label C prefix body = sha256 C (prefix @ body)"

definition nonce24 :: "'r crypto \<Rightarrow> bytes \<Rightarrow> bytes \<Rightarrow> bytes" where
  "nonce24 C i_core label_dist = hkdf_sha256 C ZERO32 (i_core @ label_dist) INFO_NONCE_V1 24"

datatype AeadError = Cipher

definition xencrypt :: "'r crypto \<Rightarrow> bytes \<Rightarrow> bytes \<Rightarrow> bytes \<Rightarrow> bytes \<Rightarrow> AeadError + bytes" where
  "xencrypt C key nonce plaintext aad = ok_or Cipher (aead_seal C key nonce plaintext aad)"

definition xdecrypt :: "'r crypto \<Rightarrow> bytes \<Rightarrow> bytes \<Rightarrow> bytes \<Rightarrow> bytes \<Rightarrow> AeadError + bytes" where
  "xdecrypt C key nonce ciphertext aad = ok_or Cipher (aead_open C key nonce ciphertext aad)"

text \<open>\<open>try_into\<close> from a vector to an array of the given length.\<close>

definition try_into_array :: "'e \<Rightarrow> nat \<Rightarrow> bytes \<Rightarrow> 'e + bytes" where
  "try_into_array e n b = (if length b = n then Ok b else Err e)"

section \<open>X3DH, transcripts, session keys\<close>

definition dh :: "'r crypto \<Rightarrow> bytes \<Rightarrow> bytes \<Rightarrow> bytes" where
  "dh C sk peer = x25519 C sk peer"

definition km_with_otp :: "'r crypto \<Rightarrow> bytes \<Rightarrow> bytes \<Rightarrow> bytes \<Rightarrow> bytes \<Rightarrow> bytes \<Rightarrow> bytes" where
  "km_with_otp C ik_a ek_a ik_b_pub spk_b_pub otp_b_pub =
     dh C ik_a spk_b_pub @ dh C ek_a ik_b_pub @ dh C ek_a spk_b_pub @ dh C ek_a otp_b_pub"

definition th0 :: "'r crypto \<Rightarrow> bytes \<Rightarrow> bytes" where
  "th0 C init_body = sha256_label C TH0_PREFIX init_body"

definition th1 :: "'r crypto \<Rightarrow> bytes \<Rightarrow> init_ack_core \<Rightarrow> bytes" where
  "th1 C th0_digest core = sha256_label C TH1_PREFIX (th0_digest @ init_ack_core_encode core)"

definition th0_reset :: "'r crypto \<Rightarrow> bytes \<Rightarrow> bytes" where
  "th0_reset C reset_init_body = sha256_label C TH0_RESET_PREFIX reset_init_body"

definition th1_reset :: "'r crypto \<Rightarrow> bytes \<Rightarrow> init_ack_core \<Rightarrow> bytes" where
  "th1_reset C th0_r core = sha256_label C TH1_RESET_PREFIX (th0_r @ init_ack_core_encode core)"

definition salt_handshake :: "'r crypto \<Rightarrow> bytes" where
  "salt_handshake C = sha256_label C SALT_HANDSHAKE_LABEL []"

definition ikm_session :: "bytes \<Rightarrow> bytes \<Rightarrow> bytes \<Rightarrow> bytes" where
  "ikm_session km t0 t1 = km @ t0 @ t1"

definition okm_root_bootstrap :: "'r crypto \<Rightarrow> bytes \<Rightarrow> bytes" where
  "okm_root_bootstrap C ikm = hkdf_sha256 C (salt_handshake C) ikm INFO_ROOT_KEY_V1 64"

definition confirm_key :: "'r crypto \<Rightarrow> bytes \<Rightarrow> bytes" where
  "confirm_key C k = hkdf_zero32 C k INFO_CONFIRM_V1 32"

definition confirm_mac :: "'r crypto \<Rightarrow> bytes \<Rightarrow> bytes \<Rightarrow> bytes" where
  "confirm_mac C ck t1 = take 16 (hmac_sha256 C ck t1)"

definition verify_confirm_mac :: "'r crypto \<Rightarrow> bytes \<Rightarrow> bytes \<Rightarrow> bytes \<Rightarrow> bool" where
  "verify_confirm_mac C ck t1 mac \<longleftrightarrow> mac = confirm_mac C ck t1"

section \<open>Identity\<close>

definition min_max_32 :: "bytes \<Rightarrow> bytes \<Rightarrow> bytes \<times> bytes" where
  "min_max_32 a b = (if a < b then (a, b) else (b, a))"

definition safety_number :: "'r crypto \<Rightarrow> bytes \<Rightarrow> bytes \<Rightarrow> bytes \<Rightarrow> bytes \<Rightarrow> bytes" where
  "safety_number C ik_a ik_b spk_a spk_b =
     (let (ik_lo, ik_hi) = min_max_32 ik_a ik_b; (spk_lo, spk_hi) = min_max_32 spk_a spk_b
      in sha256 C (SAFETY_NUMBER_PREFIX @ ik_lo @ ik_hi @ spk_lo @ spk_hi))"

definition account_id :: "'r crypto \<Rightarrow> bytes \<Rightarrow> bytes" where
  "account_id C ed25519_pk = sha256 C ed25519_pk"

section \<open>Ratchet steps\<close>

definition chain_bootstrap :: "'r crypto \<Rightarrow> bytes \<Rightarrow> bytes \<times> bytes" where
  "chain_bootstrap C k =
     (let o1 = hkdf_zero32 C k INFO_CHAIN 64 in (bslice 0 32 o1, bslice 32 64 o1))"

definition msg_step :: "'r crypto \<Rightarrow> bytes \<Rightarrow> u64 \<Rightarrow> bytes \<times> bytes" where
  "msg_step C ck m =
     (let info = INFO_MSG_PREFIX @ to_be_bytes m; o1 = hkdf_zero32 C ck info 64
      in (bslice 0 32 o1, bslice 32 64 o1))"

definition dh_mix :: "'r crypto \<Rightarrow> bytes \<Rightarrow> bytes \<Rightarrow> bytes \<times> bytes \<times> bytes" where
  "dh_mix C rk_old dh_out =
     (let o1 = hkdf_sha256 C rk_old dh_out INFO_ROOT_MIX 96
      in (bslice 0 32 o1, bslice 32 64 o1, bslice 64 96 o1))"

section \<open>Lengths\<close>

lemma length_nonce24: "crypto_lens C \<Longrightarrow> length (nonce24 C i l) = 24"
  by (simp add: nonce24_def hkdf_sha256_def crypto_lensD)

lemma length_hkdf_zero32: "crypto_lens C \<Longrightarrow> n \<le> 8160 \<Longrightarrow> length (hkdf_zero32 C i f n) = n"
  by (simp add: hkdf_zero32_def hkdf_sha256_def crypto_lensD)

lemma length_chain_bootstrap:
  "crypto_lens C \<Longrightarrow> length (fst (chain_bootstrap C k)) = 32 \<and> length (snd (chain_bootstrap C k)) = 32"
  by (simp add: chain_bootstrap_def Let_def length_hkdf_zero32)

lemma length_msg_step:
  "crypto_lens C \<Longrightarrow> length (fst (msg_step C k m)) = 32 \<and> length (snd (msg_step C k m)) = 32"
  by (simp add: msg_step_def Let_def length_hkdf_zero32)

lemma length_dh_mix:
  "crypto_lens C \<Longrightarrow> dh_mix C k d = (r, a, b) \<Longrightarrow> length r = 32 \<and> length a = 32 \<and> length b = 32"
  by (auto simp: dh_mix_def Let_def hkdf_sha256_def crypto_lensD)

lemma length_sha256_label: "crypto_lens C \<Longrightarrow> length (sha256_label C p b) = 32"
  by (simp add: sha256_label_def crypto_lensD)

section \<open>AEAD round trip\<close>

lemma xencrypt_xdecrypt:
  assumes "aead_ok C" "length k = 32" "length n = 24" "length m \<le> 65536"
  obtains c where "xencrypt C k n m a = Ok c" "length c = length m + 16" "xdecrypt C k n c a = Ok m"
  using aead_okE [OF assms, of a] by (auto simp: xencrypt_def xdecrypt_def)

lemma xdecrypt_length: "aead_ok C \<Longrightarrow> xdecrypt C k n c a = Ok m \<Longrightarrow> length c = length m + 16"
  using aead_open_length by (simp add: xdecrypt_def)

end
