(* ===== verification/Sample_Crypto.thy ===== *)
theory Sample_Crypto
  imports Key_Schedule
begin

text \<open>
  A concrete instance of the primitives, on which the hypotheses \<open>crypto_lens\<close> and \<open>aead_ok\<close> hold: the
  properties that assume them are applied to it.  It is a length-correct stand-in (the first byte of
  the key is the authentication tag), not a model of the real primitives.
\<close>

definition sample_crypto :: "nat crypto" where
  "sample_crypto =
     \<lparr>sha256 = (\<lambda>x. replicate 32 (of_nat (length x))),
      hkdf = (\<lambda>s i f n. replicate n (hd (i @ [0]) + 1)),
      hmac_sha256 = (\<lambda>k m. replicate 32 (hd (k @ [0]))),
      aead_seal = (\<lambda>k n m a. Some (m @ replicate 16 (hd (k @ [0])))),
      aead_open = (\<lambda>k n c a. if 16 \<le> length c \<and> drop (length c - 16) c = replicate 16 (hd (k @ [0]))
                             then Some (take (length c - 16) c) else None),
      x25519 = (\<lambda>k p. replicate 32 (hd (k @ [0]) + hd (p @ [0]))),
      x25519_public = (\<lambda>k. replicate 32 (hd (k @ [0]))),
      fill_bytes = (\<lambda>r n. (replicate n (of_nat r), Suc r))\<rparr>"

lemma sample_lens [simp]: "crypto_lens sample_crypto"
  by (simp add: crypto_lens_def sample_crypto_def rng_fills_def)

lemma sample_aead [simp]: "aead_ok sample_crypto"
  by (auto simp: aead_ok_def sample_crypto_def split: if_splits)

end
