(* ===== verification/Handshake.thy ===== *)
theory Handshake
  imports Sample_Crypto
begin

text \<open>
  \<^verbatim>\<open>crates/libgary-core/src/{data,control,handshake,reset_handshake}.rs\<close>: the inner AEAD of DATA,
  control, INIT/INIT_ACK and RESET_INIT/RESET_ACK records: key, nonce, associated data and inner
  plaintext of each, and that each decryption opens its encryption.
\<close>

section \<open>DATA\<close>

datatype DataInnerError = ContentTooLarge

definition data_inner_plaintext :: "'r crypto \<Rightarrow> u16 \<Rightarrow> u16 \<Rightarrow> bytes \<Rightarrow> DataInnerError + bytes" where
  "data_inner_plaintext C inner_version content_type content =
     (let semantic = to_be_bytes inner_version @ to_be_bytes content_type
            @ to_be_bytes (of_nat (length content) :: u32) @ content;
          need = DATA_INNER_FIXED - length semantic
      in if length semantic > DATA_INNER_FIXED then Err ContentTooLarge
         else let pad = hkdf_zero32 C semantic INFO_DATA_INNER_PAD_V1 need
              in Ok (semantic @ pad))"

definition data_label :: "header \<Rightarrow> bytes" where
  "data_label h = ascii ''DATA'' @ to_be_bytes (epoch_be h) @ to_be_bytes (counter_be h)
     @ hdr_session_id h @ ratchet_pub h"

definition nonce_data :: "'r crypto \<Rightarrow> bytes \<Rightarrow> header \<Rightarrow> bytes" where
  "nonce_data C mk h = nonce24 C mk (data_label h)"

definition encrypt_data_payload :: "'r crypto \<Rightarrow> bytes \<Rightarrow> header \<Rightarrow> bytes \<Rightarrow> AeadError + bytes" where
  "encrypt_data_payload C mk h inner = xencrypt C mk (nonce_data C mk h) inner (header_encode h)"

section \<open>Control\<close>

datatype CtrlPadError = TooLong

definition k_control :: "'r crypto \<Rightarrow> bytes \<Rightarrow> bytes" where
  "k_control C k = hkdf_zero32 C k INFO_CONTROL_AEAD_V1 32"

definition ctrl_label :: "byte \<Rightarrow> u32 \<Rightarrow> u64 \<Rightarrow> bytes \<Rightarrow> bytes" where
  "ctrl_label ty e c sid = ascii ''CTRL'' @ [ty] @ to_be_bytes e @ to_be_bytes c @ sid"

definition nonce_ctrl :: "'r crypto \<Rightarrow> bytes \<Rightarrow> byte \<Rightarrow> u32 \<Rightarrow> u64 \<Rightarrow> bytes \<Rightarrow> bytes" where
  "nonce_ctrl C k ty e c sid = nonce24 C k (ctrl_label ty e c sid)"

definition ctrl_inner_padded256 :: "'r crypto \<Rightarrow> bytes \<Rightarrow> CtrlPadError + bytes" where
  "ctrl_inner_padded256 C body =
     (if length body > 256 then Err TooLong
      else let pad_len = 256 - length body; pad = hkdf_zero32 C body INFO_CTRL_PAD_V1 pad_len
           in Ok (body @ pad))"

definition encrypt_ctrl_payload :: "'r crypto \<Rightarrow> bytes \<Rightarrow> header \<Rightarrow> bytes \<Rightarrow> AeadError + bytes" where
  "encrypt_ctrl_payload C k h inner =
     xencrypt C (k_control C k)
       (nonce_ctrl C k (hdr_typ h) (epoch_be h) (counter_be h) (hdr_session_id h)) inner (header_encode h)"

definition decrypt_ctrl_payload :: "'r crypto \<Rightarrow> bytes \<Rightarrow> header \<Rightarrow> bytes \<Rightarrow> AeadError + bytes" where
  "decrypt_ctrl_payload C k h ct =
     result_bind (xdecrypt C (k_control C k)
       (nonce_ctrl C k (hdr_typ h) (epoch_be h) (counter_be h) (hdr_session_id h)) ct (header_encode h))
       (try_into_array Cipher 256)"

section \<open>INIT and INIT_ACK\<close>

definition k_init :: "'r crypto \<Rightarrow> bytes \<Rightarrow> bytes \<Rightarrow> bytes" where
  "k_init C km t0 = hkdf_zero32 C (km @ t0) INFO_INIT_AEAD_V1 32"

definition nonce_init :: "'r crypto \<Rightarrow> bytes \<Rightarrow> bytes \<Rightarrow> u32 \<Rightarrow> bytes \<Rightarrow> bytes" where
  "nonce_init C km t0 e sid = nonce24 C (km @ t0) (ascii ''INIT'' @ to_be_bytes e @ sid)"

definition aad_init :: "u32 \<Rightarrow> bytes \<Rightarrow> bytes \<Rightarrow> bytes" where
  "aad_init e sid body = AAD_INIT_PREFIX @ to_be_bytes e @ sid @ body"

definition plain_inner_init :: "'r crypto \<Rightarrow> bytes \<Rightarrow> bytes" where
  "plain_inner_init C t0 = hkdf_zero32 C t0 INFO_INIT_INNER_V1 256"

definition encrypt_init_inner ::
  "'r crypto \<Rightarrow> bytes \<Rightarrow> bytes \<Rightarrow> u32 \<Rightarrow> bytes \<Rightarrow> bytes \<Rightarrow> AeadError + bytes" where
  "encrypt_init_inner C km t0 e sid body =
     xencrypt C (k_init C km t0) (nonce_init C km t0 e sid) (plain_inner_init C t0) (aad_init e sid body)"

definition k_ack :: "'r crypto \<Rightarrow> bytes \<Rightarrow> bytes" where
  "k_ack C k = hkdf_zero32 C k INFO_ACK_AEAD_V1 32"

definition nonce_ack :: "'r crypto \<Rightarrow> bytes \<Rightarrow> u32 \<Rightarrow> bytes \<Rightarrow> bytes" where
  "nonce_ack C k e sid = nonce24 C k (ascii ''ACK'' @ to_be_bytes e @ sid)"

definition aad_ack :: "u32 \<Rightarrow> bytes \<Rightarrow> bytes \<Rightarrow> bytes" where
  "aad_ack e sid wire = AAD_ACK_PREFIX @ to_be_bytes e @ sid @ wire"

definition plain_inner_ack :: "'r crypto \<Rightarrow> bytes \<Rightarrow> bytes" where
  "plain_inner_ack C t1 = hkdf_zero32 C t1 INFO_ACK_INNER_V1 256"

definition encrypt_ack_inner ::
  "'r crypto \<Rightarrow> bytes \<Rightarrow> bytes \<Rightarrow> u32 \<Rightarrow> bytes \<Rightarrow> bytes \<Rightarrow> AeadError + bytes" where
  "encrypt_ack_inner C k t1 e sid wire =
     xencrypt C (k_ack C k) (nonce_ack C k e sid) (plain_inner_ack C t1) (aad_ack e sid wire)"

definition decrypt_ack_inner ::
  "'r crypto \<Rightarrow> bytes \<Rightarrow> u32 \<Rightarrow> bytes \<Rightarrow> bytes \<Rightarrow> bytes \<Rightarrow> AeadError + bytes" where
  "decrypt_ack_inner C k e sid wire ct =
     result_bind (xdecrypt C (k_ack C k) (nonce_ack C k e sid) ct (aad_ack e sid wire))
       (try_into_array Cipher 256)"

definition decrypt_init_inner ::
  "'r crypto \<Rightarrow> bytes \<Rightarrow> bytes \<Rightarrow> u32 \<Rightarrow> bytes \<Rightarrow> bytes \<Rightarrow> bytes \<Rightarrow> AeadError + bytes" where
  "decrypt_init_inner C km t0 e sid body ct =
     result_bind (xdecrypt C (k_init C km t0) (nonce_init C km t0 e sid) ct (aad_init e sid body))
       (try_into_array Cipher 256)"

section \<open>RESET_INIT and RESET_ACK\<close>

definition nonce_reset_init :: "'r crypto \<Rightarrow> bytes \<Rightarrow> bytes \<Rightarrow> u32 \<Rightarrow> bytes \<Rightarrow> bytes" where
  "nonce_reset_init C km t0 e sid = nonce24 C (km @ t0) (ascii ''RINIT'' @ to_be_bytes e @ sid)"

definition nonce_reset_ack :: "'r crypto \<Rightarrow> bytes \<Rightarrow> u32 \<Rightarrow> bytes \<Rightarrow> bytes" where
  "nonce_reset_ack C k e sid = nonce24 C k (ascii ''RACK'' @ to_be_bytes e @ sid)"

definition aad_reset_init :: "u32 \<Rightarrow> bytes \<Rightarrow> bytes \<Rightarrow> bytes" where
  "aad_reset_init e sid body = AAD_RESET_INIT_PREFIX @ to_be_bytes e @ sid @ body"

definition aad_reset_ack :: "u32 \<Rightarrow> bytes \<Rightarrow> bytes \<Rightarrow> bytes" where
  "aad_reset_ack e sid wire = AAD_RESET_ACK_PREFIX @ to_be_bytes e @ sid @ wire"

definition encrypt_reset_init_inner ::
  "'r crypto \<Rightarrow> bytes \<Rightarrow> bytes \<Rightarrow> u32 \<Rightarrow> bytes \<Rightarrow> bytes \<Rightarrow> AeadError + bytes" where
  "encrypt_reset_init_inner C km t0 e sid body =
     xencrypt C (k_init C km t0) (nonce_reset_init C km t0 e sid) (plain_inner_init C t0)
       (aad_reset_init e sid body)"

definition decrypt_reset_init_inner ::
  "'r crypto \<Rightarrow> bytes \<Rightarrow> bytes \<Rightarrow> u32 \<Rightarrow> bytes \<Rightarrow> bytes \<Rightarrow> bytes \<Rightarrow> AeadError + bytes" where
  "decrypt_reset_init_inner C km t0 e sid body ct =
     result_bind (xdecrypt C (k_init C km t0) (nonce_reset_init C km t0 e sid) ct (aad_reset_init e sid body))
       (try_into_array Cipher 256)"

definition encrypt_reset_ack_inner ::
  "'r crypto \<Rightarrow> bytes \<Rightarrow> bytes \<Rightarrow> u32 \<Rightarrow> bytes \<Rightarrow> bytes \<Rightarrow> AeadError + bytes" where
  "encrypt_reset_ack_inner C k t1 e sid wire =
     xencrypt C (k_ack C k) (nonce_reset_ack C k e sid) (plain_inner_ack C t1) (aad_reset_ack e sid wire)"

definition decrypt_reset_ack_inner ::
  "'r crypto \<Rightarrow> bytes \<Rightarrow> u32 \<Rightarrow> bytes \<Rightarrow> bytes \<Rightarrow> bytes \<Rightarrow> AeadError + bytes" where
  "decrypt_reset_ack_inner C k e sid wire ct =
     result_bind (xdecrypt C (k_ack C k) (nonce_reset_ack C k e sid) ct (aad_reset_ack e sid wire))
       (try_into_array Cipher 256)"

section \<open>Lengths\<close>

lemma data_inner_plaintext_Ok_iff:
  "(\<exists>p. data_inner_plaintext C v t c = Ok p) \<longleftrightarrow> length c \<le> 504"
  by (auto simp: data_inner_plaintext_def Let_def DATA_INNER_FIXED_def)

lemma data_inner_plaintext_layout:
  assumes "crypto_lens C" "data_inner_plaintext C v t c = Ok p"
  shows "length p = 512 \<and> length c \<le> 504 \<and> (\<exists>pad. p = to_be_bytes v @ to_be_bytes t
     @ to_be_bytes (of_nat (length c) :: u32) @ c @ pad)"
  using assms
  by (auto simp: data_inner_plaintext_def Let_def DATA_INNER_FIXED_def length_hkdf_zero32 split: if_splits)

lemma ctrl_inner_padded256_layout:
  assumes "crypto_lens C" "ctrl_inner_padded256 C b = Ok p"
  shows "length p = 256 \<and> take (length b) p = b"
  using assms by (auto simp: ctrl_inner_padded256_def Let_def length_hkdf_zero32 split: if_splits)

lemma ctrl_inner_padded256_Ok:
  "length b \<le> 256 \<Longrightarrow> \<exists>p. ctrl_inner_padded256 C b = Ok p"
  by (simp add: ctrl_inner_padded256_def Let_def)

lemma length_nonce_data: "crypto_lens C \<Longrightarrow> length (nonce_data C mk h) = 24"
  by (simp add: nonce_data_def length_nonce24)

lemma length_nonce_ctrl: "crypto_lens C \<Longrightarrow> length (nonce_ctrl C k ty e c sid) = 24"
  by (simp add: nonce_ctrl_def length_nonce24)

lemma length_k_control: "crypto_lens C \<Longrightarrow> length (k_control C k) = 32"
  by (simp add: k_control_def length_hkdf_zero32)

section \<open>Round trips\<close>

text \<open>Every \<open>encrypt_*_inner\<close> seals a 256-byte plaintext that the matching \<open>decrypt_*\<close> opens.\<close>

lemma seal_open_256:
  assumes "aead_ok C" "length k = 32" "length n = 24" "length p = 256"
  obtains c where "xencrypt C k n p a = Ok c" "length c = 272"
    "result_bind (xdecrypt C k n c a) (try_into_array Cipher 256) = Ok p"
proof -
  from assms obtain c where "xencrypt C k n p a = Ok c" "length c = 272" "xdecrypt C k n c a = Ok p"
    using xencrypt_xdecrypt [of C k n p a] by auto
  with assms(4) show thesis by (intro that [of c]) (simp_all add: try_into_array_def)
qed

lemma ctrl_roundtrip:
  assumes "crypto_lens C" "aead_ok C" "length p = 256"
  obtains c where "encrypt_ctrl_payload C k h p = Ok c" "length c = 272" "decrypt_ctrl_payload C k h c = Ok p"
  using seal_open_256 [OF assms(2) length_k_control [OF assms(1)] length_nonce_ctrl [OF assms(1)] assms(3)]
  unfolding encrypt_ctrl_payload_def decrypt_ctrl_payload_def by metis

lemma decrypt_ctrl_length: "decrypt_ctrl_payload C k h c = Ok p \<Longrightarrow> length p = 256"
  by (auto simp: decrypt_ctrl_payload_def try_into_array_def split: if_splits)

text \<open>The labels of a DATA or control nonce determine the header fields they bind.\<close>

lemma ctrl_label_inj:
  "length s = 16 \<Longrightarrow> length s' = 16 \<Longrightarrow>
     ctrl_label t e c s = ctrl_label t' e' c' s' \<longleftrightarrow> t = t' \<and> e = e' \<and> c = c' \<and> s = s'"
  by (simp add: ctrl_label_def)

lemma data_label_inj:
  "wf_header h \<Longrightarrow> wf_header h' \<Longrightarrow> data_label h = data_label h' \<longleftrightarrow>
     epoch_be h = epoch_be h' \<and> counter_be h = counter_be h' \<and> hdr_session_id h = hdr_session_id h'
     \<and> ratchet_pub h = ratchet_pub h'"
  by (simp add: data_label_def wf_header_def)

section \<open>Properties\<close>

text \<open>Every inner record opens.  For INIT, INIT_ACK, RESET_INIT, RESET_ACK and control records, encryption
  succeeds with a 272-byte ciphertext, and decryption with the same secrets and header fields returns the
  256-byte inner plaintext.\<close>

lemma inner_records_open:
  assumes "crypto_lens C" "aead_ok C" "length plain = 256"
  shows "(\<exists>c. encrypt_init_inner C km t0 e sid body = Ok c \<and> length c = 272
         \<and> decrypt_init_inner C km t0 e sid body c = Ok (plain_inner_init C t0))
    \<and> (\<exists>c. encrypt_ack_inner C k t1 e sid wire = Ok c \<and> length c = 272
         \<and> decrypt_ack_inner C k e sid wire c = Ok (plain_inner_ack C t1))
    \<and> (\<exists>c. encrypt_reset_init_inner C km t0 e sid body = Ok c \<and> length c = 272
         \<and> decrypt_reset_init_inner C km t0 e sid body c = Ok (plain_inner_init C t0))
    \<and> (\<exists>c. encrypt_reset_ack_inner C k t1 e sid wire = Ok c \<and> length c = 272
         \<and> decrypt_reset_ack_inner C k e sid wire c = Ok (plain_inner_ack C t1))
    \<and> (\<exists>c. encrypt_ctrl_payload C k h plain = Ok c \<and> length c = 272 \<and> decrypt_ctrl_payload C k h c = Ok plain)"
proof -
  note l = length_hkdf_zero32 [OF assms(1)] length_nonce24 [OF assms(1)]
  have open1: "\<exists>c. xencrypt C kk n p a = Ok c \<and> length c = 272 \<and> result_bind (xdecrypt C kk n c a) (try_into_array Cipher 256) = Ok p"
    if "length kk = 32" "length n = 24" "length p = 256" for kk n p a
    using seal_open_256 [OF assms(2) that, of a] by blast
  show ?thesis
    unfolding encrypt_init_inner_def decrypt_init_inner_def encrypt_ack_inner_def decrypt_ack_inner_def
      encrypt_reset_init_inner_def decrypt_reset_init_inner_def encrypt_reset_ack_inner_def decrypt_reset_ack_inner_def
      encrypt_ctrl_payload_def decrypt_ctrl_payload_def
    by (intro conjI open1)
      (simp_all add: k_init_def k_ack_def k_control_def nonce_init_def nonce_ack_def nonce_reset_init_def nonce_reset_ack_def
        nonce_ctrl_def plain_inner_init_def plain_inner_ack_def l assms(3))
qed

lemma inner_records_open_witness:
  "\<exists>c. encrypt_init_inner sample_crypto [1] [2] 7 [3] [4] = Ok c
     \<and> decrypt_init_inner sample_crypto [1] [2] 7 [3] [4] c = Ok (plain_inner_init sample_crypto [2])"
  using inner_records_open [OF sample_lens sample_aead length_replicate, THEN conjunct1, of "[1]" "[2]" 7 "[3]" "[4]"] by blast

text \<open>Record types do not share associated data or nonce labels: whatever their fields, the associated data of
  INIT, INIT_ACK, RESET_INIT and RESET_ACK differ from each other, and the label of a DATA nonce is never that
  of a control nonce; within a type, equal labels mean equal epoch, counter and session (and type or ratchet key).\<close>

lemma inner_domains_separated:
  assumes "wf_header h" "wf_header h'" "length sid = 16" "length sid' = 16"
  shows "distinct [aad_init e sid body, aad_ack e' sid' wire, aad_reset_init e2 sid2 body2, aad_reset_ack e3 sid3 wire3]
    \<and> data_label h \<noteq> ctrl_label t e4 c sid
    \<and> (data_label h = data_label h' \<longleftrightarrow> epoch_be h = epoch_be h' \<and> counter_be h = counter_be h'
         \<and> hdr_session_id h = hdr_session_id h' \<and> ratchet_pub h = ratchet_pub h')
    \<and> (ctrl_label t e4 c sid = ctrl_label t' e5 c' sid' \<longleftrightarrow> t = t' \<and> e4 = e5 \<and> c = c' \<and> sid = sid')"
proof -
  have "distinct [aad_init e sid body, aad_ack e' sid' wire, aad_reset_init e2 sid2 body2, aad_reset_ack e3 sid3 wire3]"
    by (simp add: aad_init_def aad_ack_def aad_reset_init_def aad_reset_ack_def AAD_INIT_PREFIX_def AAD_ACK_PREFIX_def
        AAD_RESET_INIT_PREFIX_def AAD_RESET_ACK_PREFIX_def ascii_def)
  moreover have "data_label h \<noteq> ctrl_label t e4 c sid" by (simp add: data_label_def ctrl_label_def ascii_def)
  ultimately show ?thesis using data_label_inj [OF assms(1,2)] ctrl_label_inj [OF assms(3,4)] by blast
qed

lemma inner_domains_separated_witness:
  "ctrl_label 5 7 1 (replicate 16 0) \<noteq> ctrl_label 5 7 2 (replicate 16 0)"
  using inner_domains_separated [of "header_decode (replicate 63 0)" "header_decode (replicate 63 0)" "replicate 16 0" "replicate 16 0"
      0 "[]" 0 "[]" 0 "[]" "[]" 0 "[]" "[]" 5 7 1 5 7 2] wf_header_decode [of "replicate 63 0"] by simp

text \<open>Both parties compute the same safety number, whichever of them is called first, and only the two
  identity keys and the two prekeys, as unordered pairs, enter the hash.\<close>

lemma safety_number_symmetric:
  "safety_number C ik_a ik_b spk_a spk_b = safety_number C ik_b ik_a spk_b spk_a
   \<and> (\<exists>lo hi plo phi. safety_number C ik_a ik_b spk_a spk_b = sha256 C (SAFETY_NUMBER_PREFIX @ lo @ hi @ plo @ phi)
        \<and> lo \<le> hi \<and> {lo, hi} = {ik_a, ik_b} \<and> plo \<le> phi \<and> {plo, phi} = {spk_a, spk_b})"
proof -
  have sym: "min_max_32 a b = min_max_32 b a" and mm: "fst (min_max_32 a b) \<le> snd (min_max_32 a b)"
    "{fst (min_max_32 a b), snd (min_max_32 a b)} = {a, b}" for a b
    by (auto simp: min_max_32_def)
  show ?thesis
    using sym [of ik_a ik_b] sym [of spk_a spk_b] mm [of ik_a ik_b] mm [of spk_a spk_b]
    unfolding safety_number_def Let_def split_beta by metis
qed

end
