(* ===== verification/Skipped_Cache.thy ===== *)
theory Skipped_Cache
  imports Key_Schedule
begin

text \<open>
  \<^verbatim>\<open>crates/libgary-core/src/engine/{error,skipped}.rs\<close>: the session error type and the bounded cache of
  skipped message keys.  The \<open>HashMap\<close> is an association list with distinct keys; no operation
  depends on its order (\<open>encode_sorted_entries_map\<close>).  The locale \<open>key_cache\<close> is the interface the
  ratchet relies on, interpreted on the cache below.
\<close>

section \<open>Errors\<close>

datatype SessionError =
    ReplayRejected
  | StaleEpochRejected
  | DecryptionFailed
  | MaxSkipExceeded
  | InvalidHeader
  | UnknownSession
  | StateIntegrity
  | ResetRequired
  | LateDataAfterReset
  | FutureEpoch

section \<open>Operations\<close>

type_synonym skipped_key_cache = "(bytes \<times> bytes) list"

definition cache_key :: "bytes \<Rightarrow> u64 \<Rightarrow> bytes" where
  "cache_key peer c = peer @ to_be_bytes c"

definition skipped_new :: skipped_key_cache where
  "skipped_new = []"

definition skipped_len :: "skipped_key_cache \<Rightarrow> nat" where
  "skipped_len m = length m"

definition skipped_insert ::
  "skipped_key_cache \<Rightarrow> bytes \<Rightarrow> u64 \<Rightarrow> bytes \<Rightarrow> (SessionError + unit) \<times> skipped_key_cache" where
  "skipped_insert m peer c mk =
     (if skipped_len m \<ge> MAX_SKIP then (Err MaxSkipExceeded, m)
      else let key = cache_key peer c in
        if key \<in> fst ` set m then (Err ReplayRejected, m)
        else (Ok (), (key, mk) # m))"

definition skipped_take :: "skipped_key_cache \<Rightarrow> bytes \<Rightarrow> u64 \<Rightarrow> bytes option \<times> skipped_key_cache" where
  "skipped_take m peer c =
     (let key = cache_key peer c in (map_of m key, filter (\<lambda>(k, _). k \<noteq> key) m))"

definition skipped_clear :: "skipped_key_cache \<Rightarrow> skipped_key_cache" where
  "skipped_clear m = []"

definition encode_sorted_entries :: "skipped_key_cache \<Rightarrow> (bytes \<times> bytes) list" where
  "encode_sorted_entries m = sort_key fst m"

fun restore_loop :: "skipped_key_cache \<Rightarrow> (bytes \<times> bytes) list \<Rightarrow> SessionError + skipped_key_cache" where
  "restore_loop s [] = Ok s"
| "restore_loop s ((key, mk) # rest) =
     (case skipped_insert s (bslice 0 32 key) (from_be_bytes (bslice 32 40 key)) mk of
        (Inl e, _) \<Rightarrow> Err e
      | (Inr _, s') \<Rightarrow> restore_loop s' rest)"

definition restore_sorted_entries :: "(bytes \<times> bytes) list \<Rightarrow> SessionError + skipped_key_cache" where
  "restore_sorted_entries entries = restore_loop skipped_new entries"

section \<open>Invariant\<close>

text \<open>What the types and the bound guarantee: distinct 40-byte keys, 32-byte values, at most
  \<open>MAX_SKIP\<close> entries.\<close>

definition skipped_inv :: "skipped_key_cache \<Rightarrow> bool" where
  "skipped_inv m \<longleftrightarrow> distinct (map fst m) \<and> (\<forall>(k, v) \<in> set m. length k = 40 \<and> length v = 32)
     \<and> length m \<le> MAX_SKIP"

definition skipped_lookup :: "skipped_key_cache \<Rightarrow> bytes \<Rightarrow> u64 \<Rightarrow> bytes option" where
  "skipped_lookup m peer c = map_of m (cache_key peer c)"

lemma length_cache_key [simp, lens]: "length (cache_key p c) = length p + 8"
  by (simp add: cache_key_def)

lemma cache_key_inj [simp]:
  "length p = length q \<Longrightarrow> cache_key p c = cache_key q d \<longleftrightarrow> p = q \<and> c = d"
  by (simp add: cache_key_def)

lemma cache_key_split:
  "length k = 40 \<Longrightarrow> cache_key (bslice 0 32 k) (from_be_bytes (bslice 32 40 k)) = k"
  by (simp add: cache_key_def bslice_append bslice_full)

lemma skipped_inv_new [simp]: "skipped_inv skipped_new"
  by (simp add: skipped_inv_def skipped_new_def)

lemma skipped_insert_inv:
  "skipped_inv m \<Longrightarrow> length p = 32 \<Longrightarrow> length v = 32 \<Longrightarrow> skipped_inv (snd (skipped_insert m p c v))"
  by (auto simp: skipped_inv_def skipped_insert_def skipped_len_def Let_def)

lemma map_of_filter_key: "map_of (filter (\<lambda>(k, _). k \<noteq> key) m) = (map_of m)(key := None)"
  by (induction m) (auto simp: fun_eq_iff)

lemma skipped_take_inv: "skipped_inv m \<Longrightarrow> skipped_inv (snd (skipped_take m p c))"
  by (auto simp: skipped_inv_def skipped_take_def Let_def distinct_map inj_on_def
      intro: le_trans [OF length_filter_le])

lemma skipped_inv_cap: "skipped_inv m \<Longrightarrow> skipped_len m \<le> MAX_SKIP"
  by (simp add: skipped_inv_def skipped_len_def)

lemma skipped_value_len: "skipped_inv m \<Longrightarrow> skipped_lookup m p c = Some v \<Longrightarrow> length v = 32"
  by (auto simp: skipped_inv_def skipped_lookup_def dest!: map_of_SomeD)

lemma skipped_take_result: "fst (skipped_take m p c) = skipped_lookup m p c"
  by (simp add: skipped_take_def skipped_lookup_def Let_def)

lemma skipped_take_lookup:
  "length p = length q \<Longrightarrow> skipped_lookup (snd (skipped_take m p c)) q d =
     (if q = p \<and> d = c then None else skipped_lookup m q d)"
  by (auto simp: skipped_take_def skipped_lookup_def Let_def map_of_filter_key)

lemma skipped_lookup_None: "skipped_lookup m p c = None \<longleftrightarrow> cache_key p c \<notin> fst ` set m"
  unfolding skipped_lookup_def by (rule map_of_eq_None_iff)

lemma filter_fresh_key: "key \<notin> fst ` set m \<Longrightarrow> filter (\<lambda>(k, _). k \<noteq> key) m = m"
  by (induction m) auto

lemma length_filter_key:
  "distinct (map fst m) \<Longrightarrow> key \<in> fst ` set m \<Longrightarrow>
     Suc (length (filter (\<lambda>(k, _). k \<noteq> key) m)) = length m"
proof (induction m)
  case (Cons e m)
  then show ?case by (cases e) (auto simp: filter_fresh_key)
qed simp

section \<open>The interface\<close>

text \<open>
  What the receive path needs of a key cache of capacity \<open>cap\<close>: a stored key is returned exactly
  once, a stored counter cannot be overwritten, and the size never exceeds the capacity.
\<close>

locale key_cache =
  fixes put :: "'m \<Rightarrow> bytes \<Rightarrow> u64 \<Rightarrow> bytes \<Rightarrow> (SessionError + unit) \<times> 'm"
    and pull :: "'m \<Rightarrow> bytes \<Rightarrow> u64 \<Rightarrow> bytes option \<times> 'm"
    and look :: "'m \<Rightarrow> bytes \<Rightarrow> u64 \<Rightarrow> bytes option"
    and size_of :: "'m \<Rightarrow> nat"
    and inv :: "'m \<Rightarrow> bool"
    and cap :: nat
  assumes put_full: "cap \<le> size_of m \<Longrightarrow> put m p c v = (Err MaxSkipExceeded, m)"
    and put_dup: "size_of m < cap \<Longrightarrow> look m p c \<noteq> None \<Longrightarrow> put m p c v = (Err ReplayRejected, m)"
    and put_new: "size_of m < cap \<Longrightarrow> look m p c = None \<Longrightarrow> fst (put m p c v) = Ok ()"
    and put_look: "fst (put m p c v) = Ok () \<Longrightarrow> length p = length q \<Longrightarrow>
      look (snd (put m p c v)) q d = (if q = p \<and> d = c then Some v else look m q d)"
    and put_size: "fst (put m p c v) = Ok () \<Longrightarrow> size_of (snd (put m p c v)) = Suc (size_of m)"
    and put_inv: "inv m \<Longrightarrow> length p = 32 \<Longrightarrow> length v = 32 \<Longrightarrow> inv (snd (put m p c v))"
    and pull_val: "fst (pull m p c) = look m p c"
    and pull_look: "length p = length q \<Longrightarrow>
      look (snd (pull m p c)) q d = (if q = p \<and> d = c then None else look m q d)"
    and pull_inv: "inv m \<Longrightarrow> inv (snd (pull m p c))"
    and pull_size: "inv m \<Longrightarrow>
      size_of (snd (pull m p c)) = (if look m p c = None then size_of m else size_of m - 1)"
    and inv_cap: "inv m \<Longrightarrow> size_of m \<le> cap"
begin

lemma put_cases:
  obtains (full) "cap \<le> size_of m" "put m p c v = (Err MaxSkipExceeded, m)"
    | (dup) "size_of m < cap" "look m p c \<noteq> None" "put m p c v = (Err ReplayRejected, m)"
    | (new) "size_of m < cap" "look m p c = None" "fst (put m p c v) = Ok ()"
  using put_full put_dup put_new by (cases "cap \<le> size_of m"; cases "look m p c") force+

lemma pull_once: "fst (pull (snd (pull m p c)) p c) = None"
  by (simp add: pull_val pull_look)

lemma put_pull: "fst (put m p c v) = Ok () \<Longrightarrow> fst (pull (snd (put m p c v)) p c) = Some v"
  by (simp add: pull_val put_look)

lemma put_error_unchanged: "fst (put m p c v) = Err e \<Longrightarrow> snd (put m p c v) = m"
  by (cases rule: put_cases [of m p c v]) auto

lemma put_bounded: "inv m \<Longrightarrow> length p = 32 \<Longrightarrow> length v = 32 \<Longrightarrow> size_of (snd (put m p c v)) \<le> cap"
  by (rule inv_cap) (rule put_inv)

end

interpretation cache: key_cache skipped_insert skipped_take skipped_lookup skipped_len skipped_inv MAX_SKIP
proof
  fix m :: skipped_key_cache and p q v :: bytes and c d :: u64
  show "skipped_insert m p c v = (Err MaxSkipExceeded, m)" if "MAX_SKIP \<le> skipped_len m"
    using that by (simp add: skipped_insert_def)
  show "skipped_insert m p c v = (Err ReplayRejected, m)"
    if "skipped_len m < MAX_SKIP" "skipped_lookup m p c \<noteq> None"
    using that by (simp add: skipped_insert_def skipped_lookup_None)
  show "fst (skipped_insert m p c v) = Ok ()" if "skipped_len m < MAX_SKIP" "skipped_lookup m p c = None"
    using that by (simp add: skipped_insert_def skipped_lookup_None)
  show "skipped_lookup (snd (skipped_insert m p c v)) q d
      = (if q = p \<and> d = c then Some v else skipped_lookup m q d)"
    if "fst (skipped_insert m p c v) = Ok ()" "length p = length q"
    using that by (auto simp: skipped_insert_def skipped_lookup_def Let_def split: if_splits)
  show "skipped_len (snd (skipped_insert m p c v)) = Suc (skipped_len m)"
    if "fst (skipped_insert m p c v) = Ok ()"
    using that by (auto simp: skipped_insert_def skipped_len_def Let_def split: if_splits)
  show "skipped_len (snd (skipped_take m p c))
      = (if skipped_lookup m p c = None then skipped_len m else skipped_len m - 1)" if "skipped_inv m"
  proof (cases "cache_key p c \<in> fst ` set m")
    case True
    with that show ?thesis using length_filter_key [of m "cache_key p c"]
      by (simp only: skipped_take_def skipped_len_def skipped_lookup_None skipped_inv_def Let_def snd_conv)
        simp
  next
    case False
    then show ?thesis
      by (simp add: skipped_take_def skipped_len_def skipped_lookup_None filter_fresh_key)
  qed
qed (simp_all add: skipped_insert_inv skipped_take_inv skipped_take_result skipped_take_lookup
      skipped_inv_cap)

section \<open>Export and restore\<close>

lemma sort_key_fst_unique:
  fixes m m' :: "('a::linorder \<times> 'b) list"
  assumes "distinct (map fst m)" "distinct (map fst m')" "set m = set m'"
  shows "sort_key fst m = sort_key fst m'"
  using assms
  by (intro map_sorted_distinct_set_unique [where f = fst])
    (simp_all add: distinct_map distinct_insort)

text \<open>The exported order does not depend on the iteration order of the hash map.\<close>

lemma encode_sorted_entries_map:
  assumes "distinct (map fst m)" "distinct (map fst m')" "map_of m = map_of m'"
  shows "encode_sorted_entries m = encode_sorted_entries m'"
proof -
  have "set m = set m'" by (rule map_of_inject_set [OF assms(1,2), THEN iffD1, OF assms(3)])
  with assms(1,2) show ?thesis unfolding encode_sorted_entries_def by (rule sort_key_fst_unique)
qed

lemma restore_loop_Ok:
  assumes "\<forall>(k, v) \<in> set es. length k = 40" "distinct (map fst (rev es @ s))"
    "length s + length es \<le> MAX_SKIP"
  shows "restore_loop s es = Ok (rev es @ s)"
  using assms
proof (induction es arbitrary: s)
  case (Cons e es)
  obtain k v where e: "e = (k, v)" by (cases e)
  have "length k = 40" using Cons.prems(1) e by simp
  moreover have "k \<notin> fst ` set s" using Cons.prems(2) e by auto
  ultimately have "skipped_insert s (bslice 0 32 k) (from_be_bytes (bslice 32 40 k)) v = (Ok (), (k, v) # s)"
    using Cons.prems(3) by (simp add: skipped_insert_def skipped_len_def cache_key_split)
  with Cons e show ?case by simp
qed simp

lemma restore_encode:
  assumes "skipped_inv m"
  obtains m' where "restore_sorted_entries (encode_sorted_entries m) = Ok m'" "map_of m' = map_of m"
    "skipped_inv m'" "length m' = length m" "encode_sorted_entries m' = encode_sorted_entries m"
proof -
  let ?es = "encode_sorted_entries m"
  have s: "set ?es = set m" "length ?es = length m" "distinct (map fst ?es)"
    using assms by (auto simp: encode_sorted_entries_def skipped_inv_def distinct_map)
  have "restore_loop skipped_new ?es = Ok (rev ?es @ skipped_new)"
    using assms s by (intro restore_loop_Ok) (auto simp: skipped_inv_def skipped_new_def rev_map [symmetric])
  then have r: "restore_sorted_entries ?es = Ok (rev ?es)"
    by (simp add: restore_sorted_entries_def skipped_new_def)
  have mo: "map_of (rev ?es) = map_of m"
    using assms s by (intro map_of_inject_set [THEN iffD2]) (simp_all add: skipped_inv_def rev_map [symmetric])
  have d: "distinct (map fst (rev ?es))" using s by (simp add: rev_map [symmetric])
  have "encode_sorted_entries (rev ?es) = ?es"
    using encode_sorted_entries_map [OF d _ mo] assms by (simp add: skipped_inv_def)
  with r mo s d assms show thesis by (intro that [of "rev ?es"]) (auto simp: skipped_inv_def)
qed

lemma restore_loop_inv:
  assumes "restore_loop s es = Ok m" "skipped_inv s" "\<forall>(k, v) \<in> set es. length k = 40 \<and> length v = 32"
  shows "skipped_inv m"
  using assms
proof (induction s es rule: restore_loop.induct)
  case (2 s key mk rest)
  let ?i = "skipped_insert s (bslice 0 32 key) (from_be_bytes (bslice 32 40 key)) mk"
  have "skipped_inv (snd ?i)" using 2 by (intro skipped_insert_inv) auto
  with 2 show ?case by (cases ?i) (auto split: sum.splits)
qed simp

end
