(* ===== verification/Ratchet_Blob.thy ===== *)
theory Ratchet_Blob
  imports Skipped_Cache
begin

text \<open>
  \<^verbatim>\<open>crates/libgary-core/src/engine/{types,mode,anchor,blob}.rs\<close>: the role and ingress mode of a session,
  the device integrity anchor with its state commitment, and version 2 of the persisted ratchet blob.
\<close>

section \<open>Role and mode\<close>

datatype Role = Initiator | Responder

fun role_flag :: "Role \<Rightarrow> byte" where
  "role_flag Initiator = 0x00"
| "role_flag Responder = 0x01"

definition from_role_flag :: "byte \<Rightarrow> SessionError + Role" where
  "from_role_flag b = (if b = 0x00 then Ok Initiator else if b = 0x01 then Ok Responder else Err InvalidHeader)"

lemma from_role_flag_role_flag [simp]: "from_role_flag (role_flag r) = Ok r"
  by (cases r) (simp_all add: from_role_flag_def)

datatype SessionMode =
    Active (mode_epoch: u32)
  | ResetPending (old_epoch: u32) (new_epoch: u32) (drain_until_ticks: "u64 option")
  | Bootstrapping (mode_epoch: u32)

section \<open>Integrity anchor\<close>

record device_state_anchor =
  anchor_version_be :: u16
  protocol_version_be :: u16
  kdf_suite_id_be :: u32
  global_epoch_be :: u64
  highest_wire_seen_be :: u64
  ratchet_blob_scheme_be :: u32
  state_commitment :: bytes

definition Anchor_LEN :: nat where "Anchor_LEN = 2 + 2 + 4 + 8 + 8 + 4 + 32"

definition wf_anchor :: "device_state_anchor \<Rightarrow> bool" where
  "wf_anchor a \<longleftrightarrow> length (state_commitment a) = 32"

definition anchor_new_v0 :: "u64 \<Rightarrow> device_state_anchor" where
  "anchor_new_v0 g =
     \<lparr>anchor_version_be = 1, protocol_version_be = 1, kdf_suite_id_be = 1, global_epoch_be = g,
      highest_wire_seen_be = 0, ratchet_blob_scheme_be = 2, state_commitment = replicate 32 0\<rparr>"

definition anchor_encode :: "device_state_anchor \<Rightarrow> bytes" where
  "anchor_encode a =
     to_be_bytes (anchor_version_be a) @ to_be_bytes (protocol_version_be a) @ to_be_bytes (kdf_suite_id_be a)
     @ to_be_bytes (global_epoch_be a) @ to_be_bytes (highest_wire_seen_be a)
     @ to_be_bytes (ratchet_blob_scheme_be a) @ state_commitment a"

definition anchor_decode :: "bytes \<Rightarrow> device_state_anchor" where
  "anchor_decode b =
     \<lparr>anchor_version_be = from_be_bytes (bslice 0 2 b), protocol_version_be = from_be_bytes (bslice 2 4 b),
      kdf_suite_id_be = from_be_bytes (bslice 4 8 b), global_epoch_be = from_be_bytes (bslice 8 16 b),
      highest_wire_seen_be = from_be_bytes (bslice 16 24 b),
      ratchet_blob_scheme_be = from_be_bytes (bslice 24 28 b), state_commitment = bslice 28 60 b\<rparr>"

definition compute_state_commitment :: "'r crypto \<Rightarrow> bytes \<Rightarrow> u64 \<Rightarrow> bytes" where
  "compute_state_commitment C snapshot g =
     sha256 C (ascii ''libgary-v0/state-commit-v1'' @ to_be_bytes (1 :: u16) @ to_be_bytes (1 :: u32)
       @ snapshot @ to_be_bytes g)"

lemma length_anchor_encode [lens]: "wf_anchor a \<Longrightarrow> length (anchor_encode a) = 60"
  by (simp add: anchor_encode_def wf_anchor_def)

lemma anchor_decode_encode: "wf_anchor a \<Longrightarrow> anchor_decode (anchor_encode a) = a"
  by (simp add: anchor_encode_def anchor_decode_def wf_anchor_def bslice_def)

lemma anchor_encode_decode: "length b = 60 \<Longrightarrow> anchor_encode (anchor_decode b) = b"
  by (simp add: anchor_encode_def anchor_decode_def bslice_append bslice_full)

lemma wf_anchor_decode: "length b = 60 \<Longrightarrow> wf_anchor (anchor_decode b)"
  by (simp add: wf_anchor_def anchor_decode_def)

interpretation anchor: fixed_codec anchor_encode anchor_decode wf_anchor Anchor_LEN
  by unfold_locales
    (simp_all add: Anchor_LEN_def length_anchor_encode anchor_decode_encode anchor_encode_decode
      wf_anchor_decode)

section \<open>Ratchet state blob\<close>

record parsed_ratchet_blob =
  pb_role :: Role
  pb_rk :: bytes
  pb_cks :: bytes
  pb_ckr :: bytes
  pb_dh_ratchet_sk :: bytes
  pb_dh_ratchet_pk :: bytes
  pb_peer_ratchet_pub :: bytes
  pb_send_count_be :: u64
  pb_recv_high_water_be :: u64
  pb_send_sym_idx_be :: u64
  pb_recv_sym_idx_be :: u64
  pb_skipped :: skipped_key_cache

definition BLOB_V2_PREFIX_LEN :: nat where "BLOB_V2_PREFIX_LEN = 2 + 32 * 6 + 8 * 4 + 4"

definition encode_entry :: "bytes \<times> bytes \<Rightarrow> bytes" where
  "encode_entry e = (case e of (key, mk) \<Rightarrow> take 32 key @ drop 32 key @ mk)"

definition encode_blob_v2 ::
  "Role \<Rightarrow> bytes \<Rightarrow> bytes \<Rightarrow> bytes \<Rightarrow> bytes \<Rightarrow> bytes \<Rightarrow> bytes \<Rightarrow> u64 \<Rightarrow> u64 \<Rightarrow> u64 \<Rightarrow> u64
     \<Rightarrow> skipped_key_cache \<Rightarrow> bytes" where
  "encode_blob_v2 role rk cks ckr sk pk peer send_count recv_hw send_sym recv_sym skipped =
     (let entries = encode_sorted_entries skipped; skipped_count = length entries in
      [2] @ [role_flag role] @ rk @ cks @ ckr @ sk @ pk @ peer
      @ to_be_bytes send_count @ to_be_bytes recv_hw @ to_be_bytes send_sym @ to_be_bytes recv_sym
      @ to_be_bytes (of_nat skipped_count :: u32) @ concat (map encode_entry entries))"

definition decode_entry :: "bytes \<Rightarrow> nat \<Rightarrow> bytes \<times> bytes" where
  "decode_entry body i =
     (let base = i * 72;
          peer = bslice base (base + 32) body;
          ctr = (from_be_bytes (bslice (base + 32) (base + 40) body) :: u64);
          mk = bslice (base + 40) (base + 72) body
      in (peer @ to_be_bytes ctr, mk))"

definition decode_blob_v2 :: "bytes \<Rightarrow> SessionError + parsed_ratchet_blob" where
  "decode_blob_v2 b =
     (if length b < BLOB_V2_PREFIX_LEN then Err InvalidHeader
      else if b ! 0 \<noteq> 2 then Err InvalidHeader
      else result_bind (from_role_flag (b ! 1)) (\<lambda>role.
        let skipped_count = unat (from_be_bytes (bslice 226 230 b) :: u32);
            body = drop 230 b
        in if length body \<noteq> skipped_count * 72 then Err InvalidHeader
           else let pairs = map (decode_entry body) [0..<skipped_count]
             in result_bind (restore_sorted_entries pairs) (\<lambda>skipped.
               Ok \<lparr>pb_role = role, pb_rk = bslice 2 34 b, pb_cks = bslice 34 66 b, pb_ckr = bslice 66 98 b,
                   pb_dh_ratchet_sk = bslice 98 130 b, pb_dh_ratchet_pk = bslice 130 162 b,
                   pb_peer_ratchet_pub = bslice 162 194 b,
                   pb_send_count_be = from_be_bytes (bslice 194 202 b),
                   pb_recv_high_water_be = from_be_bytes (bslice 202 210 b),
                   pb_send_sym_idx_be = from_be_bytes (bslice 210 218 b),
                   pb_recv_sym_idx_be = from_be_bytes (bslice 218 226 b), pb_skipped = skipped\<rparr>)))"

section \<open>Entry list\<close>

lemma length_concat_entries:
  "\<forall>e \<in> set es. length (encode_entry e) = 72 \<Longrightarrow> length (concat (map encode_entry es)) = length es * 72"
  by (induction es) auto

lemma drop_concat_entries:
  "\<forall>e \<in> set es. length (encode_entry e) = 72 \<Longrightarrow> i < length es \<Longrightarrow>
     drop (i * 72) (concat (map encode_entry es)) = encode_entry (es ! i) @ drop (Suc i * 72) (concat (map encode_entry es))"
proof (induction es arbitrary: i)
  case (Cons e es)
  then show ?case by (cases i) auto
qed simp

lemma decode_entry_nth:
  assumes "\<forall>(k, v) \<in> set es. length k = 40 \<and> length v = 32" "i < length es"
  shows "decode_entry (concat (map encode_entry es)) i = es ! i"
proof -
  obtain k v where e: "es ! i = (k, v)" by (cases "es ! i")
  with assms nth_mem have l: "length k = 40" "length v = 32" by fastforce+
  have all: "\<forall>e \<in> set es. length (encode_entry e) = 72"
    using assms(1) by (auto simp: encode_entry_def)
  let ?b = "concat (map encode_entry es)"
  have d: "drop (i * 72) ?b = (k @ v) @ drop (Suc i * 72) ?b"
    using drop_concat_entries [OF all assms(2)] e by (simp add: encode_entry_def flip: append_assoc)
  have s: "bslice (i * 72 + a) (i * 72 + c) ?b = bslice a c (drop (i * 72) ?b)" for a c
    by (simp add: bslice_def add.commute)
  have "bslice (i * 72 + 0) (i * 72 + 32) ?b = take 32 k" "bslice (i * 72 + 32) (i * 72 + 40) ?b = drop 32 k"
    "bslice (i * 72 + 40) (i * 72 + 72) ?b = v"
    unfolding s d using l by (simp_all add: bslice_def)
  then show ?thesis using e l by (simp add: decode_entry_def Let_def)
qed

lemma decode_entries:
  assumes "\<forall>(k, v) \<in> set es. length k = 40 \<and> length v = 32"
  shows "map (decode_entry (concat (map encode_entry es))) [0..<length es] = es"
  by (rule nth_equalityI) (simp_all add: decode_entry_nth [OF assms])

lemma decode_entry_wf:
  "length body = n * 72 \<Longrightarrow> i < n \<Longrightarrow> (case decode_entry body i of (k, v) \<Rightarrow> length k = 40 \<and> length v = 32)"
  by (simp add: decode_entry_def Let_def)

lemma decode_entries_wf:
  assumes "length body = n * 72"
  shows "\<forall>(k, v) \<in> set (map (decode_entry body) [0..<n]). length k = 40 \<and> length v = 32"
  using decode_entry_wf [OF assms] by auto

section \<open>Round trip\<close>

definition wf_blob :: "parsed_ratchet_blob \<Rightarrow> bool" where
  "wf_blob p \<longleftrightarrow> length (pb_rk p) = 32 \<and> length (pb_cks p) = 32 \<and> length (pb_ckr p) = 32
     \<and> length (pb_dh_ratchet_sk p) = 32 \<and> length (pb_dh_ratchet_pk p) = 32
     \<and> length (pb_peer_ratchet_pub p) = 32 \<and> skipped_inv (pb_skipped p)"

definition blob_encode :: "parsed_ratchet_blob \<Rightarrow> bytes" where
  "blob_encode p = encode_blob_v2 (pb_role p) (pb_rk p) (pb_cks p) (pb_ckr p) (pb_dh_ratchet_sk p)
     (pb_dh_ratchet_pk p) (pb_peer_ratchet_pub p) (pb_send_count_be p) (pb_recv_high_water_be p)
     (pb_send_sym_idx_be p) (pb_recv_sym_idx_be p) (pb_skipped p)"

lemma sorted_entries_wf:
  "skipped_inv m \<Longrightarrow> (\<forall>(k, v) \<in> set (encode_sorted_entries m). length k = 40 \<and> length v = 32)
     \<and> length (encode_sorted_entries m) = length m \<and> length m \<le> MAX_SKIP"
  by (auto simp: skipped_inv_def encode_sorted_entries_def)

lemma length_blob_encode [lens]:
  assumes "wf_blob p" shows "length (blob_encode p) = 230 + 72 * length (pb_skipped p)"
proof -
  let ?es = "encode_sorted_entries (pb_skipped p)"
  from assms have "\<forall>e \<in> set ?es. length (encode_entry e) = 72"
    using sorted_entries_wf [of "pb_skipped p"] by (fastforce simp: wf_blob_def encode_entry_def)
  then have "length (concat (map encode_entry ?es)) = length ?es * 72" by (rule length_concat_entries)
  with assms show ?thesis
    using sorted_entries_wf [of "pb_skipped p"]
    by (simp add: blob_encode_def encode_blob_v2_def wf_blob_def Let_def)
qed

lemma decode_blob_encode:
  assumes "wf_blob p"
  obtains m where "decode_blob_v2 (blob_encode p) = Ok (p\<lparr>pb_skipped := m\<rparr>)"
    "map_of m = map_of (pb_skipped p)" "skipped_inv m" "length m = length (pb_skipped p)"
    "encode_sorted_entries m = encode_sorted_entries (pb_skipped p)"
proof -
  let ?es = "encode_sorted_entries (pb_skipped p)" and ?b = "blob_encode p"
  let ?body = "concat (map encode_entry ?es)"
  have inv: "skipped_inv (pb_skipped p)" using assms by (simp add: wf_blob_def)
  obtain m where m: "restore_sorted_entries ?es = Ok m" "map_of m = map_of (pb_skipped p)" "skipped_inv m"
    "length m = length (pb_skipped p)" "encode_sorted_entries m = ?es"
    by (rule restore_encode [OF inv])
  have es: "map (decode_entry ?body) [0..<length ?es] = ?es" "length ?es \<le> 2000"
    using decode_entries [of ?es] sorted_entries_wf [OF inv] by (blast, simp add: MAX_SKIP_def)
  have lb: "length ?b = 230 + length ?es * 72" using length_blob_encode [OF assms] sorted_entries_wf [OF inv] by simp
  have body: "drop 230 ?b = ?body" and cnt: "unat (from_be_bytes (bslice 226 230 ?b) :: u32) = length ?es"
    using assms es(2)
    by (simp_all add: blob_encode_def encode_blob_v2_def Let_def wf_blob_def bslice_fields unat_of_nat)
  have lbody: "length ?body = length ?es * 72" using lb by (simp flip: body)
  have hd: "?b ! 0 = 2" "?b ! 1 = role_flag (pb_role p)"
    by (simp_all add: blob_encode_def encode_blob_v2_def Let_def)
  have fields: "bslice 2 34 ?b = pb_rk p" "bslice 34 66 ?b = pb_cks p" "bslice 66 98 ?b = pb_ckr p"
    "bslice 98 130 ?b = pb_dh_ratchet_sk p" "bslice 130 162 ?b = pb_dh_ratchet_pk p"
    "bslice 162 194 ?b = pb_peer_ratchet_pub p" "bslice 194 202 ?b = to_be_bytes (pb_send_count_be p)"
    "bslice 202 210 ?b = to_be_bytes (pb_recv_high_water_be p)"
    "bslice 210 218 ?b = to_be_bytes (pb_send_sym_idx_be p)"
    "bslice 218 226 ?b = to_be_bytes (pb_recv_sym_idx_be p)"
    using assms by (simp_all add: blob_encode_def encode_blob_v2_def Let_def wf_blob_def bslice_fields)
  have "decode_blob_v2 ?b = Ok (p\<lparr>pb_skipped := m\<rparr>)"
    unfolding decode_blob_v2_def body cnt hd fields Let_def es(1)
    using lb lbody m(1) by (simp add: BLOB_V2_PREFIX_LEN_def)
  then show thesis using m by (intro that [of m])
qed

lemma decode_blob_wf:
  assumes "decode_blob_v2 b = Ok p"
  shows "wf_blob p"
proof -
  let ?n = "unat (from_be_bytes (bslice 226 230 b) :: u32)"
  have l: "230 \<le> length b" and n: "length (drop 230 b) = ?n * 72"
    using assms by (simp_all add: decode_blob_v2_def Let_def BLOB_V2_PREFIX_LEN_def split: if_split_asm)
  obtain role m where r: "restore_sorted_entries (map (decode_entry (drop 230 b)) [0..<?n]) = Ok m"
    and p: "p = \<lparr>pb_role = role, pb_rk = bslice 2 34 b, pb_cks = bslice 34 66 b, pb_ckr = bslice 66 98 b,
                   pb_dh_ratchet_sk = bslice 98 130 b, pb_dh_ratchet_pk = bslice 130 162 b,
                   pb_peer_ratchet_pub = bslice 162 194 b,
                   pb_send_count_be = from_be_bytes (bslice 194 202 b),
                   pb_recv_high_water_be = from_be_bytes (bslice 202 210 b),
                   pb_send_sym_idx_be = from_be_bytes (bslice 210 218 b),
                   pb_recv_sym_idx_be = from_be_bytes (bslice 218 226 b), pb_skipped = m\<rparr>"
    using assms by (simp add: decode_blob_v2_def Let_def split: if_split_asm) blast
  have "skipped_inv m"
    by (rule restore_loop_inv [OF r [unfolded restore_sorted_entries_def] skipped_inv_new decode_entries_wf [OF n]])
  with l show ?thesis by (simp add: wf_blob_def p)
qed

end
