(* ===== verification/Session.thy ===== *)
theory Session
  imports Handshake Ratchet_Blob
begin

text \<open>
  \<^verbatim>\<open>crates/libgary-core/src/engine/session.rs\<close>: the Double Ratchet session.  The struct is the record
  \<open>session\<close> (\<open>Zeroizing\<close> wrappers are transparent, a \<open>StaticSecret\<close> is its 32 bytes, the
  \<open>HashSet\<close> of decrypted counters is a set).  Every \<open>&mut self\<close> method returns its result with
  the session it leaves behind, so that what an early return has already changed is visible;
  methods that draw randomness also thread the generator.  \<open>u64\<close> and \<open>usize\<close> arithmetic that the
  source leaves unchecked wraps, as in a release build.
\<close>

section \<open>State\<close>

record session =
  session_id :: bytes
  epoch :: u32
  mode :: SessionMode
  okm :: bytes
  root_key :: bytes
  send_ck :: bytes
  recv_ck :: bytes
  send_wire_counter :: u64
  recv_high_water :: "u64 option"
  send_sym_idx :: u64
  recv_sym_idx :: u64
  ratchet_sk :: bytes
  my_ratchet_pub :: bytes
  peer_ratchet_pub :: "bytes option"
  skipped :: skipped_key_cache
  role :: Role
  anchor :: device_state_anchor
  decrypted_counters :: "u64 set"

record session_export =
  ratchet_blob :: bytes
  exp_okm :: bytes
  exp_anchor :: device_state_anchor
  exp_session_id :: bytes
  exp_epoch :: u32

datatype InboundInner = Data bytes | RekeyPlain bytes

definition RECV_HIGH_WATER_NONE_SENTINEL :: u64 where "RECV_HIGH_WATER_NONE_SENTINEL = - 1"

definition random_static_secret :: "'r crypto \<Rightarrow> 'r \<Rightarrow> bytes \<times> 'r" where
  "random_static_secret C r = fill_bytes C r 32"

section \<open>Bootstrap\<close>

definition bootstrap_initiator ::
  "'r crypto \<Rightarrow> bytes \<Rightarrow> bytes \<Rightarrow> u32 \<Rightarrow> bytes \<Rightarrow> bytes option \<Rightarrow> device_state_anchor \<Rightarrow> session" where
  "bootstrap_initiator C k sid e sk peer anc =
     (let boot = bslice 32 64 k; (cks, ckr) = chain_bootstrap C boot in
      \<lparr>session_id = sid, epoch = e, mode = Active e, okm = k, root_key = take 32 k,
       send_ck = cks, recv_ck = ckr, send_wire_counter = 0, recv_high_water = None,
       send_sym_idx = 0, recv_sym_idx = 0, ratchet_sk = sk, my_ratchet_pub = x25519_public C sk,
       peer_ratchet_pub = peer, skipped = skipped_new, role = Initiator, anchor = anc,
       decrypted_counters = {}\<rparr>)"

definition bootstrap_responder ::
  "'r crypto \<Rightarrow> bytes \<Rightarrow> bytes \<Rightarrow> u32 \<Rightarrow> bytes \<Rightarrow> bytes option \<Rightarrow> device_state_anchor \<Rightarrow> session" where
  "bootstrap_responder C k sid e sk peer anc =
     (let boot = bslice 32 64 k; (cks, ckr) = chain_bootstrap C boot in
      \<lparr>session_id = sid, epoch = e, mode = Active e, okm = k, root_key = take 32 k,
       send_ck = ckr, recv_ck = cks, send_wire_counter = 0, recv_high_water = None,
       send_sym_idx = 0, recv_sym_idx = 0, ratchet_sk = sk, my_ratchet_pub = x25519_public C sk,
       peer_ratchet_pub = peer, skipped = skipped_new, role = Responder, anchor = anc,
       decrypted_counters = {}\<rparr>)"

section \<open>Reset modes and the epoch policy\<close>

definition enter_reset_pending_after_rebootstrap ::
  "session \<Rightarrow> u32 \<Rightarrow> u64 option \<Rightarrow> (SessionError + unit) \<times> session" where
  "enter_reset_pending_after_rebootstrap s prior drain =
     (case checked_add prior 1 of
        None \<Rightarrow> (Err InvalidHeader, s)
      | Some expected \<Rightarrow>
          if epoch s \<noteq> expected then (Err InvalidHeader, s)
          else (Ok (), s\<lparr>mode := ResetPending prior (epoch s) drain\<rparr>))"

definition reset_pending_to_bootstrapping :: "session \<Rightarrow> (SessionError + unit) \<times> session" where
  "reset_pending_to_bootstrapping s =
     (case mode s of
        ResetPending _ n _ \<Rightarrow>
          if n = epoch s then (Ok (), s\<lparr>mode := Bootstrapping (epoch s)\<rparr>) else (Err InvalidHeader, s)
      | _ \<Rightarrow> (Err InvalidHeader, s))"

definition finish_reset_half_open_to_active :: "session \<Rightarrow> (SessionError + unit) \<times> session" where
  "finish_reset_half_open_to_active s =
     (case mode s of
        ResetPending _ n _ \<Rightarrow>
          if n = epoch s then (Ok (), s\<lparr>mode := Active (epoch s)\<rparr>) else (Err InvalidHeader, s)
      | Bootstrapping e \<Rightarrow>
          if e = epoch s then (Ok (), s\<lparr>mode := Active (epoch s)\<rparr>) else (Err InvalidHeader, s)
      | Active _ \<Rightarrow> (Err InvalidHeader, s))"

definition enter_bootstrapping_for_epoch :: "session \<Rightarrow> u32 \<Rightarrow> (SessionError + unit) \<times> session" where
  "enter_bootstrapping_for_epoch s e =
     (if e \<noteq> epoch s then (Err InvalidHeader, s) else (Ok (), s\<lparr>mode := Bootstrapping e\<rparr>))"

definition maybe_expire_reset_pending :: "session \<Rightarrow> u64 \<Rightarrow> session" where
  "maybe_expire_reset_pending s now =
     (let expire = (case mode s of ResetPending _ _ (Some limit) \<Rightarrow> now > limit | _ \<Rightarrow> False)
      in if expire then s\<lparr>mode := Active (epoch s)\<rparr> else s)"

definition check_inbound_epoch_policy :: "session \<Rightarrow> header \<Rightarrow> SessionError + unit" where
  "check_inbound_epoch_policy s h =
     (let e = epoch_be h in
      if e > saturating_add (epoch s) 1 then Err FutureEpoch
      else if (case mode s of ResetPending old _ _ \<Rightarrow> hdr_typ h = 0x03 \<and> e = old | _ \<Rightarrow> False)
        then Err LateDataAfterReset
      else if e < epoch s then Err StaleEpochRejected
      else if e \<noteq> epoch s then Err StaleEpochRejected
      else Ok ())"

section \<open>Chain steps and the replay window\<close>

definition send_step_mk :: "'r crypto \<Rightarrow> session \<Rightarrow> (SessionError + bytes) \<times> session" where
  "send_step_mk C s =
     (let (mk, ck2) = msg_step C (send_ck s) (send_sym_idx s); s1 = s\<lparr>send_ck := ck2\<rparr> in
      case checked_add (send_sym_idx s) 1 of
        None \<Rightarrow> (Err ReplayRejected, s1)
      | Some i \<Rightarrow> (Ok mk, s1\<lparr>send_sym_idx := i\<rparr>))"

definition recv_step_mk :: "'r crypto \<Rightarrow> session \<Rightarrow> (SessionError + bytes) \<times> session" where
  "recv_step_mk C s =
     (let (mk, ck2) = msg_step C (recv_ck s) (recv_sym_idx s); s1 = s\<lparr>recv_ck := ck2\<rparr> in
      case checked_add (recv_sym_idx s) 1 of
        None \<Rightarrow> (Err ReplayRejected, s1)
      | Some i \<Rightarrow> (Ok mk, s1\<lparr>recv_sym_idx := i\<rparr>))"

text \<open>The loop \<open>for cnt in base..target\<close>, with \<open>n\<close> iterations left.\<close>

primrec fill_loop :: "'r crypto \<Rightarrow> bytes \<Rightarrow> nat \<Rightarrow> u64 \<Rightarrow> session \<Rightarrow> (SessionError + unit) \<times> session" where
  "fill_loop C pub 0 cnt s = (Ok (), s)"
| "fill_loop C pub (Suc n) cnt s =
     (case recv_step_mk C s of
        (Inl e, s1) \<Rightarrow> (Err e, s1)
      | (Inr mk, s1) \<Rightarrow>
          (case skipped_insert (skipped s1) pub cnt mk of
             (Inl e, m) \<Rightarrow> (Err e, s1\<lparr>skipped := m\<rparr>)
           | (Inr _, m) \<Rightarrow> fill_loop C pub n (cnt + 1) (s1\<lparr>skipped := m\<rparr>)))"

definition fill_recv_gap_to_counter ::
  "'r crypto \<Rightarrow> session \<Rightarrow> bytes \<Rightarrow> u64 \<Rightarrow> u64 \<Rightarrow> (SessionError + unit) \<times> session" where
  "fill_recv_gap_to_counter C s pub base target =
     (if base \<ge> target then (Ok (), s)
      else let additional_skips = target - base in
        if (of_nat (skipped_len (skipped s)) :: u64) + additional_skips > of_nat MAX_SKIP
        then (Err MaxSkipExceeded, s)
        else fill_loop C pub (unat (target - base)) base s)"

definition replay_precheck :: "session \<Rightarrow> u64 \<Rightarrow> SessionError + unit" where
  "replay_precheck s c =
     (if c \<in> decrypted_counters s then Err ReplayRejected
      else case recv_high_water s of
        Some hw \<Rightarrow> if c < saturating_sub hw (of_nat MAX_SKIP) then Err ReplayRejected else Ok ()
      | None \<Rightarrow> Ok ())"

definition prune_decrypted_cache :: "session \<Rightarrow> session" where
  "prune_decrypted_cache s =
     (case recv_high_water s of
        None \<Rightarrow> s
      | Some hw \<Rightarrow>
          let floor = saturating_sub hw (of_nat MAX_SKIP)
          in s\<lparr>decrypted_counters := Set.filter (\<lambda>x. x \<ge> floor) (decrypted_counters s)\<rparr>)"

text \<open>The block both decrypt paths end with: remember \<open>c\<close>, raise the high water mark, prune, and
  raise the anchor's highest seen counter.\<close>

definition mark_received :: "session \<Rightarrow> u64 \<Rightarrow> session" where
  "mark_received s c =
     (let s1 = s\<lparr>decrypted_counters := insert c (decrypted_counters s)\<rparr>;
          s2 = s1\<lparr>recv_high_water := Some (case recv_high_water s1 of Some h \<Rightarrow> max h c | None \<Rightarrow> c)\<rparr>;
          s3 = prune_decrypted_cache s2
      in s3\<lparr>anchor := (anchor s3)\<lparr>highest_wire_seen_be := max (highest_wire_seen_be (anchor s3)) c\<rparr>\<rparr>)"

text \<open>The block all four send paths end with: take the next wire counter and raise the anchor.\<close>

definition advance_wire_counter :: "session \<Rightarrow> (SessionError + unit) \<times> session" where
  "advance_wire_counter s =
     (let ctr = send_wire_counter s in
      case checked_add ctr 1 of
        None \<Rightarrow> (Err ReplayRejected, s)
      | Some n \<Rightarrow>
          let s1 = s\<lparr>send_wire_counter := n\<rparr>
          in (Ok (), s1\<lparr>anchor := (anchor s1)\<lparr>highest_wire_seen_be :=
                max (highest_wire_seen_be (anchor s1)) ctr\<rparr>\<rparr>))"

section \<open>DH ratchet\<close>

definition apply_inbound_dh_ratchet ::
  "'r crypto \<Rightarrow> session \<Rightarrow> bytes \<Rightarrow> 'r \<Rightarrow> (SessionError + unit) \<times> session \<times> 'r" where
  "apply_inbound_dh_ratchet C s p_new r =
     (let dh_bytes = x25519 C (ratchet_sk s) p_new;
          (rk_new, mix_a, mix_b) = dh_mix C (root_key s) dh_bytes;
          s1 = s\<lparr>root_key := rk_new\<rparr>;
          s2 = (case role s1 of
                  Initiator \<Rightarrow> s1\<lparr>send_ck := mix_a, recv_ck := mix_b\<rparr>
                | Responder \<Rightarrow> s1\<lparr>send_ck := mix_b, recv_ck := mix_a\<rparr>);
          s3 = s2\<lparr>send_sym_idx := 0, recv_sym_idx := 0, peer_ratchet_pub := Some p_new\<rparr>;
          (new_sk, r') = random_static_secret C r
      in (Ok (), s3\<lparr>ratchet_sk := new_sk, my_ratchet_pub := x25519_public C new_sk\<rparr>, r'))"

definition dh_ratchet ::
  "'r crypto \<Rightarrow> session \<Rightarrow> bytes \<Rightarrow> 'r \<Rightarrow> (SessionError + unit) \<times> session \<times> 'r" where
  "dh_ratchet C s new_peer_pub r = apply_inbound_dh_ratchet C s new_peer_pub r"

definition bind_or_dh_ratchet ::
  "'r crypto \<Rightarrow> session \<Rightarrow> bytes \<Rightarrow> 'r \<Rightarrow> (SessionError + unit) \<times> session \<times> 'r" where
  "bind_or_dh_ratchet C s sender_pub r =
     (case peer_ratchet_pub s of
        None \<Rightarrow> (Ok (), s\<lparr>peer_ratchet_pub := Some sender_pub\<rparr>, r)
      | Some p \<Rightarrow> if p = sender_pub then (Ok (), s, r) else apply_inbound_dh_ratchet C s sender_pub r)"

section \<open>Sending\<close>

definition next_header :: "session \<Rightarrow> byte \<Rightarrow> header" where
  "next_header s ty =
     \<lparr>version = 1, hdr_typ = ty, flags = 0, epoch_be = epoch s, hdr_session_id = session_id s,
      counter_be = send_wire_counter s, ratchet_pub = my_ratchet_pub s\<rparr>"

definition encrypt_data_plain512 ::
  "'r crypto \<Rightarrow> session \<Rightarrow> bytes \<Rightarrow> (SessionError + header \<times> bytes) \<times> session" where
  "encrypt_data_plain512 C s plaintext512 =
     (case send_step_mk C s of
        (Inl e, s1) \<Rightarrow> (Err e, s1)
      | (Inr mk, s1) \<Rightarrow>
          let h = next_header s1 0x03 in
          (case encrypt_data_payload C mk h plaintext512 of
             Inl _ \<Rightarrow> (Err DecryptionFailed, s1)
           | Inr ct \<Rightarrow>
               (case advance_wire_counter s1 of
                  (Inl e, s2) \<Rightarrow> (Err e, s2)
                | (Inr _, s2) \<Rightarrow> (Ok (h, ct), s2))))"

definition encrypt_rekey_ctrl ::
  "'r crypto \<Rightarrow> session \<Rightarrow> bytes \<Rightarrow> (SessionError + header \<times> bytes) \<times> session" where
  "encrypt_rekey_ctrl C s body4 =
     (case ctrl_inner_padded256 C body4 of
        Inl _ \<Rightarrow> (Err InvalidHeader, s)
      | Inr plain \<Rightarrow>
          let h = next_header s 0x05 in
          (case encrypt_ctrl_payload C (okm s) h plain of
             Inl _ \<Rightarrow> (Err DecryptionFailed, s)
           | Inr ct \<Rightarrow>
               (case advance_wire_counter s of
                  (Inl e, s1) \<Rightarrow> (Err e, s1)
                | (Inr _, s1) \<Rightarrow> (Ok (h, ct), s1))))"

definition encrypt_data_plain512_outer ::
  "'r crypto \<Rightarrow> session \<Rightarrow> bytes \<Rightarrow> 'r \<Rightarrow> (SessionError + header \<times> bytes) \<times> session \<times> 'r" where
  "encrypt_data_plain512_outer C s plaintext512 r =
     (case send_step_mk C s of
        (Inl e, s1) \<Rightarrow> (Err e, s1, r)
      | (Inr mk, s1) \<Rightarrow>
          let h = next_header s1 0x03 in
          (case encrypt_data_payload C mk h plaintext512 of
             Inl _ \<Rightarrow> (Err DecryptionFailed, s1, r)
           | Inr ct \<Rightarrow>
               let logical = nonce_data C mk h @ ct in
               (case advance_wire_counter s1 of
                  (Inl e, s2) \<Rightarrow> (Err e, s2, r)
                | (Inr _, s2) \<Rightarrow>
                    let (p, r') = pad_outer (fill_bytes C) logical r
                    in (map_ok (\<lambda>pl. (h, pl)) (map_err (\<lambda>_. InvalidHeader) p), s2, r'))))"

definition encrypt_rekey_ctrl_outer ::
  "'r crypto \<Rightarrow> session \<Rightarrow> bytes \<Rightarrow> 'r \<Rightarrow> (SessionError + header \<times> bytes) \<times> session \<times> 'r" where
  "encrypt_rekey_ctrl_outer C s body4 r =
     (case ctrl_inner_padded256 C body4 of
        Inl _ \<Rightarrow> (Err InvalidHeader, s, r)
      | Inr plain \<Rightarrow>
          let h = next_header s 0x05 in
          (case encrypt_ctrl_payload C (okm s) h plain of
             Inl _ \<Rightarrow> (Err DecryptionFailed, s, r)
           | Inr ct \<Rightarrow>
               let nonce = nonce_ctrl C (okm s) (hdr_typ h) (epoch_be h) (counter_be h) (hdr_session_id h);
                   logical = nonce @ ct in
               (case advance_wire_counter s of
                  (Inl e, s1) \<Rightarrow> (Err e, s1, r)
                | (Inr _, s1) \<Rightarrow>
                    let (p, r') = pad_outer (fill_bytes C) logical r
                    in (map_ok (\<lambda>pl. (h, pl)) (map_err (\<lambda>_. InvalidHeader) p), s1, r'))))"

section \<open>Receiving\<close>

text \<open>The selection of the message key in \<open>decrypt_data\<close>: from the skipped cache, or by stepping the
  receive chain up to the counter (\<open>gap_then_step\<close>, the two calls both branches make).\<close>

definition gap_then_step ::
  "'r crypto \<Rightarrow> session \<Rightarrow> bytes \<Rightarrow> u64 \<Rightarrow> u64 \<Rightarrow> (SessionError + bytes) \<times> session" where
  "gap_then_step C s sender_pub base c =
     (case fill_recv_gap_to_counter C s sender_pub base c of
        (Inl e, s1) \<Rightarrow> (Err e, s1)
      | (Inr _, s1) \<Rightarrow> recv_step_mk C s1)"

definition receive_key :: "'r crypto \<Rightarrow> session \<Rightarrow> bytes \<Rightarrow> u64 \<Rightarrow> (SessionError + bytes) \<times> session" where
  "receive_key C s sender_pub c =
     (case skipped_take (skipped s) sender_pub c of
        (Some mk, m) \<Rightarrow> (Ok mk, s\<lparr>skipped := m\<rparr>)
      | (None, _) \<Rightarrow>
          (case recv_high_water s of
             Some hw \<Rightarrow>
               if c \<le> hw then (Err ReplayRejected, s)
               else gap_then_step C s sender_pub (saturating_add hw 1) c
           | None \<Rightarrow> gap_then_step C s sender_pub 0 c))"

definition decrypt_data ::
  "'r crypto \<Rightarrow> session \<Rightarrow> header \<Rightarrow> bytes \<Rightarrow> 'r \<Rightarrow> (SessionError + bytes) \<times> session \<times> 'r" where
  "decrypt_data C s h ciphertext r =
     (if version h \<noteq> 1 \<or> hdr_typ h \<noteq> 0x03 then (Err InvalidHeader, s, r)
      else if hdr_session_id h \<noteq> session_id s \<or> epoch_be h \<noteq> epoch s then (Err StaleEpochRejected, s, r)
      else let c = counter_be h in
        (case replay_precheck s c of
           Inl e \<Rightarrow> (Err e, s, r)
         | Inr _ \<Rightarrow>
             (case bind_or_dh_ratchet C s (ratchet_pub h) r of
                (Inl e, s1, r1) \<Rightarrow> (Err e, s1, r1)
              | (Inr _, s1, r1) \<Rightarrow>
                  (case receive_key C s1 (ratchet_pub h) c of
                     (Inl e, s2) \<Rightarrow> (Err e, s2, r1)
                   | (Inr mk, s2) \<Rightarrow>
                       (case xdecrypt C mk (nonce_data C mk h) ciphertext (header_encode h) of
                          Inl _ \<Rightarrow> (Err DecryptionFailed, s2, r1)
                        | Inr pt \<Rightarrow>
                            (case try_into_array InvalidHeader DATA_INNER_FIXED pt of
                               Inl e \<Rightarrow> (Err e, s2, r1)
                             | Inr pt_arr \<Rightarrow> (Ok pt_arr, mark_received s2 c, r1)))))))"

definition DATA_LOGICAL :: nat where "DATA_LOGICAL = 24 + DATA_INNER_FIXED + 16"
definition CTRL_LOGICAL :: nat where "CTRL_LOGICAL = 24 + 256 + 16"

definition decrypt_data_outer ::
  "'r crypto \<Rightarrow> session \<Rightarrow> header \<Rightarrow> bytes \<Rightarrow> 'r \<Rightarrow> (SessionError + bytes) \<times> session \<times> 'r" where
  "decrypt_data_outer C s h padded_logical r =
     (case strip_outer_pad padded_logical DATA_LOGICAL of
        Inl _ \<Rightarrow> (Err InvalidHeader, s, r)
      | Inr logical \<Rightarrow> decrypt_data C s h (drop 24 logical) r)"

definition decrypt_rekey_ctrl_outer ::
  "'r crypto \<Rightarrow> session \<Rightarrow> header \<Rightarrow> bytes \<Rightarrow> 'r \<Rightarrow> (SessionError + bytes) \<times> session \<times> 'r" where
  "decrypt_rekey_ctrl_outer C s h padded_logical r =
     (if version h \<noteq> 1 \<or> hdr_typ h \<noteq> 0x05 then (Err InvalidHeader, s, r)
      else if hdr_session_id h \<noteq> session_id s \<or> epoch_be h \<noteq> epoch s then (Err StaleEpochRejected, s, r)
      else let c = counter_be h in
        (case replay_precheck s c of
           Inl e \<Rightarrow> (Err e, s, r)
         | Inr _ \<Rightarrow>
             (case bind_or_dh_ratchet C s (ratchet_pub h) r of
                (Inl e, s1, r1) \<Rightarrow> (Err e, s1, r1)
              | (Inr _, s1, r1) \<Rightarrow>
                  (case strip_outer_pad padded_logical CTRL_LOGICAL of
                     Inl _ \<Rightarrow> (Err InvalidHeader, s1, r1)
                   | Inr logical \<Rightarrow>
                       (case decrypt_ctrl_payload C (okm s1) h (drop 24 logical) of
                          Inl _ \<Rightarrow> (Err DecryptionFailed, s1, r1)
                        | Inr pt \<Rightarrow> (Ok pt, mark_received s1 c, r1))))))"

definition handle_inbound_outer ::
  "'r crypto \<Rightarrow> session \<Rightarrow> outer_record \<Rightarrow> u64 \<Rightarrow> 'r \<Rightarrow> (SessionError + InboundInner) \<times> session \<times> 'r" where
  "handle_inbound_outer C s rec now_ticks r =
     (let s0 = maybe_expire_reset_pending s now_ticks; h = rec_header rec in
      case validate_v0 h of
        Inl _ \<Rightarrow> (Err InvalidHeader, s0, r)
      | Inr _ \<Rightarrow>
          if hdr_session_id h \<noteq> session_id s0 then (Err UnknownSession, s0, r)
          else (case check_inbound_epoch_policy s0 h of
                  Inl e \<Rightarrow> (Err e, s0, r)
                | Inr _ \<Rightarrow>
                    if hdr_typ h = 0x03 then
                      (case decrypt_data_outer C s0 h (payload rec) r of
                         (res, s1, r1) \<Rightarrow> (map_ok Data res, s1, r1))
                    else if hdr_typ h = 0x05 then
                      (case decrypt_rekey_ctrl_outer C s0 h (payload rec) r of
                         (res, s1, r1) \<Rightarrow> (map_ok RekeyPlain res, s1, r1))
                    else (Err InvalidHeader, s0, r)))"

section \<open>Teardown, commitment, export and import\<close>

definition reset_local :: "session \<Rightarrow> session" where
  "reset_local s =
     s\<lparr>okm := replicate 64 0, root_key := replicate 32 0, send_ck := replicate 32 0, recv_ck := replicate 32 0,
       skipped := skipped_clear (skipped s), decrypted_counters := {}, recv_high_water := None,
       send_wire_counter := 0, send_sym_idx := 0, recv_sym_idx := 0, peer_ratchet_pub := None,
       mode := Active (epoch s)\<rparr>"

definition session_reset :: "session \<Rightarrow> session" where
  "session_reset s = reset_local s"

definition peer_or_zero :: "session \<Rightarrow> bytes" where
  "peer_or_zero s = (case peer_ratchet_pub s of Some p \<Rightarrow> p | None \<Rightarrow> replicate 32 0)"

definition recv_hw_or_sentinel :: "session \<Rightarrow> u64" where
  "recv_hw_or_sentinel s = (case recv_high_water s of Some h \<Rightarrow> h | None \<Rightarrow> RECV_HIGH_WATER_NONE_SENTINEL)"

definition session_snapshot_preimage :: "session \<Rightarrow> bytes" where
  "session_snapshot_preimage s =
     session_id s @ to_be_bytes (epoch s) @ root_key s @ send_ck s @ recv_ck s @ my_ratchet_pub s
     @ peer_or_zero s @ to_be_bytes (send_wire_counter s) @ to_be_bytes (recv_hw_or_sentinel s)
     @ to_be_bytes (send_sym_idx s) @ to_be_bytes (recv_sym_idx s)"

definition recompute_anchor_commitment :: "'r crypto \<Rightarrow> session \<Rightarrow> session" where
  "recompute_anchor_commitment C s =
     s\<lparr>anchor := (anchor s)\<lparr>state_commitment :=
       compute_state_commitment C (session_snapshot_preimage s) (global_epoch_be (anchor s))\<rparr>\<rparr>"

definition verify_anchor_commitment :: "'r crypto \<Rightarrow> session \<Rightarrow> bool" where
  "verify_anchor_commitment C s \<longleftrightarrow>
     compute_state_commitment C (session_snapshot_preimage s) (global_epoch_be (anchor s))
       = state_commitment (anchor s)"

definition export_state :: "session \<Rightarrow> session_export" where
  "export_state s =
     \<lparr>ratchet_blob = encode_blob_v2 (role s) (root_key s) (send_ck s) (recv_ck s) (ratchet_sk s)
        (my_ratchet_pub s) (peer_or_zero s) (send_wire_counter s) (recv_hw_or_sentinel s)
        (send_sym_idx s) (recv_sym_idx s) (skipped s),
      exp_okm = okm s, exp_anchor = anchor s, exp_session_id = session_id s, exp_epoch = epoch s\<rparr>"

definition persistence_equivalence_digest :: "'r crypto \<Rightarrow> session \<Rightarrow> bytes" where
  "persistence_equivalence_digest C s =
     (let x = export_state s in
      sha256 C (ascii ''libgary.session.persistence-equiv.v0'' @ to_be_bytes (exp_epoch x)
        @ exp_session_id x @ exp_okm x @ to_be_bytes (of_nat (length (ratchet_blob x)) :: u64)
        @ ratchet_blob x @ anchor_encode (exp_anchor x)))"

definition import_state :: "session_export \<Rightarrow> SessionError + session" where
  "import_state x =
     result_bind (decode_blob_v2 (ratchet_blob x)) (\<lambda>p.
       Ok \<lparr>session_id = exp_session_id x, epoch = exp_epoch x, mode = Active (exp_epoch x),
           okm = exp_okm x, root_key = pb_rk p, send_ck = pb_cks p, recv_ck = pb_ckr p,
           send_wire_counter = pb_send_count_be p,
           recv_high_water = (if pb_recv_high_water_be p = RECV_HIGH_WATER_NONE_SENTINEL then None
                              else Some (pb_recv_high_water_be p)),
           send_sym_idx = pb_send_sym_idx_be p, recv_sym_idx = pb_recv_sym_idx_be p,
           ratchet_sk = pb_dh_ratchet_sk p, my_ratchet_pub = pb_dh_ratchet_pk p,
           peer_ratchet_pub = (if pb_peer_ratchet_pub p = replicate 32 0 then None
                               else Some (pb_peer_ratchet_pub p)),
           skipped = pb_skipped p, role = pb_role p, anchor = exp_anchor x, decrypted_counters = {}\<rparr>)"

end
