(* ===== verification/Session_Invariant.thy ===== *)
theory Session_Invariant
  imports Session
begin

text \<open>
  Invariants of a session and the frame of each operation: what the receive and ratchet steps never
  touch, the replay window as an interface (\<open>replay_window\<close>), and that every operation keeps the
  session well formed, whatever its result.
\<close>

section \<open>Invariant\<close>

text \<open>Field lengths (the Rust types) and the bound on the skipped cache.\<close>

definition wf_session :: "session \<Rightarrow> bool" where
  "wf_session s \<longleftrightarrow> length (session_id s) = 16 \<and> length (okm s) = 64 \<and> length (root_key s) = 32
     \<and> length (send_ck s) = 32 \<and> length (recv_ck s) = 32 \<and> length (ratchet_sk s) = 32
     \<and> length (my_ratchet_pub s) = 32 \<and> (case peer_ratchet_pub s of None \<Rightarrow> True | Some p \<Rightarrow> length p = 32)
     \<and> skipped_inv (skipped s) \<and> wf_anchor (anchor s)"

text \<open>The mode carries the session's epoch; a pending reset comes from the epoch before it.\<close>

definition mode_ok :: "session \<Rightarrow> bool" where
  "mode_ok s \<longleftrightarrow> (case mode s of
     Active e \<Rightarrow> e = epoch s
   | ResetPending old new _ \<Rightarrow> new = epoch s \<and> unat (epoch s) = Suc (unat old)
   | Bootstrapping e \<Rightarrow> e = epoch s)"

text \<open>The remembered counters lie in the window below the high water mark.\<close>

definition window_ok :: "session \<Rightarrow> bool" where
  "window_ok s \<longleftrightarrow> (case recv_high_water s of
     None \<Rightarrow> decrypted_counters s = {}
   | Some hw \<Rightarrow> \<forall>c \<in> decrypted_counters s. saturating_sub hw (of_nat MAX_SKIP) \<le> c \<and> c \<le> hw)"

text \<open>The anchor has seen every counter that was sent or received.\<close>

definition anchor_covers :: "session \<Rightarrow> bool" where
  "anchor_covers s \<longleftrightarrow>
     (case recv_high_water s of None \<Rightarrow> True | Some hw \<Rightarrow> hw \<le> highest_wire_seen_be (anchor s))
     \<and> (0 < send_wire_counter s \<longrightarrow> send_wire_counter s - 1 \<le> highest_wire_seen_be (anchor s))"

definition session_inv :: "session \<Rightarrow> bool" where
  "session_inv s \<longleftrightarrow> wf_session s \<and> mode_ok s \<and> window_ok s \<and> anchor_covers s"

section \<open>Frames\<close>

text \<open>What the ratchet and the choice of a message key leave alone.\<close>

definition ratchet_frame :: "session \<Rightarrow> session \<Rightarrow> bool" where
  "ratchet_frame s s' \<longleftrightarrow> session_id s' = session_id s \<and> epoch s' = epoch s \<and> mode s' = mode s
     \<and> okm s' = okm s \<and> send_wire_counter s' = send_wire_counter s \<and> recv_high_water s' = recv_high_water s
     \<and> role s' = role s \<and> anchor s' = anchor s \<and> decrypted_counters s' = decrypted_counters s"

text \<open>What a step of the receive chain leaves alone: everything but the chain and the skipped cache.\<close>

definition chain_frame :: "session \<Rightarrow> session \<Rightarrow> bool" where
  "chain_frame s s' \<longleftrightarrow> s' = s\<lparr>recv_ck := recv_ck s', recv_sym_idx := recv_sym_idx s', skipped := skipped s'\<rparr>"

lemma ratchet_frame_refl [simp]: "ratchet_frame s s"
  by (simp add: ratchet_frame_def)

lemma ratchet_frame_trans: "ratchet_frame s t \<Longrightarrow> ratchet_frame t u \<Longrightarrow> ratchet_frame s u"
  by (simp add: ratchet_frame_def)

lemma chain_frame_refl [simp]: "chain_frame s s"
  by (simp add: chain_frame_def)

lemma chain_frame_trans: "chain_frame s t \<Longrightarrow> chain_frame t u \<Longrightarrow> chain_frame s u"
  unfolding chain_frame_def by (cases s; cases t; cases u) simp

lemma chain_frame_skipped: "chain_frame s t \<Longrightarrow> chain_frame s (t\<lparr>skipped := m\<rparr>)"
  unfolding chain_frame_def by (cases s; cases t) simp

lemma chain_frame_ratchet: "chain_frame s t \<Longrightarrow> ratchet_frame s t"
  unfolding chain_frame_def ratchet_frame_def by (cases s; cases t) simp

lemma recv_step_mk_frame: "chain_frame s (snd (recv_step_mk C s))"
  by (simp add: recv_step_mk_def Let_def chain_frame_def split: prod.splits option.splits)

lemma fill_loop_frame: "chain_frame s (snd (fill_loop C p n c s))"
proof (induction n arbitrary: c s)
  case (Suc n)
  obtain x s1 where st: "recv_step_mk C s = (x, s1)" by (cases "recv_step_mk C s")
  have f: "chain_frame s s1" using recv_step_mk_frame [of s C] st by simp
  have "chain_frame s (s1\<lparr>skipped := m\<rparr>)" "chain_frame s (snd (fill_loop C p n d (s1\<lparr>skipped := m\<rparr>)))" for m d
    using chain_frame_skipped [OF f] Suc by (blast intro: chain_frame_trans)+
  with f st show ?case by (simp split: sum.splits prod.splits)
qed simp

lemma fill_recv_gap_frame: "chain_frame s (snd (fill_recv_gap_to_counter C s p b t))"
  by (simp add: fill_recv_gap_to_counter_def Let_def fill_loop_frame)

lemma gap_then_step_frame: "chain_frame s (snd (gap_then_step C s p b t))"
proof -
  obtain x s1 where st: "fill_recv_gap_to_counter C s p b t = (x, s1)"
    by (cases "fill_recv_gap_to_counter C s p b t")
  then have "chain_frame s s1" using fill_recv_gap_frame [of s C p b t] by simp
  with chain_frame_trans [OF this recv_step_mk_frame [of s1 C]] show ?thesis
    by (simp add: gap_then_step_def st split: sum.splits)
qed

lemma receive_key_frame: "chain_frame s (snd (receive_key C s p c))"
  by (simp add: receive_key_def gap_then_step_frame chain_frame_skipped split: prod.splits option.splits)

lemma apply_inbound_dh_ratchet_frame:
  "apply_inbound_dh_ratchet C s p r = (res, s', r') \<Longrightarrow> res = Ok () \<and> ratchet_frame s s'"
  by (auto simp: apply_inbound_dh_ratchet_def Let_def ratchet_frame_def split: prod.splits Role.splits)

lemma bind_or_dh_ratchet_frame:
  "bind_or_dh_ratchet C s p r = (res, s', r') \<Longrightarrow> res = Ok () \<and> ratchet_frame s s'"
  using apply_inbound_dh_ratchet_frame [of C s p r res s' r']
  by (auto simp: bind_or_dh_ratchet_def ratchet_frame_def split: option.splits if_splits)

section \<open>Outcomes of the decrypt paths\<close>

text \<open>
  A decrypt either fails and leaves the frame alone, or succeeds: then the header was checked, the
  counter was admitted by the replay window, and the session is marked.
\<close>

definition received :: "session \<Rightarrow> header \<Rightarrow> byte \<Rightarrow> session \<Rightarrow> bool" where
  "received s h ty s' \<longleftrightarrow> version h = 1 \<and> hdr_typ h = ty \<and> hdr_session_id h = session_id s
     \<and> epoch_be h = epoch s \<and> replay_precheck s (counter_be h) = Ok ()
     \<and> (\<exists>s2. ratchet_frame s s2 \<and> s' = mark_received s2 (counter_be h))"

lemma decrypt_data_outcome:
  assumes "decrypt_data C s h ct r = (res, s', r')"
  shows "(\<exists>e. res = Err e \<and> ratchet_frame s s') \<or> (\<exists>pt. res = Ok pt \<and> length pt = 512 \<and> received s h 3 s')"
proof -
  obtain b s1 r1 where b: "bind_or_dh_ratchet C s (ratchet_pub h) r = (b, s1, r1)"
    by (cases "bind_or_dh_ratchet C s (ratchet_pub h) r")
  obtain k s2 where k: "receive_key C s1 (ratchet_pub h) (counter_be h) = (k, s2)"
    by (cases "receive_key C s1 (ratchet_pub h) (counter_be h)")
  have f1: "b = Ok ()" "ratchet_frame s s1" using bind_or_dh_ratchet_frame [OF b] by auto
  have "ratchet_frame s1 s2" using receive_key_frame [of s1 C] k chain_frame_ratchet by (metis snd_conv)
  with f1 have f2: "ratchet_frame s s2" by (blast intro: ratchet_frame_trans)
  show ?thesis using assms f1 f2 b k
    by (auto simp: decrypt_data_def received_def try_into_array_def DATA_INNER_FIXED_def Let_def
        split: if_splits sum.splits)
qed

lemma decrypt_data_outer_outcome:
  assumes "decrypt_data_outer C s h p r = (res, s', r')"
  shows "(\<exists>e. res = Err e \<and> ratchet_frame s s') \<or> (\<exists>pt. res = Ok pt \<and> length pt = 512 \<and> received s h 3 s')"
proof (cases "strip_outer_pad p DATA_LOGICAL")
  case (Inr l)
  with assms have "decrypt_data C s h (drop 24 l) r = (res, s', r')" by (simp add: decrypt_data_outer_def)
  then show ?thesis by (rule decrypt_data_outcome)
qed (use assms in \<open>auto simp: decrypt_data_outer_def\<close>)

lemma decrypt_rekey_outcome:
  assumes "decrypt_rekey_ctrl_outer C s h p r = (res, s', r')"
  shows "(\<exists>e. res = Err e \<and> ratchet_frame s s') \<or> (\<exists>pt. res = Ok pt \<and> length pt = 256 \<and> received s h 5 s')"
proof -
  obtain b s1 r1 where b: "bind_or_dh_ratchet C s (ratchet_pub h) r = (b, s1, r1)"
    by (cases "bind_or_dh_ratchet C s (ratchet_pub h) r")
  have f1: "b = Ok ()" "ratchet_frame s s1" using bind_or_dh_ratchet_frame [OF b] by auto
  show ?thesis using assms f1 b
    by (auto simp: decrypt_rekey_ctrl_outer_def received_def Let_def dest: decrypt_ctrl_length
        split: if_splits sum.splits)
qed

section \<open>The replay window\<close>

text \<open>
  What a receiver needs of its replay window: a noted counter is never admitted again, and noting
  another counter never re-admits one that was refused.
\<close>

locale replay_window =
  fixes admits :: "'w \<Rightarrow> u64 \<Rightarrow> bool"
    and note_ctr :: "'w \<Rightarrow> u64 \<Rightarrow> 'w"
  assumes noted: "\<not> admits (note_ctr w c) c"
    and refused: "\<not> admits w c \<Longrightarrow> \<not> admits (note_ctr w d) c"
begin

text \<open>If everything in \<open>S\<close> is refused, the next admitted counter is new and joins the refused ones.\<close>

lemma admit_fresh:
  assumes "\<forall>c \<in> S. \<not> admits w c" "admits w d"
  shows "d \<notin> S \<and> (\<forall>c \<in> insert d S. \<not> admits (note_ctr w d) c)"
  using assms noted refused by blast

lemma note_all_refused: "\<forall>c \<in> set cs. \<not> admits (fold (\<lambda>c w. note_ctr w c) cs w) c"
proof (induction cs rule: rev_induct)
  case (snoc c cs)
  then show ?case using noted refused by auto
qed simp

end

definition admits :: "session \<Rightarrow> u64 \<Rightarrow> bool" where
  "admits s c \<longleftrightarrow> replay_precheck s c = Ok ()"

lemma admits_iff:
  "admits s c \<longleftrightarrow> c \<notin> decrypted_counters s \<and>
     (case recv_high_water s of None \<Rightarrow> True | Some hw \<Rightarrow> saturating_sub hw (of_nat MAX_SKIP) \<le> c)"
  by (auto simp: admits_def replay_precheck_def split: option.splits)

lemma mark_received_simps [simp]:
  "recv_high_water (mark_received s c) = Some (case recv_high_water s of Some h \<Rightarrow> max h c | None \<Rightarrow> c)"
  "decrypted_counters (mark_received s c) =
     {x \<in> insert c (decrypted_counters s).
        saturating_sub (case recv_high_water s of Some h \<Rightarrow> max h c | None \<Rightarrow> c) (of_nat MAX_SKIP) \<le> x}"
  "session_id (mark_received s c) = session_id s" "epoch (mark_received s c) = epoch s"
  "mode (mark_received s c) = mode s" "okm (mark_received s c) = okm s"
  "root_key (mark_received s c) = root_key s" "send_ck (mark_received s c) = send_ck s"
  "recv_ck (mark_received s c) = recv_ck s" "send_wire_counter (mark_received s c) = send_wire_counter s"
  "send_sym_idx (mark_received s c) = send_sym_idx s" "recv_sym_idx (mark_received s c) = recv_sym_idx s"
  "ratchet_sk (mark_received s c) = ratchet_sk s" "my_ratchet_pub (mark_received s c) = my_ratchet_pub s"
  "peer_ratchet_pub (mark_received s c) = peer_ratchet_pub s" "skipped (mark_received s c) = skipped s"
  "role (mark_received s c) = role s"
  "anchor (mark_received s c) =
     (anchor s)\<lparr>highest_wire_seen_be := max (highest_wire_seen_be (anchor s)) c\<rparr>"
  by (simp_all add: mark_received_def prune_decrypted_cache_def Let_def)

lemma saturating_sub_mono: "a \<le> b \<Longrightarrow> saturating_sub a k \<le> saturating_sub b k"
  by (simp add: word_le_nat_alt unat_saturating_sub diff_le_mono)

lemma saturating_sub_le: "saturating_sub a k \<le> a"
  by (simp add: word_le_nat_alt unat_saturating_sub)

interpretation win: replay_window admits mark_received
proof
  fix s :: session and c d :: u64
  show "\<not> admits (mark_received s c) c" by (auto simp: admits_iff)
  assume "\<not> admits s c"
  then consider "c \<in> decrypted_counters s"
    | hw where "recv_high_water s = Some hw" "\<not> saturating_sub hw (of_nat MAX_SKIP) \<le> c"
    by (auto simp: admits_iff split: option.splits)
  then show "\<not> admits (mark_received s d) c"
  proof cases
    case 2
    then have "\<not> saturating_sub (max hw d) (of_nat MAX_SKIP) \<le> c"
      using saturating_sub_mono [of hw "max hw d"] by (meson max.cobounded1 order_trans)
    with 2 show ?thesis by (simp add: admits_iff)
  qed (auto simp: admits_iff)
qed

lemma admits_frame: "ratchet_frame s s' \<Longrightarrow> admits s' = admits s"
  by (auto simp: ratchet_frame_def admits_iff fun_eq_iff)

section \<open>Well-formedness is kept\<close>

lemma recv_step_mk_wf:
  assumes "crypto_lens C" "wf_session s"
  shows "wf_session (snd (recv_step_mk C s)) \<and> (\<forall>mk. fst (recv_step_mk C s) = Ok mk \<longrightarrow> length mk = 32)"
  using assms length_msg_step [OF assms(1), of "recv_ck s" "recv_sym_idx s"]
  by (auto simp: recv_step_mk_def wf_session_def Let_def split: prod.splits option.splits)

lemma send_step_mk_wf:
  assumes "crypto_lens C" "wf_session s"
  shows "wf_session (snd (send_step_mk C s)) \<and> (\<forall>mk. fst (send_step_mk C s) = Ok mk \<longrightarrow> length mk = 32)"
  using assms length_msg_step [OF assms(1), of "send_ck s" "send_sym_idx s"]
  by (auto simp: send_step_mk_def wf_session_def Let_def split: prod.splits option.splits)

lemma wf_session_skipped: "wf_session s \<Longrightarrow> skipped_inv m \<Longrightarrow> wf_session (s\<lparr>skipped := m\<rparr>)"
  by (simp add: wf_session_def)

lemma wf_session_skippedD: "wf_session s \<Longrightarrow> skipped_inv (skipped s)"
  by (simp add: wf_session_def)

lemma fill_loop_wf:
  assumes "crypto_lens C" "length p = 32" "wf_session s"
  shows "wf_session (snd (fill_loop C p n c s))"
  using assms(3)
proof (induction n arbitrary: c s)
  case (Suc n)
  obtain x s1 where st: "recv_step_mk C s = (x, s1)" by (cases "recv_step_mk C s")
  have s1: "wf_session s1" and mk: "\<And>mk. x = Ok mk \<Longrightarrow> length mk = 32"
    using recv_step_mk_wf [OF assms(1) Suc.prems] st by auto
  have ins: "wf_session (s1\<lparr>skipped := snd (skipped_insert (skipped s1) p c mk)\<rparr>)" if "x = Ok mk" for mk
    using s1 assms(2) mk [OF that] by (intro wf_session_skipped cache.put_inv wf_session_skippedD)
  show ?case
  proof (cases x)
    case (Inr mk)
    with ins Suc.IH st show ?thesis
      by (cases "skipped_insert (skipped s1) p c mk") (auto split: sum.splits)
  qed (simp add: st s1)
qed simp

lemma gap_then_step_wf:
  assumes "crypto_lens C" "length p = 32" "wf_session s"
  shows "wf_session (snd (gap_then_step C s p b t))
     \<and> (\<forall>mk. fst (gap_then_step C s p b t) = Ok mk \<longrightarrow> length mk = 32)"
proof -
  obtain x s1 where st: "fill_recv_gap_to_counter C s p b t = (x, s1)"
    by (cases "fill_recv_gap_to_counter C s p b t")
  then have "wf_session s1"
    using fill_loop_wf [OF assms, of "unat (t - b)" b] assms(3)
    by (auto simp: fill_recv_gap_to_counter_def Let_def split: if_splits)
  with recv_step_mk_wf [OF assms(1)] show ?thesis by (simp add: gap_then_step_def st split: sum.splits)
qed

lemma receive_key_wf:
  assumes "crypto_lens C" "length p = 32" "wf_session s"
  shows "wf_session (snd (receive_key C s p c)) \<and> (\<forall>mk. fst (receive_key C s p c) = Ok mk \<longrightarrow> length mk = 32)"
proof (cases "skipped_take (skipped s) p c")
  case (Pair v m)
  then have "skipped_inv m" "v = skipped_lookup (skipped s) p c"
    using cache.pull_inv [OF wf_session_skippedD [OF assms(3)]] cache.pull_val by (metis snd_conv, metis fst_conv)
  with Pair assms show ?thesis
    using gap_then_step_wf [OF assms] skipped_value_len [OF wf_session_skippedD [OF assms(3)], of p c]
    by (auto simp: receive_key_def wf_session_skipped split: option.splits)
qed

lemma apply_inbound_dh_ratchet_wf:
  assumes "crypto_lens C" "length p = 32" "wf_session s" "apply_inbound_dh_ratchet C s p r = (res, s', r')"
  shows "wf_session s'"
proof -
  obtain rk a b where m: "dh_mix C (root_key s) (x25519 C (ratchet_sk s) p) = (rk, a, b)"
    by (cases "dh_mix C (root_key s) (x25519 C (ratchet_sk s) p)")
  obtain sk r1 where fb: "fill_bytes C r 32 = (sk, r1)" by (cases "fill_bytes C r 32")
  then have "length sk = 32" using crypto_lensD(6) [OF assms(1), of r 32] by simp
  with assms length_dh_mix [OF assms(1) m] m fb show ?thesis
    by (auto simp: apply_inbound_dh_ratchet_def random_static_secret_def Let_def
        wf_session_def crypto_lensD split: Role.splits)
qed

lemma bind_or_dh_ratchet_wf:
  assumes "crypto_lens C" "length p = 32" "wf_session s" "bind_or_dh_ratchet C s p r = (res, s', r')"
  shows "wf_session s'"
proof (cases "peer_ratchet_pub s = None \<or> peer_ratchet_pub s = Some p")
  case True
  with assms show ?thesis by (auto simp: bind_or_dh_ratchet_def wf_session_def)
next
  case False
  then have "apply_inbound_dh_ratchet C s p r = (res, s', r')"
    using assms(4) by (auto simp: bind_or_dh_ratchet_def split: option.splits)
  then show ?thesis by (rule apply_inbound_dh_ratchet_wf [OF assms(1-3)])
qed

lemma mark_received_wf: "wf_session s \<Longrightarrow> wf_session (mark_received s c)"
  by (simp add: wf_session_def wf_anchor_def)

lemma decrypt_data_wf:
  assumes "crypto_lens C" "wf_header h" "wf_session s" "decrypt_data C s h ct r = (res, s', r')"
  shows "wf_session s'"
proof -
  have p: "length (ratchet_pub h) = 32" using assms(2) by (simp add: wf_header_def)
  obtain b s1 r1 where b: "bind_or_dh_ratchet C s (ratchet_pub h) r = (b, s1, r1)"
    by (cases "bind_or_dh_ratchet C s (ratchet_pub h) r")
  obtain k s2 where k: "receive_key C s1 (ratchet_pub h) (counter_be h) = (k, s2)"
    by (cases "receive_key C s1 (ratchet_pub h) (counter_be h)")
  have s1: "wf_session s1" by (rule bind_or_dh_ratchet_wf [OF assms(1) p assms(3) b])
  have s2: "wf_session s2" using receive_key_wf [OF assms(1) p s1] k by (metis snd_conv)
  show ?thesis using assms(3,4) s1 s2 mark_received_wf [OF s2] b k
    by (auto simp: decrypt_data_def Let_def split: if_splits sum.splits)
qed

lemma decrypt_data_outer_wf:
  assumes "crypto_lens C" "wf_header h" "wf_session s" "decrypt_data_outer C s h p r = (res, s', r')"
  shows "wf_session s'"
  using assms(4) decrypt_data_wf [OF assms(1-3)] assms(3)
  by (auto simp: decrypt_data_outer_def split: sum.splits)

lemma decrypt_rekey_wf:
  assumes "crypto_lens C" "wf_header h" "wf_session s" "decrypt_rekey_ctrl_outer C s h p r = (res, s', r')"
  shows "wf_session s'"
proof -
  have p: "length (ratchet_pub h) = 32" using assms(2) by (simp add: wf_header_def)
  obtain b s1 r1 where b: "bind_or_dh_ratchet C s (ratchet_pub h) r = (b, s1, r1)"
    by (cases "bind_or_dh_ratchet C s (ratchet_pub h) r")
  have s1: "wf_session s1" by (rule bind_or_dh_ratchet_wf [OF assms(1) p assms(3) b])
  show ?thesis using assms(3,4) s1 mark_received_wf [OF s1] b
    by (auto simp: decrypt_rekey_ctrl_outer_def Let_def split: if_splits sum.splits)
qed

section \<open>The session invariant is kept\<close>

lemma session_inv_frame:
  "session_inv s \<Longrightarrow> ratchet_frame s s' \<Longrightarrow> wf_session s' \<Longrightarrow> session_inv s'"
  by (auto simp: session_inv_def ratchet_frame_def mode_ok_def window_ok_def anchor_covers_def
      split: option.splits SessionMode.splits)

lemma session_inv_bind:
  "session_inv s \<Longrightarrow> length p = 32 \<Longrightarrow> session_inv (s\<lparr>peer_ratchet_pub := Some p\<rparr>)"
  by (auto simp: session_inv_def wf_session_def mode_ok_def window_ok_def anchor_covers_def
      split: option.splits SessionMode.splits)

lemma session_inv_mark:
  assumes "session_inv s" shows "session_inv (mark_received s c)"
proof -
  have "window_ok (mark_received s c)"
    using assms by (auto simp: session_inv_def window_ok_def le_max_iff_disj split: option.splits)
  moreover have "anchor_covers (mark_received s c)"
    using assms by (auto simp: session_inv_def anchor_covers_def le_max_iff_disj split: option.splits)
  ultimately show ?thesis
    using assms mark_received_wf by (auto simp: session_inv_def mode_ok_def split: SessionMode.splits)
qed

lemma received_inv:
  assumes "session_inv s" "received s h ty s'" "wf_session s'"
  shows "session_inv s'"
proof -
  obtain s2 where f: "ratchet_frame s s2" and s': "s' = mark_received s2 (counter_be h)"
    using assms(2) by (auto simp: received_def)
  have "wf_session s2" using assms(3) by (simp add: s' wf_session_def wf_anchor_def)
  with assms(1) f have "session_inv s2" by (blast intro: session_inv_frame)
  then show ?thesis unfolding s' by (rule session_inv_mark)
qed

lemma decrypt_inv:
  assumes "session_inv s" "wf_session s'"
    and "(\<exists>e. res = Err e \<and> ratchet_frame s s') \<or> (\<exists>pt. res = Ok pt \<and> n pt \<and> received s h ty s')"
  shows "session_inv s'"
  using assms session_inv_frame received_inv by blast

end
