(* ===== verification/Session_Runs.thy ===== *)
theory Session_Runs
  imports Session_Invariant
begin

text \<open>
  Runs of a session: the labelled step relation \<open>session_step\<close> has one rule per public operation of
  \<^verbatim>\<open>session.rs\<close> between bootstrap and teardown, \<open>session_trace\<close> is its reflexive transitive closure with
  the list of accepted and emitted headers.  The invariant holds along every run; no counter is
  accepted twice and emitted counters strictly increase, whatever the network delivers.
\<close>

section \<open>Outcomes of the send paths\<close>

definition send_frame :: "session \<Rightarrow> session \<Rightarrow> bool" where
  "send_frame s s' \<longleftrightarrow> s' = s\<lparr>send_ck := send_ck s', send_sym_idx := send_sym_idx s',
     send_wire_counter := send_wire_counter s', anchor := anchor s'\<rparr>"

text \<open>The wire counter was taken, and the anchor has seen it.\<close>

definition counter_taken :: "session \<Rightarrow> session \<Rightarrow> bool" where
  "counter_taken s s' \<longleftrightarrow> unat (send_wire_counter s') = Suc (unat (send_wire_counter s))
     \<and> anchor s' = (anchor s)\<lparr>highest_wire_seen_be := max (highest_wire_seen_be (anchor s)) (send_wire_counter s)\<rparr>"

definition counter_kept :: "session \<Rightarrow> session \<Rightarrow> bool" where
  "counter_kept s s' \<longleftrightarrow> send_wire_counter s' = send_wire_counter s \<and> anchor s' = anchor s"

definition sent :: "session \<Rightarrow> byte \<Rightarrow> SessionError + header \<times> bytes \<Rightarrow> session \<Rightarrow> bool" where
  "sent s ty res s' \<longleftrightarrow> send_frame s s' \<and> (case res of
     Inl _ \<Rightarrow> counter_kept s s' \<or> counter_taken s s'
   | Inr (h, _) \<Rightarrow> h = next_header s ty \<and> counter_taken s s')"

lemmas send_frame_defs = send_frame_def counter_taken_def counter_kept_def sent_def

lemma advance_wire_counter_outcome:
  "advance_wire_counter s = (x, s') \<Longrightarrow> send_frame s s' \<and> send_ck s' = send_ck s \<and> send_sym_idx s' = send_sym_idx s
     \<and> (case x of Inl _ \<Rightarrow> s' = s | Inr _ \<Rightarrow> counter_taken s s')"
  by (auto simp: advance_wire_counter_def send_frame_defs Let_def dest: checked_add_Some split: option.splits)

lemma send_step_mk_outcome:
  "send_step_mk C s = (x, s') \<Longrightarrow> send_frame s s' \<and> counter_kept s s'"
  by (auto simp: send_step_mk_def send_frame_defs Let_def split: option.splits prod.splits)

lemma send_frame_trans: "send_frame s t \<Longrightarrow> send_frame t u \<Longrightarrow> send_frame s u"
  unfolding send_frame_def by (cases s; cases t; cases u) simp

lemma next_header_kept:
  "send_frame s t \<Longrightarrow> counter_kept s t \<Longrightarrow> next_header t ty = next_header s ty"
  unfolding send_frame_defs next_header_def by (cases s; cases t) simp

lemma counter_kept_taken: "counter_kept s t \<Longrightarrow> counter_taken t u \<Longrightarrow> counter_taken s u"
  by (simp add: counter_kept_def counter_taken_def)

lemma encrypt_data_plain512_outer_sent:
  assumes "encrypt_data_plain512_outer C s pt r = (res, s', r')"
  shows "sent s 3 res s'"
proof -
  obtain x s1 where st: "send_step_mk C s = (x, s1)" by (cases "send_step_mk C s")
  obtain y s2 where ad: "advance_wire_counter s1 = (y, s2)" by (cases "advance_wire_counter s1")
  have f1: "send_frame s s1" "counter_kept s s1" using send_step_mk_outcome [OF st] by auto
  have f2: "send_frame s s2" "case y of Inl _ \<Rightarrow> s2 = s1 | Inr _ \<Rightarrow> counter_taken s s2"
    using advance_wire_counter_outcome [OF ad] f1
    by (auto intro: send_frame_trans counter_kept_taken split: sum.splits)
  show ?thesis using assms f1 f2 next_header_kept [OF f1] st ad
    by (auto simp: encrypt_data_plain512_outer_def sent_def Let_def map_ok_def map_err_def
        split: sum.splits prod.splits)
qed

lemma encrypt_data_plain512_sent:
  assumes "encrypt_data_plain512 C s pt = (res, s')"
  shows "sent s 3 res s'"
proof -
  obtain x s1 where st: "send_step_mk C s = (x, s1)" by (cases "send_step_mk C s")
  obtain y s2 where ad: "advance_wire_counter s1 = (y, s2)" by (cases "advance_wire_counter s1")
  have f1: "send_frame s s1" "counter_kept s s1" using send_step_mk_outcome [OF st] by auto
  have f2: "send_frame s s2" "case y of Inl _ \<Rightarrow> s2 = s1 | Inr _ \<Rightarrow> counter_taken s s2"
    using advance_wire_counter_outcome [OF ad] f1
    by (auto intro: send_frame_trans counter_kept_taken split: sum.splits)
  show ?thesis using assms f1 f2 next_header_kept [OF f1] st ad
    by (auto simp: encrypt_data_plain512_def sent_def Let_def split: sum.splits)
qed

lemma sent_refl: "sent s ty (Err e) s"
  by (simp add: send_frame_defs)

lemma encrypt_rekey_ctrl_outer_sent:
  assumes "encrypt_rekey_ctrl_outer C s body r = (res, s', r')"
  shows "sent s 5 res s'"
proof -
  obtain y s2 where ad: "advance_wire_counter s = (y, s2)" by (cases "advance_wire_counter s")
  show ?thesis using assms advance_wire_counter_outcome [OF ad] ad sent_refl [of s 5]
    by (auto simp: encrypt_rekey_ctrl_outer_def sent_def Let_def map_ok_def map_err_def
        split: sum.splits prod.splits)
qed

lemma encrypt_rekey_ctrl_sent:
  assumes "encrypt_rekey_ctrl C s body = (res, s')"
  shows "sent s 5 res s'"
proof -
  obtain y s2 where ad: "advance_wire_counter s = (y, s2)" by (cases "advance_wire_counter s")
  show ?thesis using assms advance_wire_counter_outcome [OF ad] ad sent_refl [of s 5]
    by (auto simp: encrypt_rekey_ctrl_def sent_def Let_def split: sum.splits)
qed

section \<open>Steps\<close>

datatype session_event = Accept header | Emit header | Silent

definition recv_event :: "header \<Rightarrow> SessionError + 'a \<Rightarrow> session_event" where
  "recv_event h res = (case res of Inl _ \<Rightarrow> Silent | Inr _ \<Rightarrow> Accept h)"

definition send_event :: "SessionError + header \<times> bytes \<Rightarrow> session_event" where
  "send_event res = (case res of Inl _ \<Rightarrow> Silent | Inr (h, _) \<Rightarrow> Emit h)"

text \<open>One rule per operation.  Headers and keys have the lengths their Rust array types fix.\<close>

inductive session_step :: "'r crypto \<Rightarrow> session \<Rightarrow> session_event \<Rightarrow> session \<Rightarrow> bool" for C where
  inbound: "wf_header (rec_header rec) \<Longrightarrow> handle_inbound_outer C s rec now r = (res, s', r')
     \<Longrightarrow> session_step C s (recv_event (rec_header rec) res) s'"
| recv_data: "wf_header h \<Longrightarrow> decrypt_data C s h ct r = (res, s', r') \<Longrightarrow> session_step C s (recv_event h res) s'"
| recv_data_outer: "wf_header h \<Longrightarrow> decrypt_data_outer C s h p r = (res, s', r')
     \<Longrightarrow> session_step C s (recv_event h res) s'"
| recv_rekey: "wf_header h \<Longrightarrow> decrypt_rekey_ctrl_outer C s h p r = (res, s', r')
     \<Longrightarrow> session_step C s (recv_event h res) s'"
| ratchet: "length p = 32 \<Longrightarrow> dh_ratchet C s p r = (res, s', r') \<Longrightarrow> session_step C s Silent s'"
| send_data: "encrypt_data_plain512 C s pt = (res, s') \<Longrightarrow> session_step C s (send_event res) s'"
| send_data_outer: "encrypt_data_plain512_outer C s pt r = (res, s', r') \<Longrightarrow> session_step C s (send_event res) s'"
| send_rekey: "encrypt_rekey_ctrl C s b = (res, s') \<Longrightarrow> session_step C s (send_event res) s'"
| send_rekey_outer: "encrypt_rekey_ctrl_outer C s b r = (res, s', r') \<Longrightarrow> session_step C s (send_event res) s'"
| reset_pending: "enter_reset_pending_after_rebootstrap s e d = (res, s') \<Longrightarrow> session_step C s Silent s'"
| to_bootstrapping: "reset_pending_to_bootstrapping s = (res, s') \<Longrightarrow> session_step C s Silent s'"
| finish_reset: "finish_reset_half_open_to_active s = (res, s') \<Longrightarrow> session_step C s Silent s'"
| bootstrapping: "enter_bootstrapping_for_epoch s e = (res, s') \<Longrightarrow> session_step C s Silent s'"
| expire: "session_step C s Silent (maybe_expire_reset_pending s now)"
| recompute: "session_step C s Silent (recompute_anchor_commitment C s)"

inductive session_trace :: "'r crypto \<Rightarrow> session \<Rightarrow> session_event list \<Rightarrow> session \<Rightarrow> bool" for C s0 where
  start: "session_trace C s0 [] s0"
| step: "session_trace C s0 evs s \<Longrightarrow> session_step C s ev s' \<Longrightarrow> session_trace C s0 (evs @ [ev]) s'"

inductive_cases session_trace_snocE: "session_trace C s0 (evs @ [ev]) s"
inductive_cases session_trace_NilE: "session_trace C s0 [] s"

fun accepted_of :: "session_event \<Rightarrow> u64 list" where
  "accepted_of (Accept h) = [counter_be h]"
| "accepted_of _ = []"

fun emitted_of :: "session_event \<Rightarrow> u64 list" where
  "emitted_of (Emit h) = [counter_be h]"
| "emitted_of _ = []"

definition accepted :: "session_event list \<Rightarrow> u64 list" where
  "accepted evs = concat (map accepted_of evs)"

definition emitted :: "session_event list \<Rightarrow> u64 list" where
  "emitted evs = concat (map emitted_of evs)"

lemma accepted_simps [simp]: "accepted [] = []" "accepted (a @ b) = accepted a @ accepted b"
    "accepted [e] = accepted_of e"
  and emitted_simps [simp]: "emitted [] = []" "emitted (a @ b) = emitted a @ emitted b"
    "emitted [e] = emitted_of e"
  by (simp_all add: accepted_def emitted_def)

section \<open>What a step changes\<close>

definition step_effect :: "session \<Rightarrow> session_event \<Rightarrow> session \<Rightarrow> bool" where
  "step_effect s ev s' \<longleftrightarrow> session_id s' = session_id s \<and> epoch s' = epoch s \<and> okm s' = okm s \<and> role s' = role s \<and>
     (case ev of
        Accept h \<Rightarrow> hdr_session_id h = session_id s \<and> epoch_be h = epoch s \<and> admits s (counter_be h)
          \<and> admits s' = admits (mark_received s (counter_be h)) \<and> send_wire_counter s' = send_wire_counter s
          \<and> highest_wire_seen_be (anchor s') = max (highest_wire_seen_be (anchor s)) (counter_be h)
      | Emit h \<Rightarrow> hdr_session_id h = session_id s \<and> epoch_be h = epoch s \<and> counter_be h = send_wire_counter s
          \<and> admits s' = admits s \<and> send_wire_counter s < send_wire_counter s'
          \<and> highest_wire_seen_be (anchor s') = max (highest_wire_seen_be (anchor s)) (counter_be h)
      | Silent \<Rightarrow> admits s' = admits s \<and> send_wire_counter s \<le> send_wire_counter s'
          \<and> highest_wire_seen_be (anchor s) \<le> highest_wire_seen_be (anchor s'))"

lemma admits_cong:
  "decrypted_counters s' = decrypted_counters s \<Longrightarrow> recv_high_water s' = recv_high_water s \<Longrightarrow> admits s' = admits s"
  by (simp add: admits_iff fun_eq_iff)

lemma recv_effect:
  assumes "(\<exists>e. res = Err e \<and> ratchet_frame s s') \<or> (\<exists>pt. res = Ok pt \<and> P pt \<and> received s h ty s')"
  shows "step_effect s (recv_event h res) s'"
  using assms
proof (elim disjE exE conjE)
  fix e assume "res = Err e" "ratchet_frame s s'"
  then show ?thesis using admits_frame [of s s'] by (simp add: step_effect_def recv_event_def ratchet_frame_def)
next
  fix pt assume res: "res = Ok pt" and "received s h ty s'"
  then obtain s2 where f: "ratchet_frame s s2" and s': "s' = mark_received s2 (counter_be h)"
    and r: "hdr_session_id h = session_id s" "epoch_be h = epoch s" "admits s (counter_be h)"
    by (auto simp: received_def admits_def)
  have "admits s' = admits (mark_received s (counter_be h))"
    using f by (intro admits_cong) (simp_all add: s' ratchet_frame_def)
  with r f res show ?thesis by (simp add: step_effect_def recv_event_def ratchet_frame_def s')
qed

lemma send_effect:
  assumes "sent s ty res s'" shows "step_effect s (send_event res) s'"
proof -
  have f: "send_frame s s'" using assms by (simp add: sent_def)
  then have "admits s' = admits s" "session_id s' = session_id s" "epoch s' = epoch s" "okm s' = okm s" "role s' = role s"
    by (auto simp: send_frame_def intro!: admits_cong) (cases s; cases s'; simp)+
  moreover have "counter_taken s s' \<Longrightarrow> send_wire_counter s < send_wire_counter s'"
    by (simp add: counter_taken_def word_less_nat_alt)
  ultimately show ?thesis using assms
    by (auto simp: step_effect_def send_event_def sent_def counter_taken_def counter_kept_def next_header_def
        split: sum.splits)
qed

lemma maybe_expire_frame: "\<exists>m. maybe_expire_reset_pending s now = s\<lparr>mode := m\<rparr>"
  by (auto simp: maybe_expire_reset_pending_def Let_def intro: exI [of _ "mode s"])

lemma step_effect_mode:
  "step_effect (s\<lparr>mode := m\<rparr>) ev s' \<longleftrightarrow> step_effect s ev s'"
proof -
  have "admits (s\<lparr>mode := m\<rparr>) = admits s" "admits (mark_received (s\<lparr>mode := m\<rparr>) c) = admits (mark_received s c)" for c
    by (rule admits_cong; simp)+
  then show ?thesis by (cases ev) (simp_all add: step_effect_def)
qed

lemma step_effect_quiet: "s' = s\<lparr>mode := m\<rparr> \<Longrightarrow> step_effect s Silent s'"
  using step_effect_mode [of m s Silent s'] by (simp add: step_effect_def)

lemma handle_inbound_effect:
  assumes "handle_inbound_outer C s rec now r = (res, s', r')"
  shows "step_effect s (recv_event (rec_header rec) res) s'"
proof -
  obtain m where m: "maybe_expire_reset_pending s now = s\<lparr>mode := m\<rparr>" using maybe_expire_frame by blast
  obtain d s1 r1 where d: "decrypt_data_outer C (s\<lparr>mode := m\<rparr>) (rec_header rec) (payload rec) r = (d, s1, r1)"
    by (cases "decrypt_data_outer C (s\<lparr>mode := m\<rparr>) (rec_header rec) (payload rec) r")
  obtain k s2 r2 where k: "decrypt_rekey_ctrl_outer C (s\<lparr>mode := m\<rparr>) (rec_header rec) (payload rec) r = (k, s2, r2)"
    by (cases "decrypt_rekey_ctrl_outer C (s\<lparr>mode := m\<rparr>) (rec_header rec) (payload rec) r")
  have ev: "step_effect s (recv_event (rec_header rec) d) s1" "step_effect s (recv_event (rec_header rec) k) s2"
    using recv_effect [OF decrypt_data_outer_outcome [OF d]] recv_effect [OF decrypt_rekey_outcome [OF k]]
    by (simp_all add: step_effect_mode)
  have q: "step_effect s Silent (s\<lparr>mode := m\<rparr>)" by (rule step_effect_quiet) simp
  show ?thesis using assms ev q
    by (auto simp: handle_inbound_outer_def m d k Let_def recv_event_def map_ok_def split: sum.splits if_splits)
qed

lemma mode_ops_frame:
  "enter_reset_pending_after_rebootstrap s e d = (x, s') \<Longrightarrow> \<exists>m. s' = s\<lparr>mode := m\<rparr>"
  "reset_pending_to_bootstrapping s = (x, s') \<Longrightarrow> \<exists>m. s' = s\<lparr>mode := m\<rparr>"
  "finish_reset_half_open_to_active s = (x, s') \<Longrightarrow> \<exists>m. s' = s\<lparr>mode := m\<rparr>"
  "enter_bootstrapping_for_epoch s e = (x, s') \<Longrightarrow> \<exists>m. s' = s\<lparr>mode := m\<rparr>"
  by (auto simp: enter_reset_pending_after_rebootstrap_def reset_pending_to_bootstrapping_def
      finish_reset_half_open_to_active_def enter_bootstrapping_for_epoch_def intro: exI [of _ "mode s"]
      split: option.splits SessionMode.splits if_splits)

lemma session_step_effect: "session_step C s ev s' \<Longrightarrow> step_effect s ev s'"
proof (induction rule: session_step.induct)
  case (ratchet p s r res s' r')
  then have "ratchet_frame s s'" by (metis dh_ratchet_def apply_inbound_dh_ratchet_frame)
  then show ?case using admits_frame [of s s'] by (simp add: step_effect_def ratchet_frame_def)
next
  case (recompute s)
  have "admits (recompute_anchor_commitment C s) = admits s"
    by (rule admits_cong) (simp_all add: recompute_anchor_commitment_def)
  then show ?case by (simp add: step_effect_def recompute_anchor_commitment_def)
next
  case (expire s now)
  then show ?case using maybe_expire_frame step_effect_quiet by metis
next
  case (reset_pending s e d res s')
  then show ?case using mode_ops_frame(1) step_effect_quiet by metis
next
  case (to_bootstrapping s res s')
  then show ?case using mode_ops_frame(2) step_effect_quiet by metis
next
  case (finish_reset s res s')
  then show ?case using mode_ops_frame(3) step_effect_quiet by metis
next
  case (bootstrapping s e res s')
  then show ?case using mode_ops_frame(4) step_effect_quiet by metis
qed (erule handle_inbound_effect recv_effect [OF decrypt_data_outcome] recv_effect [OF decrypt_data_outer_outcome]
    recv_effect [OF decrypt_rekey_outcome] send_effect [OF encrypt_data_plain512_sent]
    send_effect [OF encrypt_data_plain512_outer_sent] send_effect [OF encrypt_rekey_ctrl_sent]
    send_effect [OF encrypt_rekey_ctrl_outer_sent])+

section \<open>The invariant along a run\<close>

lemma send_ck_after_send:
  "encrypt_data_plain512 C s pt = (res, s') \<Longrightarrow> send_ck s' = snd (msg_step C (send_ck s) (send_sym_idx s))"
  "encrypt_data_plain512_outer C s pt r = (out, s', r') \<Longrightarrow> send_ck s' = snd (msg_step C (send_ck s) (send_sym_idx s))"
  "encrypt_rekey_ctrl C s b = (res, s') \<Longrightarrow> send_ck s' = send_ck s"
  "encrypt_rekey_ctrl_outer C s b r = (out, s', r') \<Longrightarrow> send_ck s' = send_ck s"
  by (auto simp: encrypt_data_plain512_def encrypt_data_plain512_outer_def encrypt_rekey_ctrl_def
      encrypt_rekey_ctrl_outer_def send_step_mk_def advance_wire_counter_def Let_def
      split: sum.splits prod.splits option.splits)

lemma sent_inv:
  assumes "session_inv s" "sent s ty res s'" "length (send_ck s') = 32"
  shows "session_inv s'"
proof -
  obtain k i n a where s': "s' = s\<lparr>send_ck := k, send_sym_idx := i, send_wire_counter := n, anchor := a\<rparr>"
    using assms(2) by (auto simp: sent_def send_frame_def)
  have c: "counter_kept s s' \<or> counter_taken s s'" using assms(2) by (auto simp: sent_def split: sum.splits)
  have pred: "n - 1 = send_wire_counter s" if "unat n = Suc (unat (send_wire_counter s))"
  proof -
    have "n = of_nat (unat n)" by simp
    also have "\<dots> = send_wire_counter s + 1" by (simp add: that)
    finally show ?thesis by simp
  qed
  have "anchor_covers s'" using assms(1) c pred
    by (auto simp: session_inv_def anchor_covers_def s' counter_kept_def counter_taken_def le_max_iff_disj
        split: option.splits)
  moreover have "wf_anchor a" using assms(1) c
    by (auto simp: session_inv_def wf_session_def s' counter_kept_def counter_taken_def wf_anchor_def)
  ultimately show ?thesis using assms(1,3)
    by (auto simp: session_inv_def wf_session_def mode_ok_def window_ok_def s' split: option.splits SessionMode.splits)
qed

lemma session_inv_mode:
  "session_inv s \<Longrightarrow> mode_ok (s\<lparr>mode := m\<rparr>) \<Longrightarrow> session_inv (s\<lparr>mode := m\<rparr>)"
  by (auto simp: session_inv_def wf_session_def window_ok_def anchor_covers_def split: option.splits)

lemma mode_ops_ok:
  assumes "mode_ok s"
  shows "enter_reset_pending_after_rebootstrap s e d = (x, s') \<Longrightarrow> mode_ok s'"
    and "reset_pending_to_bootstrapping s = (x, s') \<Longrightarrow> mode_ok s'"
    and "finish_reset_half_open_to_active s = (x, s') \<Longrightarrow> mode_ok s'"
    and "enter_bootstrapping_for_epoch s e = (x, s') \<Longrightarrow> mode_ok s'"
    and "mode_ok (maybe_expire_reset_pending s now)"
  using assms
  by (auto simp: mode_ok_def enter_reset_pending_after_rebootstrap_def reset_pending_to_bootstrapping_def
      finish_reset_half_open_to_active_def enter_bootstrapping_for_epoch_def maybe_expire_reset_pending_def Let_def
      dest: checked_add_Some split: option.splits SessionMode.splits if_splits)

lemma session_invD: "session_inv s \<Longrightarrow> wf_session s" "session_inv s \<Longrightarrow> mode_ok s"
  by (simp_all add: session_inv_def)

lemma handle_inbound_inv:
  assumes "crypto_lens C" "wf_header (rec_header rec)" "session_inv s"
    and "handle_inbound_outer C s rec now r = (res, s', r')"
  shows "session_inv s'"
proof -
  obtain m where m: "maybe_expire_reset_pending s now = s\<lparr>mode := m\<rparr>" using maybe_expire_frame by blast
  have inv: "session_inv (s\<lparr>mode := m\<rparr>)" (is "session_inv ?s")
    using mode_ops_ok(5) [of s now] assms(3) m by (intro session_inv_mode) (auto simp: session_inv_def)
  obtain d s1 r1 where d: "decrypt_data_outer C ?s (rec_header rec) (payload rec) r = (d, s1, r1)"
    by (cases "decrypt_data_outer C ?s (rec_header rec) (payload rec) r")
  obtain k s2 r2 where k: "decrypt_rekey_ctrl_outer C ?s (rec_header rec) (payload rec) r = (k, s2, r2)"
    by (cases "decrypt_rekey_ctrl_outer C ?s (rec_header rec) (payload rec) r")
  note w = assms(1,2) session_invD(1) [OF inv]
  have "session_inv s1" "session_inv s2"
    using decrypt_inv [OF inv decrypt_data_outer_wf [OF w d] decrypt_data_outer_outcome [OF d]]
      decrypt_inv [OF inv decrypt_rekey_wf [OF w k] decrypt_rekey_outcome [OF k]] by auto
  with inv assms(4) show ?thesis
    by (auto simp: handle_inbound_outer_def m d k Let_def split: sum.splits if_splits)
qed

lemma recompute_anchor_commitment_inv:
  "crypto_lens C \<Longrightarrow> session_inv s \<Longrightarrow> session_inv (recompute_anchor_commitment C s)"
  by (auto simp: recompute_anchor_commitment_def session_inv_def wf_session_def mode_ok_def window_ok_def
      anchor_covers_def wf_anchor_def compute_state_commitment_def crypto_lensD length_sha256_label
      split: option.splits SessionMode.splits)

lemma session_step_inv:
  assumes "crypto_lens C" "session_step C s ev s'" "session_inv s"
  shows "session_inv s'"
  using assms(2,3)
proof (induction rule: session_step.induct)
  case (inbound rec s now r res s' r')
  then show ?case using handle_inbound_inv [OF assms(1)] by blast
next
  case (recv_data h s ct r res s' r')
  note wf = decrypt_data_wf [OF assms(1) recv_data.hyps(1) session_invD(1) [OF recv_data.prems] recv_data.hyps(2)]
  show ?case by (rule decrypt_inv [OF recv_data.prems wf decrypt_data_outcome [OF recv_data.hyps(2)]])
next
  case (recv_data_outer h s p r res s' r')
  note wf = decrypt_data_outer_wf [OF assms(1) recv_data_outer.hyps(1) session_invD(1) [OF recv_data_outer.prems] recv_data_outer.hyps(2)]
  show ?case by (rule decrypt_inv [OF recv_data_outer.prems wf decrypt_data_outer_outcome [OF recv_data_outer.hyps(2)]])
next
  case (recv_rekey h s p r res s' r')
  note wf = decrypt_rekey_wf [OF assms(1) recv_rekey.hyps(1) session_invD(1) [OF recv_rekey.prems] recv_rekey.hyps(2)]
  show ?case by (rule decrypt_inv [OF recv_rekey.prems wf decrypt_rekey_outcome [OF recv_rekey.hyps(2)]])
next
  case (ratchet p s r res s' r')
  note ap = ratchet.hyps(2) [unfolded dh_ratchet_def]
  show ?case
    using session_inv_frame [OF ratchet.prems] apply_inbound_dh_ratchet_frame [OF ap]
      apply_inbound_dh_ratchet_wf [OF assms(1) ratchet.hyps(1) session_invD(1) [OF ratchet.prems] ap] by blast
next
  case (send_data s pt res s')
  then show ?case using send_ck_after_send(1) encrypt_data_plain512_sent length_msg_step [OF assms(1)]
    by (metis sent_inv)
next
  case (send_data_outer s pt r res s' r')
  then show ?case using send_ck_after_send(2) encrypt_data_plain512_outer_sent length_msg_step [OF assms(1)]
    by (metis sent_inv)
next
  case (send_rekey s b res s')
  then show ?case using send_ck_after_send(3) encrypt_rekey_ctrl_sent
    by (metis sent_inv session_invD(1) wf_session_def)
next
  case (send_rekey_outer s b r res s' r')
  then show ?case using send_ck_after_send(4) encrypt_rekey_ctrl_outer_sent
    by (metis sent_inv session_invD(1) wf_session_def)
next
  case (expire s now)
  then show ?case using maybe_expire_frame mode_ops_ok(5) session_inv_mode session_invD(2) by metis
next
  case (recompute s)
  then show ?case using recompute_anchor_commitment_inv [OF assms(1)] by blast
qed (metis mode_ops_frame mode_ops_ok session_inv_mode session_invD(2))+

lemma session_trace_inv:
  assumes "crypto_lens C" "session_trace C s0 evs s" "session_inv s0"
  shows "session_inv s"
  using assms(2,3) by induction (auto intro: session_step_inv [OF assms(1)])

lemma bootstrap_inv:
  assumes "crypto_lens C" "length k = 64" "length sid = 16" "length sk = 32"
    "case peer of None \<Rightarrow> True | Some p \<Rightarrow> length p = 32" "wf_anchor anc"
  shows "session_inv (bootstrap_initiator C k sid e sk peer anc)"
    and "session_inv (bootstrap_responder C k sid e sk peer anc)"
  using assms length_chain_bootstrap [OF assms(1), of "bslice 32 64 k"]
  by (auto simp: bootstrap_initiator_def bootstrap_responder_def session_inv_def wf_session_def mode_ok_def
      window_ok_def anchor_covers_def Let_def crypto_lensD split: prod.splits)

section \<open>Counters along a run\<close>

text \<open>Every counter accepted so far is refused from now on, and none was accepted twice.\<close>

lemma session_trace_accepted:
  assumes "session_trace C s0 evs s"
  shows "distinct (accepted evs) \<and> (\<forall>c \<in> set (accepted evs). \<not> admits s c)"
  using assms
proof induction
  case (step evs s ev s')
  note eff = session_step_effect [OF step.hyps(2)]
  show ?case
  proof (cases ev)
    case (Accept h)
    with eff have "admits s (counter_be h)" "admits s' = admits (mark_received s (counter_be h))"
      by (simp_all add: step_effect_def)
    with step.IH win.admit_fresh [of "set (accepted evs)" s "counter_be h"] show ?thesis by (simp add: Accept)
  qed (use eff step.IH in \<open>simp_all add: step_effect_def\<close>)
qed simp

text \<open>Emitted counters increase strictly and stay below the next one.\<close>

lemma session_trace_emitted:
  assumes "session_trace C s0 evs s"
  shows "sorted_wrt (<) (emitted evs) \<and> (\<forall>c \<in> set (emitted evs). send_wire_counter s0 \<le> c \<and> c < send_wire_counter s)
     \<and> send_wire_counter s0 \<le> send_wire_counter s"
  using assms
proof induction
  case (step evs s ev s')
  note eff = session_step_effect [OF step.hyps(2)]
  have le: "send_wire_counter s \<le> send_wire_counter s'"
    using eff by (cases ev) (auto simp: step_effect_def)
  then have old: "\<forall>c \<in> set (emitted evs). c < send_wire_counter s'" using step.IH by fastforce
  show ?case
  proof (cases ev)
    case (Emit h)
    with eff have "counter_be h = send_wire_counter s" "send_wire_counter s < send_wire_counter s'"
      by (simp_all add: step_effect_def)
    with step.IH old le show ?thesis by (auto simp: Emit sorted_wrt_append)
  qed (use step.IH old le in auto)
qed simp

text \<open>Identity of the session and the anchor's high mark along a run.\<close>

lemma session_trace_frame:
  assumes "session_trace C s0 evs s"
  shows "session_id s = session_id s0 \<and> epoch s = epoch s0 \<and> role s = role s0 \<and> okm s = okm s0
     \<and> highest_wire_seen_be (anchor s0) \<le> highest_wire_seen_be (anchor s)
     \<and> (\<forall>c \<in> set (accepted evs @ emitted evs). c \<le> highest_wire_seen_be (anchor s))"
  using assms
proof induction
  case (step evs s ev s')
  note eff = session_step_effect [OF step.hyps(2)]
  have le: "highest_wire_seen_be (anchor s) \<le> highest_wire_seen_be (anchor s')"
    using eff by (cases ev) (auto simp: step_effect_def)
  with step.IH have "\<forall>c \<in> set (accepted evs @ emitted evs). c \<le> highest_wire_seen_be (anchor s')" by fastforce
  with step.IH eff le show ?case by (cases ev) (auto simp: step_effect_def le_max_iff_disj)
qed simp

end
