(* ===== verification/Session_Sync.thy ===== *)
theory Session_Sync
  imports Session_Runs
begin

text \<open>
  Two sessions talking to each other.  \<open>chain_mk\<close> is the abstract specification of the symmetric
  ratchet: the key of the \<open>n\<close>-th message of a chain.  A receiver in the state \<open>in_sync\<close> holds exactly
  the keys of the messages still to come, so that every message of a batch decrypts once, in any
  order of delivery.
\<close>

section \<open>The chain of message keys\<close>

primrec chain_ck :: "'r crypto \<Rightarrow> bytes \<Rightarrow> u64 \<Rightarrow> nat \<Rightarrow> bytes" where
  "chain_ck C ck i 0 = ck"
| "chain_ck C ck i (Suc n) = snd (msg_step C (chain_ck C ck i n) (i + of_nat n))"

definition chain_mk :: "'r crypto \<Rightarrow> bytes \<Rightarrow> u64 \<Rightarrow> nat \<Rightarrow> bytes" where
  "chain_mk C ck i n = fst (msg_step C (chain_ck C ck i n) (i + of_nat n))"

lemma chain_shift: "chain_ck C (snd (msg_step C ck i)) (i + 1) n = chain_ck C ck i (Suc n)"
  by (induction n) (simp_all add: add.assoc)

lemma chain_mk_shift: "chain_mk C (snd (msg_step C ck i)) (i + 1) n = chain_mk C ck i (Suc n)"
  using chain_shift [of C ck i n] by (simp add: chain_mk_def add.assoc)

lemma length_chain_mk: "crypto_lens C \<Longrightarrow> length (chain_mk C ck i n) = 32"
  by (simp add: chain_mk_def length_msg_step)

text \<open>Counters \<open>c + j\<close> that do not wrap.\<close>

lemma unat_ctr: "unat (c :: u64) + j < 2 ^ 64 \<Longrightarrow> unat (c + of_nat j) = unat c + j"
  by (simp add: unat_word_ariths unat_of_nat)

lemma ctr_inj:
  "unat (c :: u64) + j < 2 ^ 64 \<Longrightarrow> unat c + k < 2 ^ 64 \<Longrightarrow> c + of_nat j = c + of_nat k \<longleftrightarrow> j = k"
  by (metis unat_ctr add_left_cancel)

lemma checked_add_idx:
  assumes "unat (i :: u64) + Suc n < 2 ^ 64"
  shows "checked_add (i + of_nat n) 1 = Some (i + of_nat (Suc n))"
proof -
  have "unat (i + of_nat n) = unat i + n" using assms by (intro unat_ctr) simp
  moreover have "i + of_nat n + 1 = i + of_nat (Suc n)" by simp
  ultimately show ?thesis using assms by (simp add: checked_add_def)
qed

lemma recv_step_mk_sync:
  assumes "recv_ck s = chain_ck C ck i m" "recv_sym_idx s = i + of_nat m" "unat i + Suc m < 2 ^ 64"
  shows "recv_step_mk C s = (Ok (chain_mk C ck i m),
     s\<lparr>recv_ck := chain_ck C ck i (Suc m), recv_sym_idx := i + of_nat (Suc m)\<rparr>)"
  using assms checked_add_idx [OF assms(3)]
  by (simp add: recv_step_mk_def chain_mk_def Let_def split_beta)

lemma fill_loop_sync:
  assumes "recv_ck s = chain_ck C ck i m" "recv_sym_idx s = i + of_nat m"
    and "unat i + (m + n) < 2 ^ 64" "unat c + (m + n) < 2 ^ 64"
    and "skipped_len (skipped s) + n \<le> MAX_SKIP"
    and "\<And>j. m \<le> j \<Longrightarrow> j < m + n \<Longrightarrow> skipped_lookup (skipped s) p (c + of_nat j) = None"
  shows "\<exists>M. fill_loop C p n (c + of_nat m) s
       = (Ok (), s\<lparr>recv_ck := chain_ck C ck i (m + n), recv_sym_idx := i + of_nat (m + n), skipped := M\<rparr>)
     \<and> skipped_len M = skipped_len (skipped s) + n
     \<and> (\<forall>j. unat c + j < 2 ^ 64 \<longrightarrow> skipped_lookup M p (c + of_nat j) =
          (if m \<le> j \<and> j < m + n then Some (chain_mk C ck i j) else skipped_lookup (skipped s) p (c + of_nat j)))"
  using assms
proof (induction n arbitrary: m s)
  case 0
  then show ?case by (intro exI [of _ "skipped s"]) auto
next
  case (Suc n)
  let ?s1 = "s\<lparr>recv_ck := chain_ck C ck i (Suc m), recv_sym_idx := i + of_nat (Suc m)\<rparr>"
  let ?c = "c + of_nat m" and ?mk = "chain_mk C ck i m"
  have st: "recv_step_mk C s = (Ok ?mk, ?s1)" using Suc.prems(1-3) by (intro recv_step_mk_sync) auto
  obtain x M1 where ins: "skipped_insert (skipped s) p ?c ?mk = (x, M1)"
    by (cases "skipped_insert (skipped s) p ?c ?mk")
  have x: "x = Ok ()" using cache.put_new [of "skipped s" p ?c ?mk] Suc.prems(5,6) ins by simp
  have look: "skipped_lookup M1 p d = (if d = ?c then Some ?mk else skipped_lookup (skipped s) p d)" for d
    using cache.put_look [of "skipped s" p ?c ?mk p d] ins x by simp
  have len: "skipped_len M1 = Suc (skipped_len (skipped s))"
    using cache.put_size [of "skipped s" p ?c ?mk] ins x by simp
  have "\<exists>M. fill_loop C p n (c + of_nat (Suc m)) (?s1\<lparr>skipped := M1\<rparr>)
       = (Ok (), (?s1\<lparr>skipped := M1\<rparr>)\<lparr>recv_ck := chain_ck C ck i (Suc m + n),
            recv_sym_idx := i + of_nat (Suc m + n), skipped := M\<rparr>)
     \<and> skipped_len M = skipped_len (skipped (?s1\<lparr>skipped := M1\<rparr>)) + n
     \<and> (\<forall>j. unat c + j < 2 ^ 64 \<longrightarrow> skipped_lookup M p (c + of_nat j) =
          (if Suc m \<le> j \<and> j < Suc m + n then Some (chain_mk C ck i j)
           else skipped_lookup (skipped (?s1\<lparr>skipped := M1\<rparr>)) p (c + of_nat j)))"
  proof (rule Suc.IH)
    fix j assume "Suc m \<le> j" "j < Suc m + n"
    then show "skipped_lookup (skipped (?s1\<lparr>skipped := M1\<rparr>)) p (c + of_nat j) = None"
      using Suc.prems(4,6) ctr_inj [of c j m] by (simp add: look)
  qed (use Suc.prems len in auto)
  then obtain M where M: "fill_loop C p n (c + of_nat (Suc m)) (?s1\<lparr>skipped := M1\<rparr>)
       = (Ok (), s\<lparr>recv_ck := chain_ck C ck i (m + Suc n), recv_sym_idx := i + of_nat (m + Suc n), skipped := M\<rparr>)"
     "skipped_len M = skipped_len (skipped s) + Suc n"
     "\<And>j. unat c + j < 2 ^ 64 \<Longrightarrow> skipped_lookup M p (c + of_nat j) =
          (if Suc m \<le> j \<and> j < Suc m + n then Some (chain_mk C ck i j) else skipped_lookup M1 p (c + of_nat j))"
    using len by auto
  have "skipped_lookup M p (c + of_nat j) = (if m \<le> j \<and> j < m + Suc n then Some (chain_mk C ck i j)
      else skipped_lookup (skipped s) p (c + of_nat j))" if "unat c + j < 2 ^ 64" for j
    using M(3) [OF that] that Suc.prems(4) ctr_inj [of c j m] by (auto simp: look)
  with M(1,2) show ?case using st ins x by (auto simp: add.commute add.left_commute)
qed

section \<open>A receiver in step with a chain\<close>

text \<open>
  The chain starts at chain key \<open>ck\<close> and index \<open>i\<close>, its messages have the counters \<open>c + j\<close> for
  \<open>j < N\<close> under the sender's ratchet key \<open>p\<close>.  The receiver has decrypted the messages in \<open>D\<close> and
  stepped its chain \<open>m\<close> times.
\<close>

definition in_sync ::
  "'r crypto \<Rightarrow> bytes \<Rightarrow> u64 \<Rightarrow> u64 \<Rightarrow> bytes \<Rightarrow> nat \<Rightarrow> session \<Rightarrow> nat set \<Rightarrow> nat \<Rightarrow> bool" where
  "in_sync C ck i c p N b D m \<longleftrightarrow>
     wf_session b \<and> m \<le> N \<and> unat i + N < 2 ^ 64 \<and> unat c + N < 2 ^ 64 \<and> length p = 32
     \<and> recv_ck b = chain_ck C ck i m \<and> recv_sym_idx b = i + of_nat m
     \<and> (case recv_high_water b of None \<Rightarrow> unat c + m = 0 | Some hw \<Rightarrow> unat hw + 1 = unat c + m)
     \<and> (peer_ratchet_pub b = None \<or> peer_ratchet_pub b = Some p)
     \<and> (\<forall>j. unat c + j < 2 ^ 64 \<longrightarrow> skipped_lookup (skipped b) p (c + of_nat j)
          = (if j < m \<and> j \<notin> D then Some (chain_mk C ck i j) else None))
     \<and> skipped_len (skipped b) + (N - m) \<le> Suc MAX_SKIP
     \<and> (\<forall>j < N. j \<notin> D \<longrightarrow> c + of_nat j \<notin> decrypted_counters b) \<and> D \<subseteq> {..<m}"

lemma unat_MAX_SKIP [simp]: "unat (of_nat MAX_SKIP :: u64) = 2000"
  by (simp add: MAX_SKIP_def)

lemma in_sync_precheck:
  assumes "in_sync C ck i c p N b D m" "k < N" "k \<notin> D" "m \<le> Suc (k + MAX_SKIP)"
  shows "replay_precheck b (c + of_nat k) = Ok ()"
proof -
  have k: "unat (c + of_nat k) = unat c + k" using assms(1,2) by (intro unat_ctr) (simp add: in_sync_def)
  have "\<not> c + of_nat k < saturating_sub hw (of_nat MAX_SKIP)" if "recv_high_water b = Some hw" for hw
  proof -
    have "Suc (unat hw) = unat c + m" "m \<le> Suc (k + 2000)" using that assms(1,4) by (simp_all add: in_sync_def MAX_SKIP_def)
    then show ?thesis by (simp add: word_less_nat_alt unat_saturating_sub k)
  qed
  then show ?thesis using assms by (auto simp: replay_precheck_def in_sync_def split: option.splits)
qed

lemma in_sync_bind:
  assumes "in_sync C ck i c p N b D m"
  shows "bind_or_dh_ratchet C b p r = (Ok (), b\<lparr>peer_ratchet_pub := Some p\<rparr>, r)"
    and "in_sync C ck i c p N (b\<lparr>peer_ratchet_pub := Some p\<rparr>) D m"
proof -
  have p: "peer_ratchet_pub b = None \<or> peer_ratchet_pub b = Some p" using assms by (simp add: in_sync_def)
  then have same: "peer_ratchet_pub b = Some p \<Longrightarrow> b\<lparr>peer_ratchet_pub := Some p\<rparr> = b" by (cases b) simp
  then show "bind_or_dh_ratchet C b p r = (Ok (), b\<lparr>peer_ratchet_pub := Some p\<rparr>, r)"
    using p by (auto simp: bind_or_dh_ratchet_def)
  show "in_sync C ck i c p N (b\<lparr>peer_ratchet_pub := Some p\<rparr>) D m"
    using assms by (auto simp: in_sync_def wf_session_def split: option.splits)
qed

text \<open>The key of message \<open>k\<close>, from the cache when the chain is past it, else by stepping the chain.\<close>

lemma receive_key_skipped:
  assumes "in_sync C ck i c p N b D m" "k < m" "k \<notin> D"
  shows "\<exists>M. receive_key C b p (c + of_nat k) = (Ok (chain_mk C ck i k), b\<lparr>skipped := M\<rparr>)
    \<and> skipped_len M + 1 = skipped_len (skipped b)
    \<and> (\<forall>j. unat c + j < 2 ^ 64 \<longrightarrow> skipped_lookup M p (c + of_nat j)
          = (if j = k then None else skipped_lookup (skipped b) p (c + of_nat j)))"
proof -
  let ?c = "c + of_nat k"
  have k: "unat c + k < 2 ^ 64" using assms(1,2) by (simp add: in_sync_def)
  then have look: "skipped_lookup (skipped b) p ?c = Some (chain_mk C ck i k)"
    using assms unfolding in_sync_def by simp
  obtain v M where tk: "skipped_take (skipped b) p ?c = (v, M)" by (cases "skipped_take (skipped b) p ?c")
  have v: "v = Some (chain_mk C ck i k)" using cache.pull_val [of "skipped b" p ?c] tk look by simp
  have inv: "skipped_inv (skipped b)" using assms(1) by (simp add: in_sync_def wf_session_def)
  have "skipped_len M = skipped_len (skipped b) - 1" using cache.pull_size [OF inv, of p ?c] tk look by simp
  moreover have "skipped_len (skipped b) \<noteq> 0" using look by (auto simp: skipped_len_def skipped_lookup_def)
  ultimately show ?thesis
    using tk v cache.pull_look [of p p "skipped b" ?c] ctr_inj [OF _ k]
    by (intro exI [of _ M]) (auto simp: receive_key_def)
qed

lemma fill_gap_sync:
  assumes "in_sync C ck i c p N b D m" "m \<le> k" "k < N"
  obtains M where "fill_recv_gap_to_counter C b p (c + of_nat m) (c + of_nat k)
       = (Ok (), b\<lparr>recv_ck := chain_ck C ck i k, recv_sym_idx := i + of_nat k, skipped := M\<rparr>)"
    "skipped_len M = skipped_len (skipped b) + (k - m)"
    "\<And>j. unat c + j < 2 ^ 64 \<Longrightarrow> skipped_lookup M p (c + of_nat j) =
          (if m \<le> j \<and> j < k then Some (chain_mk C ck i j) else skipped_lookup (skipped b) p (c + of_nat j))"
proof -
  have sync: "recv_ck b = chain_ck C ck i m" "recv_sym_idx b = i + of_nat m" "unat i + N < 2 ^ 64" "unat c + N < 2 ^ 64"
    "skipped_len (skipped b) + (N - m) \<le> Suc MAX_SKIP"
    "\<And>j. unat c + j < 2 ^ 64 \<Longrightarrow> skipped_lookup (skipped b) p (c + of_nat j)
          = (if j < m \<and> j \<notin> D then Some (chain_mk C ck i j) else None)"
    using assms(1) unfolding in_sync_def by auto
  have u: "unat (c + of_nat k) = unat c + k" "unat (c + of_nat m) = unat c + m"
    using sync(4) assms(2,3) by (auto intro!: unat_ctr)
  have none: "skipped_lookup (skipped b) p (c + of_nat j) = None" if "m \<le> j" "j < m + (k - m)" for j
    using that sync(4,6) assms(2,3) by simp
  have "\<exists>M. fill_loop C p (k - m) (c + of_nat m) b
       = (Ok (), b\<lparr>recv_ck := chain_ck C ck i (m + (k - m)), recv_sym_idx := i + of_nat (m + (k - m)), skipped := M\<rparr>)
     \<and> skipped_len M = skipped_len (skipped b) + (k - m)
     \<and> (\<forall>j. unat c + j < 2 ^ 64 \<longrightarrow> skipped_lookup M p (c + of_nat j) =
          (if m \<le> j \<and> j < m + (k - m) then Some (chain_mk C ck i j) else skipped_lookup (skipped b) p (c + of_nat j)))"
    using sync assms(2,3) by (intro fill_loop_sync none) auto
  then obtain M where M: "fill_loop C p (k - m) (c + of_nat m) b
       = (Ok (), b\<lparr>recv_ck := chain_ck C ck i k, recv_sym_idx := i + of_nat k, skipped := M\<rparr>)"
     "skipped_len M = skipped_len (skipped b) + (k - m)"
     "\<And>j. unat c + j < 2 ^ 64 \<Longrightarrow> skipped_lookup M p (c + of_nat j) =
          (if m \<le> j \<and> j < k then Some (chain_mk C ck i j) else skipped_lookup (skipped b) p (c + of_nat j))"
    using assms(2) by auto
  have small: "skipped_len (skipped b) + (k - m) \<le> 2000" using sync(5) assms(2,3) by (simp add: MAX_SKIP_def)
  then have "\<not> of_nat (skipped_len (skipped b)) + of_nat (k - m) > (of_nat MAX_SKIP :: u64)"
    by (simp add: word_less_nat_alt unat_of_nat MAX_SKIP_def flip: of_nat_add)
  moreover have "unat (of_nat (k - m) :: u64) = k - m" using small by (simp add: unat_of_nat)
  moreover have "c + of_nat k - (c + of_nat m) = of_nat (k - m)" using assms(2) by (simp add: of_nat_diff)
  moreover have "c + of_nat m \<ge> c + of_nat k \<longleftrightarrow> k = m" using assms(2) by (auto simp: word_le_nat_alt u)
  ultimately have "fill_recv_gap_to_counter C b p (c + of_nat m) (c + of_nat k)
      = (Ok (), b\<lparr>recv_ck := chain_ck C ck i k, recv_sym_idx := i + of_nat k, skipped := M\<rparr>)"
    using M(1) by (cases "k = m") (simp_all only: fill_recv_gap_to_counter_def Let_def if_cancel if_False diff_self_eq_0 fill_loop.simps)
  with M(2,3) show thesis by (intro that)
qed

text \<open>The guard of the gap, when its sum does not wrap.\<close>

lemma fill_recv_gap_cases:
  assumes "gap = unat target - unat base" "skipped_len (skipped s) + gap < 2 ^ 64"
  shows "fill_recv_gap_to_counter C s p base target =
    (if base < target \<and> MAX_SKIP < skipped_len (skipped s) + gap then (Err MaxSkipExceeded, s) else fill_loop C p gap base s)"
proof (cases "base < target")
  case True
  then have sub: "unat (target - base) = gap" by (simp add: assms(1) unat_sub)
  let ?sum = "(of_nat (skipped_len (skipped s)) :: u64) + (target - base)"
  have "unat ?sum = skipped_len (skipped s) + gap" using assms(2) sub by (simp add: unat_word_ariths(1) unat_of_nat)
  then have "of_nat MAX_SKIP < ?sum \<longleftrightarrow> MAX_SKIP < skipped_len (skipped s) + gap" by (simp add: word_less_nat_alt MAX_SKIP_def)
  then show ?thesis using True sub leD [of target base] by (auto simp: fill_recv_gap_to_counter_def Let_def)
next
  case False
  then show ?thesis by (simp add: fill_recv_gap_to_counter_def assms(1) word_less_nat_alt word_le_nat_alt)
qed

lemma receive_key_enters_gap:
  assumes "in_sync C ck i c p N b D m" "m \<le> k" "unat c + k < 2 ^ 64"
  shows "receive_key C b p (c + of_nat k) = gap_then_step C b p (c + of_nat m) (c + of_nat k)"
proof -
  have sync: "case recv_high_water b of None \<Rightarrow> unat c + m = 0 | Some hw \<Rightarrow> unat hw + 1 = unat c + m"
    "skipped_lookup (skipped b) p (c + of_nat k) = None"
    using assms unfolding in_sync_def by auto
  have u: "unat (c + of_nat k) = unat c + k" "unat (c + of_nat m) = unat c + m"
    using assms(2,3) by (auto intro!: unat_ctr)
  obtain M where tk: "skipped_take (skipped b) p (c + of_nat k) = (None, M)"
    using sync(2) cache.pull_val [of "skipped b" p "c + of_nat k"] by (metis prod.collapse)
  show ?thesis
  proof (cases "recv_high_water b")
    case None
    then have "c + of_nat m = 0" using sync(1) u(2) by (simp add: unat_eq_zero)
    with tk None show ?thesis by (simp add: receive_key_def)
  next
    case (Some hw)
    then have hw: "unat hw + 1 = unat c + m" using sync(1) by simp
    then have "unat hw + 1 < 2 ^ 64" using assms(2,3) by simp
    then have "unat (saturating_add hw 1) = unat hw + 1" by (simp add: saturating_add_def unat_word_ariths)
    with hw u(2) have "saturating_add hw 1 = c + of_nat m" by (simp add: word_unat_eq_iff)
    moreover have "\<not> c + of_nat k \<le> hw" using hw assms(2) by (simp add: word_le_nat_alt u(1))
    ultimately show ?thesis using tk Some by (simp add: receive_key_def)
  qed
qed

lemma receive_key_chain:
  assumes "in_sync C ck i c p N b D m" "m \<le> k" "k < N"
  shows "\<exists>M. receive_key C b p (c + of_nat k) = (Ok (chain_mk C ck i k),
       b\<lparr>recv_ck := chain_ck C ck i (Suc k), recv_sym_idx := i + of_nat (Suc k), skipped := M\<rparr>)
    \<and> skipped_len M = skipped_len (skipped b) + (k - m)
    \<and> (\<forall>j. unat c + j < 2 ^ 64 \<longrightarrow> skipped_lookup M p (c + of_nat j) =
          (if m \<le> j \<and> j < k then Some (chain_mk C ck i j) else skipped_lookup (skipped b) p (c + of_nat j)))"
proof -
  obtain M where fill: "fill_recv_gap_to_counter C b p (c + of_nat m) (c + of_nat k)
       = (Ok (), b\<lparr>recv_ck := chain_ck C ck i k, recv_sym_idx := i + of_nat k, skipped := M\<rparr>)"
    and M: "skipped_len M = skipped_len (skipped b) + (k - m)"
    "\<And>j. unat c + j < 2 ^ 64 \<Longrightarrow> skipped_lookup M p (c + of_nat j) =
          (if m \<le> j \<and> j < k then Some (chain_mk C ck i j) else skipped_lookup (skipped b) p (c + of_nat j))"
    by (rule fill_gap_sync [OF assms]) blast
  have u: "unat i + N < 2 ^ 64" "unat c + k < 2 ^ 64" using assms(1,3) by (simp_all add: in_sync_def)
  from u(1) have "gap_then_step C b p (c + of_nat m) (c + of_nat k) = (Ok (chain_mk C ck i k),
       b\<lparr>recv_ck := chain_ck C ck i (Suc k), recv_sym_idx := i + of_nat (Suc k), skipped := M\<rparr>)"
    using recv_step_mk_sync [of "b\<lparr>recv_ck := chain_ck C ck i k, recv_sym_idx := i + of_nat k, skipped := M\<rparr>" C ck i k]
      assms(3) by (simp add: gap_then_step_def fill)
  with receive_key_enters_gap [OF assms(1,2) u(2)] M show ?thesis by (intro exI [of _ M]) simp
qed

text \<open>Either way, in one statement.\<close>

lemma receive_key_sync:
  assumes "in_sync C ck i c p N b D m" "k < N" "k \<notin> D"
  obtains b2 where "receive_key C b p (c + of_nat k) = (Ok (chain_mk C ck i k), b2)"
    "recv_high_water b2 = recv_high_water b" "decrypted_counters b2 = decrypted_counters b"
    "peer_ratchet_pub b2 = peer_ratchet_pub b"
    "recv_ck b2 = chain_ck C ck i (max m (Suc k))" "recv_sym_idx b2 = i + of_nat (max m (Suc k))"
    "skipped_len (skipped b2) + (N - max m (Suc k)) \<le> Suc MAX_SKIP"
    "\<And>j. unat c + j < 2 ^ 64 \<Longrightarrow> skipped_lookup (skipped b2) p (c + of_nat j)
          = (if j < max m (Suc k) \<and> j \<notin> insert k D then Some (chain_mk C ck i j) else None)"
    "skipped_len (skipped b2) = (if k < m then skipped_len (skipped b) - 1 else skipped_len (skipped b) + (k - m))"
proof (cases "k < m")
  case True
  from receive_key_skipped [OF assms(1) True assms(3)] obtain M where
    M: "receive_key C b p (c + of_nat k) = (Ok (chain_mk C ck i k), b\<lparr>skipped := M\<rparr>)"
      "skipped_len M + 1 = skipped_len (skipped b)"
      "\<forall>j. unat c + j < 2 ^ 64 \<longrightarrow> skipped_lookup M p (c + of_nat j)
          = (if j = k then None else skipped_lookup (skipped b) p (c + of_nat j))" by blast
  show ?thesis
    by (rule that [OF M(1)]) (use True assms(1) M(2,3) in \<open>auto simp: in_sync_def max_absorb1\<close>)
next
  case False
  then have mk: "m \<le> k" by simp
  have sync: "D \<subseteq> {..<m}" "skipped_len (skipped b) + (N - m) \<le> Suc MAX_SKIP"
    "\<And>j. unat c + j < 2 ^ 64 \<Longrightarrow> skipped_lookup (skipped b) p (c + of_nat j)
       = (if j < m \<and> j \<notin> D then Some (chain_mk C ck i j) else None)"
    using assms(1) unfolding in_sync_def by auto
  obtain M where M: "receive_key C b p (c + of_nat k) = (Ok (chain_mk C ck i k),
       b\<lparr>recv_ck := chain_ck C ck i (Suc k), recv_sym_idx := i + of_nat (Suc k), skipped := M\<rparr>)"
    "skipped_len M = skipped_len (skipped b) + (k - m)"
    "\<And>j. unat c + j < 2 ^ 64 \<Longrightarrow> skipped_lookup M p (c + of_nat j) =
        (if m \<le> j \<and> j < k then Some (chain_mk C ck i j) else skipped_lookup (skipped b) p (c + of_nat j))"
    using receive_key_chain [OF assms(1) mk assms(2)] by auto
  have mx: "max m (Suc k) = Suc k" using mk by simp
  show ?thesis
    by (rule that [OF M(1)]) (use M(2,3) sync mk assms(2) in \<open>auto simp: mx subset_iff\<close>)
qed

text \<open>Marking message \<open>k\<close>: the window, the high water mark and the cache all move on.\<close>

lemma in_sync_mark:
  assumes "in_sync C ck i c p N b D m" "k < N" "k \<notin> D"
    and "wf_session b'" "recv_high_water b' = recv_high_water b" "decrypted_counters b' = decrypted_counters b"
    and "peer_ratchet_pub b' = Some p"
    and "recv_ck b' = chain_ck C ck i (max m (Suc k))" "recv_sym_idx b' = i + of_nat (max m (Suc k))"
    and "skipped_len (skipped b') + (N - max m (Suc k)) \<le> Suc MAX_SKIP"
    and "\<And>j. unat c + j < 2 ^ 64 \<Longrightarrow> skipped_lookup (skipped b') p (c + of_nat j)
          = (if j < max m (Suc k) \<and> j \<notin> insert k D then Some (chain_mk C ck i j) else None)"
  shows "in_sync C ck i c p N (mark_received b' (c + of_nat k)) (insert k D) (max m (Suc k))"
proof -
  let ?c = "c + of_nat k"
  have uk: "unat ?c = unat c + k" using assms(1,2) by (intro unat_ctr) (simp add: in_sync_def)
  have "unat (case recv_high_water b of Some h \<Rightarrow> max h ?c | None \<Rightarrow> ?c) + 1 = unat c + max m (Suc k)"
  proof (cases "recv_high_water b")
    case None
    with assms(1) uk show ?thesis by (simp add: in_sync_def)
  next
    case (Some hw)
    with assms(1) have "unat hw + 1 = unat c + m" by (simp add: in_sync_def)
    with Some uk show ?thesis by (auto simp: max_def word_le_nat_alt)
  qed
  moreover have "c + of_nat j \<noteq> ?c" if "j < N" "j \<noteq> k" for j
    using that assms(1,2) ctr_inj [of c j k] by (simp add: in_sync_def)
  ultimately show ?thesis
    using assms mark_received_wf [OF assms(4)] unfolding in_sync_def by (auto simp: max_def)
qed

definition opens :: "'r crypto \<Rightarrow> bytes \<Rightarrow> header \<Rightarrow> bytes \<Rightarrow> bytes \<Rightarrow> bool" where
  "opens C mk h padded pt \<longleftrightarrow> (\<exists>l. strip_outer_pad padded DATA_LOGICAL = Ok l
     \<and> xdecrypt C mk (nonce_data C mk h) (drop 24 l) (header_encode h) = Ok pt)"

text \<open>Receiving without a ratchet step leaves the send side and the identity of the session alone.\<close>

definition recv_frame :: "session \<Rightarrow> session \<Rightarrow> bool" where
  "recv_frame s s' \<longleftrightarrow> s' = s\<lparr>recv_ck := recv_ck s', recv_sym_idx := recv_sym_idx s', skipped := skipped s',
     peer_ratchet_pub := peer_ratchet_pub s', recv_high_water := recv_high_water s',
     decrypted_counters := decrypted_counters s', anchor := anchor s'\<rparr>"

lemma decrypt_data_outer_sync:
  assumes "crypto_lens C" "in_sync C ck i c p N b D m" "k < N" "k \<notin> D"
    and h: "wf_header h" "version h = 1" "hdr_typ h = 3" "hdr_session_id h = session_id b" "epoch_be h = epoch b"
      "counter_be h = c + of_nat k" "ratchet_pub h = p"
    and "opens C (chain_mk C ck i k) h padded pt" "length pt = 512" "m \<le> Suc (k + MAX_SKIP)"
  shows "\<exists>b'. decrypt_data_outer C b h padded r = (Ok pt, b', r)
    \<and> in_sync C ck i c p N b' (insert k D) (max m (Suc k)) \<and> recv_frame b b'
    \<and> skipped_len (skipped b') = (if k < m then skipped_len (skipped b) - 1 else skipped_len (skipped b) + (k - m))"
proof -
  let ?b1 = "b\<lparr>peer_ratchet_pub := Some p\<rparr>" and ?c = "c + of_nat k"
  note bnd = in_sync_bind [OF assms(2)]
  obtain b2 where k: "receive_key C ?b1 p ?c = (Ok (chain_mk C ck i k), b2)"
    and b2: "recv_high_water b2 = recv_high_water b" "decrypted_counters b2 = decrypted_counters b"
      "peer_ratchet_pub b2 = Some p"
      "recv_ck b2 = chain_ck C ck i (max m (Suc k))" "recv_sym_idx b2 = i + of_nat (max m (Suc k))"
      "skipped_len (skipped b2) + (N - max m (Suc k)) \<le> Suc MAX_SKIP"
      "\<And>j. unat c + j < 2 ^ 64 \<Longrightarrow> skipped_lookup (skipped b2) p (c + of_nat j)
          = (if j < max m (Suc k) \<and> j \<notin> insert k D then Some (chain_mk C ck i j) else None)"
    and len: "skipped_len (skipped b2) = (if k < m then skipped_len (skipped b) - 1 else skipped_len (skipped b) + (k - m))"
    by (rule receive_key_sync [OF bnd(2) assms(3,4)]) simp
  have "wf_session ?b1" "length p = 32" using bnd(2) by (simp_all add: in_sync_def)
  then have wf: "wf_session b2" using receive_key_wf [OF assms(1), of p ?b1 ?c] k by simp
  obtain l where "strip_outer_pad padded DATA_LOGICAL = Ok l"
    "xdecrypt C (chain_mk C ck i k) (nonce_data C (chain_mk C ck i k) h) (drop 24 l) (header_encode h) = Ok pt"
    using assms(12) by (auto simp: opens_def)
  then have "decrypt_data_outer C b h padded r = (Ok pt, mark_received b2 ?c, r)"
    using h in_sync_precheck [OF assms(2,3,4,14)] bnd(1) k assms(13)
    by (simp add: decrypt_data_outer_def decrypt_data_def try_into_array_def DATA_INNER_FIXED_def)
  moreover have "chain_frame ?b1 b2" using receive_key_frame [of ?b1 C p ?c] k by simp
  then have "recv_frame b (mark_received b2 ?c)" unfolding chain_frame_def recv_frame_def by (cases b; cases b2) simp
  ultimately show ?thesis using in_sync_mark [OF assms(2,3,4) wf b2] len by auto
qed

section \<open>Sending a batch, delivering a batch\<close>

primrec send_batch ::
  "'r crypto \<Rightarrow> session \<Rightarrow> bytes list \<Rightarrow> 'r \<Rightarrow> (SessionError + outer_record list) \<times> session \<times> 'r" where
  "send_batch C s [] r = (Ok [], s, r)"
| "send_batch C s (pt # pts) r =
     (case encrypt_data_plain512_outer C s pt r of
        (Inl e, s1, r1) \<Rightarrow> (Err e, s1, r1)
      | (Inr (h, p), s1, r1) \<Rightarrow>
          (case send_batch C s1 pts r1 of
             (Inl e, s2, r2) \<Rightarrow> (Err e, s2, r2)
           | (Inr recs, s2, r2) \<Rightarrow> (Ok (\<lparr>rec_header = h, payload = p\<rparr> # recs), s2, r2)))"

primrec deliver ::
  "'r crypto \<Rightarrow> session \<Rightarrow> outer_record list \<Rightarrow> u64 \<Rightarrow> 'r \<Rightarrow> (SessionError + InboundInner) list \<times> session \<times> 'r" where
  "deliver C s [] now r = ([], s, r)"
| "deliver C s (rec # recs) now r =
     (case handle_inbound_outer C s rec now r of
        (x, s1, r1) \<Rightarrow> (case deliver C s1 recs now r1 of (xs, s2, r2) \<Rightarrow> (x # xs, s2, r2)))"

lemma encrypt_data_outer_Ok:
  assumes "crypto_lens C" "aead_ok C" "length pt = 512"
    and "unat (send_wire_counter s) + 1 < 2 ^ 64" "unat (send_sym_idx s) + 1 < 2 ^ 64"
  shows "\<exists>padded s' r'. encrypt_data_plain512_outer C s pt r = (Ok (next_header s 3, padded), s', r')
    \<and> send_frame s s' \<and> send_wire_counter s' = send_wire_counter s + 1
    \<and> send_ck s' = chain_ck C (send_ck s) (send_sym_idx s) 1 \<and> send_sym_idx s' = send_sym_idx s + 1
    \<and> opens C (chain_mk C (send_ck s) (send_sym_idx s) 0) (next_header s 3) padded pt"
proof -
  let ?h = "next_header s 3" and ?mk = "chain_mk C (send_ck s) (send_sym_idx s) 0"
  let ?s1 = "s\<lparr>send_ck := chain_ck C (send_ck s) (send_sym_idx s) 1, send_sym_idx := send_sym_idx s + 1\<rparr>"
  let ?s2 = "?s1\<lparr>send_wire_counter := send_wire_counter s + 1,
     anchor := (anchor s)\<lparr>highest_wire_seen_be := max (highest_wire_seen_be (anchor s)) (send_wire_counter s)\<rparr>\<rparr>"
  have st: "send_step_mk C s = (Ok ?mk, ?s1)"
    using assms(5) by (simp add: send_step_mk_def chain_mk_def checked_add_def Let_def split_beta)
  have ad: "advance_wire_counter ?s1 = (Ok (), ?s2)"
    using assms(4) by (simp add: advance_wire_counter_def checked_add_def Let_def)
  obtain ct where ct: "encrypt_data_payload C ?mk ?h pt = Ok ct" "length ct = 528"
    "xdecrypt C ?mk (nonce_data C ?mk ?h) ct (header_encode ?h) = Ok pt"
    using xencrypt_xdecrypt [OF assms(2), of ?mk "nonce_data C ?mk ?h" pt "header_encode ?h"] assms(3)
    by (auto simp: encrypt_data_payload_def length_chain_mk [OF assms(1)] length_nonce_data [OF assms(1)])
  let ?l = "nonce_data C ?mk ?h @ ct"
  have l: "length ?l = DATA_LOGICAL" using ct(2) by (simp add: length_nonce_data [OF assms(1)] DATA_LOGICAL_def DATA_INNER_FIXED_def)
  obtain x r' where pad: "pad_outer (fill_bytes C) ?l r = (x, r')" by (cases "pad_outer (fill_bytes C) ?l r")
  have "\<exists>padded. x = Ok padded"
    using pad_outer_Ok_iff [of "fill_bytes C" ?l r] pad l
    by (auto simp: bucket_defs DATA_LOGICAL_def DATA_INNER_FIXED_def)
  then obtain padded where x: "x = Ok padded" by blast
  have "strip_outer_pad padded DATA_LOGICAL = Ok ?l"
    using strip_pad [OF crypto_lensD(7) [OF assms(1)], of ?l r padded] pad x l by simp
  then have "opens C ?mk ?h padded pt" using ct(3) by (auto simp: opens_def length_nonce_data [OF assms(1)])
  moreover have "next_header ?s1 3 = ?h" by (simp add: next_header_def)
  then have "encrypt_data_plain512_outer C s pt r = (Ok (?h, padded), ?s2, r')"
    using st ct(1) ad pad x by (simp add: encrypt_data_plain512_outer_def Let_def)
  ultimately show ?thesis by (auto simp: send_frame_def)
qed

lemma send_batch_Ok:
  assumes "crypto_lens C" "aead_ok C" "\<forall>pt \<in> set pts. length pt = 512"
    and "unat (send_wire_counter s) + length pts < 2 ^ 64" "unat (send_sym_idx s) + length pts < 2 ^ 64"
  shows "\<exists>recs s' r'. send_batch C s pts r = (Ok recs, s', r') \<and> length recs = length pts
    \<and> send_frame s s' \<and> send_wire_counter s' = send_wire_counter s + of_nat (length pts)
    \<and> send_ck s' = chain_ck C (send_ck s) (send_sym_idx s) (length pts)
    \<and> send_sym_idx s' = send_sym_idx s + of_nat (length pts)
    \<and> (\<forall>j < length pts. rec_header (recs ! j) = (next_header s 3)\<lparr>counter_be := send_wire_counter s + of_nat j\<rparr>
         \<and> opens C (chain_mk C (send_ck s) (send_sym_idx s) j) (rec_header (recs ! j)) (payload (recs ! j)) (pts ! j))"
  using assms(3-)
proof (induction pts arbitrary: s r)
  case Nil
  then show ?case by (simp add: send_frame_def)
next
  case (Cons pt pts)
  obtain padded s1 r1 where e: "encrypt_data_plain512_outer C s pt r = (Ok (next_header s 3, padded), s1, r1)"
    and s1: "send_frame s s1" "send_wire_counter s1 = send_wire_counter s + 1"
      "send_ck s1 = chain_ck C (send_ck s) (send_sym_idx s) 1" "send_sym_idx s1 = send_sym_idx s + 1"
    and op: "opens C (chain_mk C (send_ck s) (send_sym_idx s) 0) (next_header s 3) padded pt"
    using encrypt_data_outer_Ok [OF assms(1,2), of pt s r] Cons.prems by auto
  have u: "unat (send_wire_counter s1) = unat (send_wire_counter s) + 1" "unat (send_sym_idx s1) = unat (send_sym_idx s) + 1"
    using unat_ctr [of _ 1] Cons.prems(2,3) s1 by auto
  obtain recs s2 r2 where b: "send_batch C s1 pts r1 = (Ok recs, s2, r2)" "length recs = length pts"
    "send_frame s1 s2" "send_wire_counter s2 = send_wire_counter s1 + of_nat (length pts)"
    "send_ck s2 = chain_ck C (send_ck s1) (send_sym_idx s1) (length pts)"
    "send_sym_idx s2 = send_sym_idx s1 + of_nat (length pts)"
    "\<And>j. j < length pts \<Longrightarrow> rec_header (recs ! j) = (next_header s1 3)\<lparr>counter_be := send_wire_counter s1 + of_nat j\<rparr>
         \<and> opens C (chain_mk C (send_ck s1) (send_sym_idx s1) j) (rec_header (recs ! j)) (payload (recs ! j)) (pts ! j)"
    using Cons.IH [of s1 r1] Cons.prems u by auto
  have ck: "chain_ck C (send_ck s1) (send_sym_idx s1) n = chain_ck C (send_ck s) (send_sym_idx s) (Suc n)"
    "chain_mk C (send_ck s1) (send_sym_idx s1) n = chain_mk C (send_ck s) (send_sym_idx s) (Suc n)" for n
    using chain_shift [of C "send_ck s" "send_sym_idx s" n] chain_mk_shift [of C "send_ck s" "send_sym_idx s" n]
    by (simp_all add: s1)
  have nh: "(next_header s1 3)\<lparr>counter_be := d\<rparr> = (next_header s 3)\<lparr>counter_be := d\<rparr>" for d
    using s1(1) unfolding send_frame_def next_header_def by (cases s; cases s1) simp
  let ?recs = "\<lparr>rec_header = next_header s 3, payload = padded\<rparr> # recs"
  have each: "rec_header (?recs ! j) = (next_header s 3)\<lparr>counter_be := send_wire_counter s + of_nat j\<rparr>
      \<and> opens C (chain_mk C (send_ck s) (send_sym_idx s) j) (rec_header (?recs ! j)) (payload (?recs ! j)) ((pt # pts) ! j)"
    if "j < length (pt # pts)" for j
  proof (cases j)
    case 0
    with op show ?thesis by (simp add: next_header_def)
  next
    case (Suc j')
    with b(7) [of j'] that show ?thesis by (auto simp: ck nh s1(2) add.assoc)
  qed
  have "send_batch C s (pt # pts) r = (Ok ?recs, s2, r2)" using e b(1) by simp
  moreover have "send_frame s s2" using s1(1) b(3) by (rule send_frame_trans)
  moreover have "send_wire_counter s2 = send_wire_counter s + of_nat (length (pt # pts))"
    "send_sym_idx s2 = send_sym_idx s + of_nat (length (pt # pts))"
    "send_ck s2 = chain_ck C (send_ck s) (send_sym_idx s) (length (pt # pts))"
    using b(4-6) s1 ck(1) [of "length pts"] by (simp_all add: add.assoc)
  moreover have "length ?recs = length (pt # pts)" using b(2) by simp
  ultimately show ?case using each by blast
qed

section \<open>Paired sessions\<close>

text \<open>
  \<open>paired C a b\<close>: the receive side of \<open>b\<close> stands where the send side of \<open>a\<close> does, with nothing in
  flight from \<open>a\<close> to \<open>b\<close> that \<open>b\<close> has already stepped past under \<open>a\<close>'s ratchet key.
\<close>

definition paired :: "session \<Rightarrow> session \<Rightarrow> bool" where
  "paired a b \<longleftrightarrow> session_inv a \<and> session_inv b \<and> session_id b = session_id a \<and> epoch b = epoch a
     \<and> okm b = okm a \<and> recv_ck b = send_ck a \<and> recv_sym_idx b = send_sym_idx a
     \<and> (case recv_high_water b of None \<Rightarrow> unat (send_wire_counter a) = 0
         | Some hw \<Rightarrow> unat hw + 1 = unat (send_wire_counter a))
     \<and> (peer_ratchet_pub b = None \<or> peer_ratchet_pub b = Some (my_ratchet_pub a))
     \<and> (\<forall>c \<ge> send_wire_counter a. skipped_lookup (skipped b) (my_ratchet_pub a) c = None)"

lemma ge_as_ctr: "c \<le> d \<Longrightarrow> \<exists>j. d = c + of_nat j \<and> unat c + j < 2 ^ 64" for c d :: u64
  using unat_bound_u64 [of d] by (intro exI [of _ "unat (d - c)"] conjI, simp) (simp add: unat_sub word_le_nat_alt)

lemma paired_in_sync:
  assumes "paired a b" "skipped_len (skipped b) + N \<le> MAX_SKIP"
    and "unat (send_sym_idx a) + N < 2 ^ 64" "unat (send_wire_counter a) + N < 2 ^ 64"
  shows "in_sync C (send_ck a) (send_sym_idx a) (send_wire_counter a) (my_ratchet_pub a) N b {} 0"
proof -
  let ?c = "send_wire_counter a"
  have "skipped_lookup (skipped b) (my_ratchet_pub a) (?c + of_nat j) = None" if "unat ?c + j < 2 ^ 64" for j
    using assms(1) unat_ctr [OF that] by (simp add: paired_def word_le_nat_alt)
  moreover have "?c + of_nat j \<notin> decrypted_counters b" if "j < N" for j
  proof
    assume m: "?c + of_nat j \<in> decrypted_counters b"
    with assms(1) obtain hw where hw: "recv_high_water b = Some hw" "?c + of_nat j \<le> hw"
      by (auto simp: paired_def session_inv_def window_ok_def split: option.splits)
    then show False using assms(1,4) that unat_ctr [of ?c j] by (simp add: paired_def word_le_nat_alt)
  qed
  ultimately show ?thesis
    using assms unfolding in_sync_def paired_def session_inv_def by (auto simp: wf_session_def split: option.splits)
qed

text \<open>The dispatcher hands a valid DATA or REKEY record of the current epoch to its decrypt path.\<close>

lemma handle_inbound_pass:
  assumes "mode_ok s" "version h = 1" "hdr_typ h \<in> {3, 5}" "flags h = 0" "hdr_session_id h = session_id s"
    "epoch_be h = epoch s" "rec_header rec = h"
  shows "\<exists>m. mode_ok (s\<lparr>mode := m\<rparr>) \<and> handle_inbound_outer C s rec now r =
     (if hdr_typ h = 3
      then (case decrypt_data_outer C (s\<lparr>mode := m\<rparr>) h (payload rec) r of (res, s1, r1) \<Rightarrow> (map_ok Data res, s1, r1))
      else (case decrypt_rekey_ctrl_outer C (s\<lparr>mode := m\<rparr>) h (payload rec) r of
              (res, s1, r1) \<Rightarrow> (map_ok RekeyPlain res, s1, r1)))"
proof -
  obtain m where m: "maybe_expire_reset_pending s now = s\<lparr>mode := m\<rparr>" using maybe_expire_frame by blast
  have ok: "mode_ok (s\<lparr>mode := m\<rparr>)" using mode_ops_ok(5) [OF assms(1), of now] m by simp
  have "\<not> epoch s > saturating_add (epoch s) 1" by (simp add: not_less saturating_add_ge)
  moreover have "\<not> (case m of ResetPending old _ _ \<Rightarrow> epoch s = old | _ \<Rightarrow> False)"
    using ok by (auto simp: mode_ok_def split: SessionMode.splits)
  ultimately have "check_inbound_epoch_policy (s\<lparr>mode := m\<rparr>) h = Ok ()"
    using assms by (auto simp: check_inbound_epoch_policy_def Let_def split: SessionMode.splits)
  moreover have "validate_v0 h = Ok ()" using assms by (auto simp: validate_v0_Ok_iff)
  ultimately show ?thesis using ok assms m
    by (intro exI [of _ m]) (auto simp: handle_inbound_outer_def Let_def)
qed

lemma mode_ok_cong: "mode s = mode t \<Longrightarrow> epoch s = epoch t \<Longrightarrow> mode_ok s = mode_ok t"
  by (auto simp: mode_ok_def split: SessionMode.splits)

lemma in_sync_mode: "in_sync C ck i c p N b D m \<Longrightarrow> in_sync C ck i c p N (b\<lparr>mode := x\<rparr>) D m"
  by (auto simp: in_sync_def wf_session_def split: option.splits)

text \<open>Any order of delivery of the messages not yet received decrypts each of them.\<close>

lemma deliver_in_sync:
  assumes "crypto_lens C" "in_sync C ck i c p N b D m" "mode_ok b"
    and "distinct order" "set order \<subseteq> {..<N} - D" "N \<le> MAX_SKIP"
    and recs: "\<And>k. k < N \<Longrightarrow> wf_header (rec_header (recs ! k)) \<and> version (rec_header (recs ! k)) = 1
      \<and> hdr_typ (rec_header (recs ! k)) = 3 \<and> flags (rec_header (recs ! k)) = 0
      \<and> hdr_session_id (rec_header (recs ! k)) = session_id b \<and> epoch_be (rec_header (recs ! k)) = epoch b
      \<and> counter_be (rec_header (recs ! k)) = c + of_nat k \<and> ratchet_pub (rec_header (recs ! k)) = p
      \<and> opens C (chain_mk C ck i k) (rec_header (recs ! k)) (payload (recs ! k)) (pts ! k) \<and> length (pts ! k) = 512"
  shows "\<exists>b' m'. deliver C b (map (\<lambda>k. recs ! k) order) now r = (map (\<lambda>k. Ok (Data (pts ! k))) order, b', r)
    \<and> in_sync C ck i c p N b' (D \<union> set order) m' \<and> mode_ok b'
    \<and> session_id b' = session_id b \<and> epoch b' = epoch b"
  using assms(2-)
proof (induction order arbitrary: b D m)
  case Nil
  then show ?case by auto
next
  case (Cons k order)
  have k: "k < N" "k \<notin> D" using Cons.prems(4) by auto
  have mk: "m \<le> Suc (k + MAX_SKIP)" using Cons.prems(1,5) by (simp add: in_sync_def)
  note rk = Cons.prems(6) [OF k(1)]
  obtain x where x: "mode_ok (b\<lparr>mode := x\<rparr>)"
    and h: "handle_inbound_outer C b (recs ! k) now r =
     (case decrypt_data_outer C (b\<lparr>mode := x\<rparr>) (rec_header (recs ! k)) (payload (recs ! k)) r of
        (res, s1, r1) \<Rightarrow> (map_ok Data res, s1, r1))"
    using handle_inbound_pass [OF Cons.prems(2), of "rec_header (recs ! k)" "recs ! k" C now r] rk by auto
  obtain b1 where d: "decrypt_data_outer C (b\<lparr>mode := x\<rparr>) (rec_header (recs ! k)) (payload (recs ! k)) r
      = (Ok (pts ! k), b1, r)"
    and b1: "in_sync C ck i c p N b1 (insert k D) (max m (Suc k))"
    using decrypt_data_outer_sync [OF assms(1) in_sync_mode [OF Cons.prems(1), of x] k,
        of "rec_header (recs ! k)" "payload (recs ! k)" "pts ! k" r] rk mk by auto
  have fr: "mode b1 = x" "session_id b1 = session_id b" "epoch b1 = epoch b"
    using decrypt_data_outer_outcome [OF d] by (auto simp: received_def ratchet_frame_def)
  then have ok1: "mode_ok b1" using x mode_ok_cong [of b1 "b\<lparr>mode := x\<rparr>"] by simp
  have "\<exists>b' m'. deliver C b1 (map (\<lambda>k. recs ! k) order) now r = (map (\<lambda>k. Ok (Data (pts ! k))) order, b', r)
    \<and> in_sync C ck i c p N b' (insert k D \<union> set order) m' \<and> mode_ok b'
    \<and> session_id b' = session_id b1 \<and> epoch b' = epoch b1"
    using Cons.prems(3-) by (intro Cons.IH [OF b1 ok1]) (auto simp: fr)
  then show ?case using h d by (auto simp: fr)
qed

lemma deliver_frame:
  assumes "crypto_lens C" "deliver C b recs now r = (xs, b', r')" "session_inv b"
    "\<forall>rec \<in> set recs. wf_header (rec_header rec)"
  shows "session_inv b' \<and> session_id b' = session_id b \<and> epoch b' = epoch b \<and> okm b' = okm b \<and> role b' = role b"
  using assms(2-)
proof (induction recs arbitrary: b r xs)
  case (Cons rec recs)
  obtain x b1 r1 where h: "handle_inbound_outer C b rec now r = (x, b1, r1)"
    by (cases "handle_inbound_outer C b rec now r")
  obtain ys where d: "deliver C b1 recs now r1 = (ys, b', r')" using Cons.prems(1) h by (auto split: prod.splits)
  have "session_inv b1" using handle_inbound_inv [OF assms(1) _ Cons.prems(2) h] Cons.prems(3) by simp
  with Cons.IH [OF d] Cons.prems(3) handle_inbound_effect [OF h] show ?case by (simp add: step_effect_def)
qed auto

lemma next_header_wf: "wf_session s \<Longrightarrow> wf_header (next_header s ty)"
  by (simp add: wf_session_def wf_header_def next_header_def)

lemma send_frame_simps:
  assumes "send_frame s s'"
  shows "session_id s' = session_id s" "epoch s' = epoch s" "okm s' = okm s" "my_ratchet_pub s' = my_ratchet_pub s"
  using assms unfolding send_frame_def by (cases s; cases s'; simp)+

lemma send_batch_inv:
  assumes "crypto_lens C" "session_inv s" "send_batch C s pts r = (res, s', r')"
  shows "session_inv s'"
  using assms(2,3)
proof (induction pts arbitrary: s r res)
  case (Cons pt pts)
  obtain x s1 r1 where e: "encrypt_data_plain512_outer C s pt r = (x, s1, r1)"
    by (cases "encrypt_data_plain512_outer C s pt r")
  have "session_inv s1"
    using session_step_inv [OF assms(1) session_step.send_data_outer [OF e] Cons.prems(1)] .
  with Cons e show ?case by (auto split: sum.splits prod.splits)
qed simp

text \<open>When the receiver has seen everything up to \<open>m\<close>, it is paired with the sender after \<open>m\<close> messages.\<close>

lemma in_sync_paired:
  assumes sync: "in_sync C (send_ck a) (send_sym_idx a) (send_wire_counter a) (my_ratchet_pub a) N b {..<m} m"
    and inv: "session_inv a'" "session_inv b"
    and fr: "send_frame a a'" "session_id b = session_id a" "epoch b = epoch a" "okm b = okm a"
    and a': "send_wire_counter a' = send_wire_counter a + of_nat m" "send_sym_idx a' = send_sym_idx a + of_nat m"
      "send_ck a' = chain_ck C (send_ck a) (send_sym_idx a) m"
  shows "paired a' b"
proof -
  let ?c = "send_wire_counter a" and ?p = "my_ratchet_pub a"
  have uN: "unat (send_wire_counter a') = unat ?c + m" using sync unfolding a' by (intro unat_ctr) (simp add: in_sync_def)
  have "skipped_lookup (skipped b) ?p d = None" if le: "send_wire_counter a' \<le> d" for d
  proof -
    obtain j where j: "d = send_wire_counter a' + of_nat j" "unat (send_wire_counter a') + j < 2 ^ 64"
      using ge_as_ctr [OF le] by blast
    have "unat ?c + (m + j) < 2 ^ 64" using j(2) uN by simp
    then have "skipped_lookup (skipped b) ?p (?c + of_nat (m + j)) = None"
      using sync unfolding in_sync_def by (auto simp del: of_nat_add)
    then show ?thesis by (simp add: j(1) a'(1) add.assoc)
  qed
  then show ?thesis
    using sync inv fr a' uN send_frame_simps [OF fr(1)] unfolding paired_def in_sync_def
    by (auto split: option.splits)
qed

text \<open>One message, delivered in order, with room for \<open>N\<close> more.\<close>

lemma recv_frame_simps:
  assumes "recv_frame s s'"
  shows "session_id s' = session_id s" "epoch s' = epoch s" "okm s' = okm s" "mode s' = mode s"
  using assms unfolding recv_frame_def by (cases s; cases s'; simp)+

lemma data_received:
  assumes "crypto_lens C" "aead_ok C" "paired a b" "length pt = 512" "skipped_len (skipped b) + Suc N \<le> MAX_SKIP"
    and "unat (send_sym_idx a) + Suc N < 2 ^ 64" "unat (send_wire_counter a) + Suc N < 2 ^ 64"
  obtains p a' r' where "encrypt_data_plain512_outer C a pt r = (Ok (next_header a 3, p), a', r')" "send_frame a a'"
    "send_wire_counter a' = send_wire_counter a + 1" "send_sym_idx a' = send_sym_idx a + 1"
    "\<And>m r2. mode_ok (b\<lparr>mode := m\<rparr>) \<Longrightarrow> \<exists>b'. decrypt_data_outer C (b\<lparr>mode := m\<rparr>) (next_header a 3) p r2 = (Ok pt, b', r2)
       \<and> paired a' b' \<and> recv_frame (b\<lparr>mode := m\<rparr>) b' \<and> skipped_len (skipped b') + N \<le> MAX_SKIP"
proof -
  have inv: "session_inv a" "session_inv b" using assms(3) by (simp_all add: paired_def)
  let ?h = "next_header a 3"
  obtain p a' r' where e: "encrypt_data_plain512_outer C a pt r = (Ok (?h, p), a', r')" "send_frame a a'"
    "send_wire_counter a' = send_wire_counter a + 1" "send_ck a' = chain_ck C (send_ck a) (send_sym_idx a) 1"
    "send_sym_idx a' = send_sym_idx a + 1" "opens C (chain_mk C (send_ck a) (send_sym_idx a) 0) ?h p pt"
    using encrypt_data_outer_Ok [OF assms(1,2,4), of a r] assms(6,7) by auto
  have hwf: "wf_header ?h" by (rule next_header_wf [OF session_invD(1) [OF inv(1)]])
  have ia: "session_inv a'" by (rule session_step_inv [OF assms(1) session_step.send_data_outer [OF e(1)] inv(1)])
  have "\<exists>b'. decrypt_data_outer C (b\<lparr>mode := m\<rparr>) ?h p r2 = (Ok pt, b', r2) \<and> paired a' b' \<and> recv_frame (b\<lparr>mode := m\<rparr>) b'
      \<and> skipped_len (skipped b') + N \<le> MAX_SKIP" if ok: "mode_ok (b\<lparr>mode := m\<rparr>)" for m r2
  proof -
    note sync = in_sync_mode [OF paired_in_sync [OF assms(3,5,6,7), of C], of m]
    obtain b' where d: "decrypt_data_outer C (b\<lparr>mode := m\<rparr>) ?h p r2 = (Ok pt, b', r2)" "recv_frame (b\<lparr>mode := m\<rparr>) b'"
      and b': "in_sync C (send_ck a) (send_sym_idx a) (send_wire_counter a) (my_ratchet_pub a) (Suc N) b' {0} 1"
      and len: "skipped_len (skipped b') = skipped_len (skipped b)"
      using decrypt_data_outer_sync [OF assms(1) sync _ _ hwf, of 0 p pt r2] e(6) assms(3,4)
      by (auto simp: next_header_def paired_def)
    have "session_inv b'"
      by (rule session_step_inv [OF assms(1) session_step.recv_data_outer [OF hwf d(1)] session_inv_mode [OF inv(2) ok]])
    moreover have "{0} = {..<1 :: nat}" by auto
    ultimately have "paired a' b'"
      using b' e ia recv_frame_simps [OF d(2)] assms(3) by (intro in_sync_paired [of C a "Suc N" b' 1 a']) (auto simp: paired_def)
    with d len assms(5) show ?thesis by auto
  qed
  with e show thesis by (intro that)
qed

lemma data_in_order:
  assumes "crypto_lens C" "aead_ok C" "paired a b" "length pt = 512" "skipped_len (skipped b) + Suc N \<le> MAX_SKIP"
    and "unat (send_sym_idx a) + Suc N < 2 ^ 64" "unat (send_wire_counter a) + Suc N < 2 ^ 64"
  obtains p a' r' b' where "encrypt_data_plain512_outer C a pt r = (Ok (next_header a 3, p), a', r')"
    "handle_inbound_outer C b \<lparr>rec_header = next_header a 3, payload = p\<rparr> now r2 = (Ok (Data pt), b', r2)"
    "paired a' b'" "skipped_len (skipped b') + N \<le> MAX_SKIP" "send_wire_counter a' = send_wire_counter a + 1"
    "send_sym_idx a' = send_sym_idx a + 1" "send_frame a a'"
proof (rule data_received [OF assms, of r])
  fix p a' r'
  let ?rec = "\<lparr>rec_header = next_header a 3, payload = p\<rparr>"
  assume e: "encrypt_data_plain512_outer C a pt r = (Ok (next_header a 3, p), a', r')" "send_frame a a'"
      "send_wire_counter a' = send_wire_counter a + 1" "send_sym_idx a' = send_sym_idx a + 1"
    and d: "\<And>m r2. mode_ok (b\<lparr>mode := m\<rparr>) \<Longrightarrow> \<exists>b'. decrypt_data_outer C (b\<lparr>mode := m\<rparr>) (next_header a 3) p r2 = (Ok pt, b', r2)
       \<and> paired a' b' \<and> recv_frame (b\<lparr>mode := m\<rparr>) b' \<and> skipped_len (skipped b') + N \<le> MAX_SKIP"
  have "mode_ok b" using assms(3) by (simp add: paired_def session_inv_def)
  then obtain m where m: "mode_ok (b\<lparr>mode := m\<rparr>)" "handle_inbound_outer C b ?rec now r2
      = (case decrypt_data_outer C (b\<lparr>mode := m\<rparr>) (next_header a 3) p r2 of (res, s1, r1) \<Rightarrow> (map_ok Data res, s1, r1))"
    using handle_inbound_pass [of b "next_header a 3" ?rec C now r2] assms(3) by (auto simp: next_header_def paired_def)
  obtain b' where "decrypt_data_outer C (b\<lparr>mode := m\<rparr>) (next_header a 3) p r2 = (Ok pt, b', r2)" "paired a' b'"
    "skipped_len (skipped b') + N \<le> MAX_SKIP" using d [OF m(1)] by blast
  with m(2) e show thesis by (intro that [of p a' r' b']) simp_all
qed

section \<open>Bootstrap and REKEY\<close>

text \<open>Initiator and responder of one handshake are paired in both directions.\<close>

lemma bootstrap_paired:
  assumes "crypto_lens C" "length k = 64" "length sid = 16" "length ska = 32" "length skb = 32"
    "wf_anchor anca" "wf_anchor ancb"
    "pa = None \<or> pa = Some (x25519_public C skb)" "pb = None \<or> pb = Some (x25519_public C ska)"
  shows "paired (bootstrap_initiator C k sid e ska pa anca) (bootstrap_responder C k sid e skb pb ancb)"
    and "paired (bootstrap_responder C k sid e skb pb ancb) (bootstrap_initiator C k sid e ska pa anca)"
proof -
  have "session_inv (bootstrap_initiator C k sid e ska pa anca)"
    "session_inv (bootstrap_responder C k sid e skb pb ancb)"
    using assms by (auto intro!: bootstrap_inv simp: crypto_lensD split: option.splits)
  then show "paired (bootstrap_initiator C k sid e ska pa anca) (bootstrap_responder C k sid e skb pb ancb)"
    "paired (bootstrap_responder C k sid e skb pb ancb) (bootstrap_initiator C k sid e ska pa anca)"
    using assms(8,9)
    by (auto simp: paired_def bootstrap_initiator_def bootstrap_responder_def Let_def skipped_new_def skipped_lookup_def
        split: prod.splits)
qed

lemma encrypt_rekey_outer_Ok:
  assumes "crypto_lens C" "aead_ok C" "length body \<le> 256" "unat (send_wire_counter s) + 1 < 2 ^ 64"
  shows "\<exists>plain padded s' r' l. encrypt_rekey_ctrl_outer C s body r = (Ok (next_header s 5, padded), s', r')
    \<and> ctrl_inner_padded256 C body = Ok plain \<and> send_frame s s' \<and> send_wire_counter s' = send_wire_counter s + 1
    \<and> send_ck s' = send_ck s \<and> send_sym_idx s' = send_sym_idx s
    \<and> strip_outer_pad padded CTRL_LOGICAL = Ok l
    \<and> decrypt_ctrl_payload C (okm s) (next_header s 5) (drop 24 l) = Ok plain"
proof -
  let ?h = "next_header s 5"
  let ?n = "nonce_ctrl C (okm s) (hdr_typ ?h) (epoch_be ?h) (counter_be ?h) (hdr_session_id ?h)"
  let ?s1 = "s\<lparr>send_wire_counter := send_wire_counter s + 1,
     anchor := (anchor s)\<lparr>highest_wire_seen_be := max (highest_wire_seen_be (anchor s)) (send_wire_counter s)\<rparr>\<rparr>"
  obtain plain where plain: "ctrl_inner_padded256 C body = Ok plain" using ctrl_inner_padded256_Ok [OF assms(3)] by blast
  have "length plain = 256" using ctrl_inner_padded256_layout [OF assms(1) plain] by simp
  then obtain ct where ct: "encrypt_ctrl_payload C (okm s) ?h plain = Ok ct" "length ct = 272"
    "decrypt_ctrl_payload C (okm s) ?h ct = Ok plain"
    using ctrl_roundtrip [OF assms(1,2), of plain "okm s" ?h] by blast
  have ad: "advance_wire_counter s = (Ok (), ?s1)"
    using assms(4) by (simp add: advance_wire_counter_def checked_add_def Let_def)
  have l: "length (?n @ ct) = CTRL_LOGICAL" using ct(2) by (simp add: length_nonce_ctrl [OF assms(1)] CTRL_LOGICAL_def)
  obtain x r' where pad: "pad_outer (fill_bytes C) (?n @ ct) r = (x, r')"
    by (cases "pad_outer (fill_bytes C) (?n @ ct) r")
  have "\<exists>padded. x = Ok padded"
    using pad_outer_Ok_iff [of "fill_bytes C" "?n @ ct" r] pad l by (auto simp: bucket_defs CTRL_LOGICAL_def)
  then obtain padded where x: "x = Ok padded" by blast
  have "strip_outer_pad padded CTRL_LOGICAL = Ok (?n @ ct)"
    using strip_pad [OF crypto_lensD(7) [OF assms(1)], of "?n @ ct" r padded] pad x l by simp
  moreover have "drop 24 (?n @ ct) = ct" by (simp add: length_nonce_ctrl [OF assms(1)])
  moreover have "encrypt_rekey_ctrl_outer C s body r = (Ok (?h, padded), ?s1, r')"
    using plain ct(1) ad pad x by (simp add: encrypt_rekey_ctrl_outer_def Let_def)
  ultimately show ?thesis using plain ct(3) by (auto simp: send_frame_def)
qed

text \<open>A receiver that admits the counter accepts the REKEY record, whatever its chains.\<close>

lemma rekey_opens:
  assumes "session_id t = session_id a" "epoch t = epoch a" "okm t = okm a"
    and "peer_ratchet_pub t = None \<or> peer_ratchet_pub t = Some (my_ratchet_pub a)"
    and "replay_precheck t (send_wire_counter a) = Ok ()"
    and "strip_outer_pad padded CTRL_LOGICAL = Ok l" "decrypt_ctrl_payload C (okm a) (next_header a 5) (drop 24 l) = Ok plain"
  shows "decrypt_rekey_ctrl_outer C t (next_header a 5) padded r
    = (Ok plain, mark_received (t\<lparr>peer_ratchet_pub := Some (my_ratchet_pub a)\<rparr>) (send_wire_counter a), r)"
proof -
  have "t\<lparr>peer_ratchet_pub := Some (my_ratchet_pub a)\<rparr> = t" if "peer_ratchet_pub t = Some (my_ratchet_pub a)"
    using that by (cases t) simp
  then have "bind_or_dh_ratchet C t (my_ratchet_pub a) r = (Ok (), t\<lparr>peer_ratchet_pub := Some (my_ratchet_pub a)\<rparr>, r)"
    using assms(4) by (auto simp: bind_or_dh_ratchet_def)
  with assms show ?thesis by (simp add: decrypt_rekey_ctrl_outer_def next_header_def Let_def)
qed

lemma rekey_accepts:
  assumes "mode_ok t" "session_id t = session_id a" "epoch t = epoch a" "okm t = okm a"
    and "peer_ratchet_pub t = None \<or> peer_ratchet_pub t = Some (my_ratchet_pub a)"
    and "replay_precheck t (send_wire_counter a) = Ok ()"
    and "strip_outer_pad padded CTRL_LOGICAL = Ok l" "decrypt_ctrl_payload C (okm a) (next_header a 5) (drop 24 l) = Ok plain"
  obtains m where "handle_inbound_outer C t \<lparr>rec_header = next_header a 5, payload = padded\<rparr> now r
     = (Ok (RekeyPlain plain), mark_received (t\<lparr>mode := m, peer_ratchet_pub := Some (my_ratchet_pub a)\<rparr>)
          (send_wire_counter a), r)"
proof -
  let ?h = "next_header a 5"
  have ha: "version ?h = 1" "hdr_typ ?h = 5" "flags ?h = 0" "hdr_session_id ?h = session_id t" "epoch_be ?h = epoch t"
    using assms by (simp_all add: next_header_def)
  obtain m where m: "handle_inbound_outer C t \<lparr>rec_header = ?h, payload = padded\<rparr> now r
      = (case decrypt_rekey_ctrl_outer C (t\<lparr>mode := m\<rparr>) ?h padded r of (res, s1, r1) \<Rightarrow> (map_ok RekeyPlain res, s1, r1))"
    using handle_inbound_pass [OF assms(1), of ?h "\<lparr>rec_header = ?h, payload = padded\<rparr>" C now r] ha by auto
  have "replay_precheck (t\<lparr>mode := m\<rparr>) (send_wire_counter a) = Ok ()"
    using assms(6) by (auto simp: replay_precheck_def split: if_splits)
  then show thesis using m rekey_opens [of "t\<lparr>mode := m\<rparr>" a padded l C plain r] assms by (intro that [of m]) simp
qed

lemma paired_precheck: "paired a b \<Longrightarrow> replay_precheck b (send_wire_counter a) = Ok ()"
  by (fastforce simp: paired_def session_inv_def window_ok_def replay_precheck_def word_le_nat_alt word_less_nat_alt
      unat_saturating_sub split: option.splits)

text \<open>A REKEY in order keeps the sessions paired.\<close>

lemma paired_after_rekey:
  assumes "paired a b" "unat (send_wire_counter a) + 1 < 2 ^ 64" "session_inv a'" "send_frame a a'"
    and "send_wire_counter a' = send_wire_counter a + 1" "send_ck a' = send_ck a" "send_sym_idx a' = send_sym_idx a"
    and "b' = mark_received (b\<lparr>mode := m, peer_ratchet_pub := Some (my_ratchet_pub a)\<rparr>) (send_wire_counter a)"
    and "session_inv b'"
  shows "paired a' b'"
proof -
  let ?c = "send_wire_counter a"
  have u: "unat (?c + 1) = unat ?c + 1" using unat_ctr [of ?c 1] assms(2) by simp
  then have "\<forall>d \<ge> ?c + 1. skipped_lookup (skipped b) (my_ratchet_pub a) d = None"
    using assms(1) by (auto simp: paired_def word_le_nat_alt)
  moreover have "(case recv_high_water b of Some hw \<Rightarrow> max hw ?c | None \<Rightarrow> ?c) = ?c"
    using assms(1) by (auto simp: paired_def max_def word_le_nat_alt split: option.splits)
  ultimately show ?thesis
    using assms u send_frame_simps [OF assms(4)] unfolding paired_def by simp
qed

section \<open>A sample pair\<close>

text \<open>Two freshly bootstrapped sessions over \<open>sample_crypto\<close>.\<close>

definition sample_a :: session where
  "sample_a = bootstrap_initiator sample_crypto (replicate 64 1) (replicate 16 2) 0 (replicate 32 3) None (anchor_new_v0 0)"

definition sample_b :: session where
  "sample_b = bootstrap_responder sample_crypto (replicate 64 1) (replicate 16 2) 0 (replicate 32 4) None (anchor_new_v0 0)"

lemma sample_paired: "paired sample_a sample_b" "paired sample_b sample_a"
  unfolding sample_a_def sample_b_def by (rule bootstrap_paired; simp add: anchor_new_v0_def wf_anchor_def)+

lemma sample_fresh:
  "skipped_len (skipped sample_b) = 0" "send_sym_idx sample_a = 0" "send_wire_counter sample_a = 0"
  by (simp_all add: sample_a_def sample_b_def bootstrap_initiator_def bootstrap_responder_def skipped_new_def
      skipped_len_def Let_def split_beta)

section \<open>Delivery of a batch\<close>

lemma batch_delivery:
  assumes "crypto_lens C" "aead_ok C" "paired a b" "\<forall>pt \<in> set pts. length pt = 512"
    and "skipped_len (skipped b) + length pts \<le> MAX_SKIP"
    and "unat (send_sym_idx a) + length pts < 2 ^ 64" "unat (send_wire_counter a) + length pts < 2 ^ 64"
    and "distinct order" "set order \<subseteq> {..<length pts}"
  shows "\<exists>recs a' r' b'. send_batch C a pts r = (Ok recs, a', r') \<and> length recs = length pts
    \<and> deliver C b (map (\<lambda>k. recs ! k) order) now r2 = (map (\<lambda>k. Ok (Data (pts ! k))) order, b', r2)
    \<and> (set order = {..<length pts} \<longrightarrow> paired a' b')"
proof -
  have inv: "session_inv a" "session_inv b" using assms(3) by (simp_all add: paired_def)
  obtain recs a' r' where sb: "send_batch C a pts r = (Ok recs, a', r')" "length recs = length pts" "send_frame a a'"
      "send_wire_counter a' = send_wire_counter a + of_nat (length pts)"
      "send_ck a' = chain_ck C (send_ck a) (send_sym_idx a) (length pts)"
      "send_sym_idx a' = send_sym_idx a + of_nat (length pts)"
    and each: "\<And>j. j < length pts \<Longrightarrow>
      rec_header (recs ! j) = (next_header a 3)\<lparr>counter_be := send_wire_counter a + of_nat j\<rparr>
      \<and> opens C (chain_mk C (send_ck a) (send_sym_idx a) j) (rec_header (recs ! j)) (payload (recs ! j)) (pts ! j)"
    using send_batch_Ok [OF assms(1,2,4,7,6), of r] by auto
  have hd: "wf_header (rec_header (recs ! j))" if "j < length pts" for j
    using each [OF that] next_header_wf [OF session_invD(1) [OF inv(1)], of 3] by (simp add: wf_header_def)
  have rk: "wf_header (rec_header (recs ! k)) \<and> version (rec_header (recs ! k)) = 1
      \<and> hdr_typ (rec_header (recs ! k)) = 3 \<and> flags (rec_header (recs ! k)) = 0
      \<and> hdr_session_id (rec_header (recs ! k)) = session_id b \<and> epoch_be (rec_header (recs ! k)) = epoch b
      \<and> counter_be (rec_header (recs ! k)) = send_wire_counter a + of_nat k
      \<and> ratchet_pub (rec_header (recs ! k)) = my_ratchet_pub a
      \<and> opens C (chain_mk C (send_ck a) (send_sym_idx a) k) (rec_header (recs ! k)) (payload (recs ! k)) (pts ! k)
      \<and> length (pts ! k) = 512" if "k < length pts" for k
    using each [OF that] hd [OF that] assms(3,4) that nth_mem [OF that] by (auto simp: next_header_def paired_def)
  note sync = paired_in_sync [OF assms(3,5,6,7), of C]
  obtain b' m' where d: "deliver C b (map (\<lambda>k. recs ! k) order) now r2 = (map (\<lambda>k. Ok (Data (pts ! k))) order, b', r2)"
    and b': "in_sync C (send_ck a) (send_sym_idx a) (send_wire_counter a) (my_ratchet_pub a) (length pts) b'
       ({} \<union> set order) m'"
    using deliver_in_sync [OF assms(1) sync session_invD(2) [OF inv(2)] assms(8) _ _ rk, of now r2] assms(5,9) by auto
  have "paired a' b'" if "set order = {..<length pts}"
  proof (rule in_sync_paired)
    have "m' \<le> length pts" "set order \<subseteq> {..<m'}" using b' unfolding in_sync_def by auto
    with that have "m' = length pts" by auto
    with b' that show "in_sync C (send_ck a) (send_sym_idx a) (send_wire_counter a) (my_ratchet_pub a) (length pts) b'
       {..<length pts} (length pts)" by simp
    show "session_inv a'" by (rule send_batch_inv [OF assms(1) inv(1) sb(1)])
    have fr: "session_inv b' \<and> session_id b' = session_id b \<and> epoch b' = epoch b \<and> okm b' = okm b \<and> role b' = role b"
      using hd assms(9) by (intro deliver_frame [OF assms(1) d inv(2)]) auto
    then show "session_inv b'" "session_id b' = session_id a" "epoch b' = epoch a" "okm b' = okm a"
      using assms(3) by (simp_all add: paired_def)
  qed (use sb in auto)
  with sb d show ?thesis by blast
qed

section \<open>Properties\<close>

text \<open>C3: A batch of DATA messages sent by one of two paired sessions, at most \<open>MAX_SKIP\<close> = 2000 of them less the keys the
  receiver has cached already, is always accepted, in whatever order the network delivers it and with any messages
  missing: each delivered record decrypts to the plaintext it was made from.  When all have arrived the sessions are
  paired again.  (What happens beyond the bound is part of the channel refinement, \<open>Session_Channel\<close>.)\<close>

theorem out_of_order_delivery:
  assumes "crypto_lens C" "aead_ok C" "paired a b" "\<forall>pt \<in> set pts. length pt = 512"
    and "skipped_len (skipped b) + length pts \<le> MAX_SKIP"
    and "unat (send_sym_idx a) + length pts < 2 ^ 64" "unat (send_wire_counter a) + length pts < 2 ^ 64"
    and "distinct order" "set order \<subseteq> {..<length pts}"
  shows "\<exists>recs a' r' b'. send_batch C a pts r = (Ok recs, a', r') \<and> length recs = length pts
    \<and> deliver C b (map (\<lambda>k. recs ! k) order) now r2 = (map (\<lambda>k. Ok (Data (pts ! k))) order, b', r2)
    \<and> (set order = {..<length pts} \<longrightarrow> paired a' b')"
  by (rule batch_delivery [OF assms])

theorem out_of_order_delivery_witness:
  "\<exists>recs a' r' b'. send_batch sample_crypto sample_a [replicate 512 1, replicate 512 2, replicate 512 3] 0 = (Ok recs, a', r')
    \<and> deliver sample_crypto sample_b (map (\<lambda>k. recs ! k) [2, 0, 1]) 0 9
        = ([Ok (Data (replicate 512 3)), Ok (Data (replicate 512 1)), Ok (Data (replicate 512 2))], b', 9)
    \<and> paired a' b'"
proof -
  let ?pts = "[replicate 512 1, replicate 512 2, replicate 512 3]"
  have o: "set [2, 0, 1] = {..<length ?pts}" by auto
  obtain recs a' r' b' where "send_batch sample_crypto sample_a ?pts 0 = (Ok recs, a', r')"
    "deliver sample_crypto sample_b (map (\<lambda>k. recs ! k) [2, 0, 1]) 0 9 = (map (\<lambda>k. Ok (Data (?pts ! k))) [2, 0, 1], b', 9)"
    "paired a' b'"
    using out_of_order_delivery [OF sample_lens sample_aead sample_paired(1), of ?pts "[2, 0, 1]" 0 0 9] o
    by (auto simp: sample_fresh MAX_SKIP_def simp del: send_batch.simps deliver.simps list.map)
  then show ?thesis by (auto simp del: send_batch.simps deliver.simps)
qed

text \<open>A REKEY control message delivered in order between paired sessions is accepted, its body arrives
  intact in front of the padding, and the sessions stay paired.\<close>

lemma rekey_in_order:
  assumes "crypto_lens C" "aead_ok C" "paired a b" "length body \<le> 256" "unat (send_wire_counter a) + 1 < 2 ^ 64"
  shows "\<exists>h p a' r' plain b'. encrypt_rekey_ctrl_outer C a body r = (Ok (h, p), a', r')
    \<and> handle_inbound_outer C b \<lparr>rec_header = h, payload = p\<rparr> now r2 = (Ok (RekeyPlain plain), b', r2)
    \<and> length plain = 256 \<and> take (length body) plain = body \<and> paired a' b'"
proof -
  have inv: "session_inv a" "session_inv b" using assms(3) by (simp_all add: paired_def)
  obtain plain padded a' r' l where e: "encrypt_rekey_ctrl_outer C a body r = (Ok (next_header a 5, padded), a', r')"
    and pl: "ctrl_inner_padded256 C body = Ok plain"
    and a': "send_frame a a'" "send_wire_counter a' = send_wire_counter a + 1" "send_ck a' = send_ck a"
      "send_sym_idx a' = send_sym_idx a"
    and l: "strip_outer_pad padded CTRL_LOGICAL = Ok l"
      "decrypt_ctrl_payload C (okm a) (next_header a 5) (drop 24 l) = Ok plain"
    using encrypt_rekey_outer_Ok [OF assms(1,2,4,5), of r] by blast
  obtain m where d: "handle_inbound_outer C b \<lparr>rec_header = next_header a 5, payload = padded\<rparr> now r2
     = (Ok (RekeyPlain plain), mark_received (b\<lparr>mode := m, peer_ratchet_pub := Some (my_ratchet_pub a)\<rparr>)
          (send_wire_counter a), r2)"
    using rekey_accepts [OF session_invD(2) [OF inv(2)] _ _ _ _ paired_precheck [OF assms(3)] l] assms(3)
    unfolding paired_def by metis
  have "session_inv (mark_received (b\<lparr>mode := m, peer_ratchet_pub := Some (my_ratchet_pub a)\<rparr>) (send_wire_counter a))"
    using handle_inbound_inv [OF assms(1) _ inv(2) d] next_header_wf [OF session_invD(1) [OF inv(1)]] by simp
  moreover have "session_inv a'" using session_step_inv [OF assms(1) session_step.send_rekey_outer [OF e] inv(1)] .
  ultimately have "paired a' (mark_received (b\<lparr>mode := m, peer_ratchet_pub := Some (my_ratchet_pub a)\<rparr>) (send_wire_counter a))"
    using paired_after_rekey [OF assms(3,5) _ a' refl] by blast
  with e d ctrl_inner_padded256_layout [OF assms(1) pl] show ?thesis by blast
qed

lemma rekey_in_order_witness:
  "\<exists>h p a' r' plain b'. encrypt_rekey_ctrl_outer sample_crypto sample_a [1, 2, 3, 4] 0 = (Ok (h, p), a', r')
    \<and> handle_inbound_outer sample_crypto sample_b \<lparr>rec_header = h, payload = p\<rparr> 0 9 = (Ok (RekeyPlain plain), b', 9)
    \<and> length plain = 256 \<and> take (length [1, 2, 3, 4 :: byte]) plain = [1, 2, 3, 4] \<and> paired a' b'"
  by (rule rekey_in_order [OF sample_lens sample_aead sample_paired(1)]) (simp_all add: sample_fresh)

end
