(* ===== verification/Wire_Relay.thy ===== *)
theory Wire_Relay
  imports Wire_Records
begin

text \<open>
  \<^verbatim>\<open>crates/libgary-wire/src/relay.rs\<close>: the envelope a client submits to the relay.  The logical form is a
  canonical codec; the wire form is the logical form under \<open>PAD()\<close>, from which the receiver recovers
  the logical length by reading the length fields.
\<close>

section \<open>Definitions\<close>

record relay_outer_envelope =
  route_token :: bytes
  opaque_bytes :: bytes

definition encode_logical :: "relay_outer_envelope \<Rightarrow> WireError + bytes" where
  "encode_logical e =
     (if length (route_token e) > MAX_ROUTE_TOKEN_LEN then Err RouteTokenTooLong
      else let ol = length (opaque_bytes e) in
        if ol \<ge> 2 ^ 32 then Err OpaqueTooLarge
        else if MAX_OUTER_RECORD_SERIALIZED < ol then Err OpaqueTooLarge
        else result_bind
          (ok_or OpaqueTooLarge
            (Option.bind (checked_add_usize 1 2) (\<lambda>x.
             Option.bind (checked_add_usize x (length (route_token e))) (\<lambda>x.
             Option.bind (checked_add_usize x 4) (\<lambda>x. checked_add_usize x ol)))))
          (\<lambda>logical_len.
            Ok ([RELAY_VERSION_V0] @ to_be_bytes (of_nat (length (route_token e)) :: u16)
                @ route_token e @ to_be_bytes (of_nat ol :: u32) @ opaque_bytes e)))"

definition decode_logical :: "bytes \<Rightarrow> WireError + relay_outer_envelope" where
  "decode_logical b =
     (if length b < 1 + 2 + 4 then Err Truncated
      else if b ! 0 \<noteq> RELAY_VERSION_V0 then Err InvalidRelayVersion
      else let route_token_len = unat (from_be_bytes (bslice 1 3 b) :: u16) in
        if route_token_len > MAX_ROUTE_TOKEN_LEN then Err RouteTokenTooLong
        else result_bind (ok_or Truncated (checked_add_usize 3 route_token_len)) (\<lambda>header_end.
          if length b < saturating_add_usize header_end 4 then Err Truncated
          else let rt = bslice 3 header_end b;
                   opaque_len = unat (from_be_bytes (bslice header_end (header_end + 4) b) :: u32)
            in result_bind
                 (ok_or OpaqueTooLarge
                   (Option.bind (checked_add_usize header_end 4) (\<lambda>x. checked_add_usize x opaque_len)))
                 (\<lambda>logical_total.
                   if logical_total \<noteq> length b then Err OpaqueLengthMismatch
                   else if opaque_len > MAX_OUTER_RECORD_SERIALIZED then Err OpaqueTooLarge
                   else Ok \<lparr>route_token = rt, opaque_bytes = drop (header_end + 4) b\<rparr>)))"

definition logical_len_from_prefix :: "bytes \<Rightarrow> WireError + nat" where
  "logical_len_from_prefix b =
     (if length b < 1 + 2 + 4 then Err Truncated
      else if b ! 0 \<noteq> RELAY_VERSION_V0 then Err InvalidRelayVersion
      else let route_token_len = unat (from_be_bytes (bslice 1 3 b) :: u16) in
        if route_token_len > MAX_ROUTE_TOKEN_LEN then Err RouteTokenTooLong
        else result_bind (ok_or Truncated (checked_add_usize 3 route_token_len)) (\<lambda>ol_pos.
          if length b < saturating_add_usize ol_pos 4 then Err Truncated
          else let opaque_len = unat (from_be_bytes (bslice ol_pos (ol_pos + 4) b) :: u32)
            in ok_or OpaqueTooLarge
                 (Option.bind (checked_add_usize ol_pos 4) (\<lambda>x. checked_add_usize x opaque_len))))"

definition encode_padded_wire ::
  "('r \<Rightarrow> nat \<Rightarrow> bytes \<times> 'r) \<Rightarrow> relay_outer_envelope \<Rightarrow> 'r \<Rightarrow> (WireError + bytes) \<times> 'r" where
  "encode_padded_wire fill e r =
     (case encode_logical e of Inl err \<Rightarrow> (Err err, r) | Inr logical \<Rightarrow> pad_outer fill logical r)"

definition decode_padded_wire :: "bytes \<Rightarrow> WireError + relay_outer_envelope" where
  "decode_padded_wire padded =
     result_bind (logical_len_from_prefix padded) (\<lambda>logical_total.
       if logical_total > length padded then Err Truncated
       else result_bind (ok_or LogicalTooLarge (smallest_padding_bucket logical_total)) (\<lambda>bucket.
         if length padded \<noteq> bucket then Err PaddingBucketMismatch
         else decode_logical (take logical_total padded)))"

section \<open>The layout of the logical form\<close>

definition relay_limits :: "relay_outer_envelope \<Rightarrow> bool" where
  "relay_limits e \<longleftrightarrow> length (route_token e) \<le> MAX_ROUTE_TOKEN_LEN
     \<and> length (opaque_bytes e) \<le> MAX_OUTER_RECORD_SERIALIZED"

definition relay_layout :: "relay_outer_envelope \<Rightarrow> bytes" where
  "relay_layout e = [RELAY_VERSION_V0] @ to_be_bytes (of_nat (length (route_token e)) :: u16)
     @ route_token e @ to_be_bytes (of_nat (length (opaque_bytes e)) :: u32) @ opaque_bytes e"

lemmas relay_bounds = MAX_ROUTE_TOKEN_LEN_def MAX_OUTER_RECORD_SERIALIZED_def MAX_RECORD_BODY_LEN_def
  usize_bound_def

lemma encode_logical_Ok_iff:
  "encode_logical e = Ok b \<longleftrightarrow> relay_limits e \<and> b = relay_layout e"
  by (auto simp: encode_logical_def relay_limits_def relay_layout_def Let_def checked_add_usize_def
      relay_bounds)

lemma length_relay_layout [lens]:
  "length (relay_layout e) = 7 + length (route_token e) + length (opaque_bytes e)"
  by (simp add: relay_layout_def)

text \<open>What the length-field parser reads off any byte string that starts with a logical form.\<close>

lemma relay_layout_tail:
  "drop (3 + length (route_token e)) (relay_layout e @ tail)
     = to_be_bytes (of_nat (length (opaque_bytes e)) :: u32) @ opaque_bytes e @ tail"
  "drop (7 + length (route_token e)) (relay_layout e) = opaque_bytes e"
proof -
  have "relay_layout e = ([RELAY_VERSION_V0] @ to_be_bytes (of_nat (length (route_token e)) :: u16)
      @ route_token e) @ to_be_bytes (of_nat (length (opaque_bytes e)) :: u32) @ opaque_bytes e"
    (is "_ = ?pre @ ?post") by (simp add: relay_layout_def)
  moreover have "length ?pre = 3 + length (route_token e)" by simp
  ultimately show "drop (3 + length (route_token e)) (relay_layout e @ tail)
     = to_be_bytes (of_nat (length (opaque_bytes e)) :: u32) @ opaque_bytes e @ tail"
    "drop (7 + length (route_token e)) (relay_layout e) = opaque_bytes e"
    by (simp_all only: drop_append) simp_all
qed

lemma relay_layout_fields:
  assumes "relay_limits e"
  shows "(relay_layout e @ tail) ! 0 = RELAY_VERSION_V0"
    and "unat (from_be_bytes (bslice 1 3 (relay_layout e @ tail)) :: u16) = length (route_token e)"
    and "bslice 3 (3 + length (route_token e)) (relay_layout e @ tail) = route_token e"
    and "unat (from_be_bytes (bslice (3 + length (route_token e)) (7 + length (route_token e))
           (relay_layout e @ tail)) :: u32) = length (opaque_bytes e)"
proof -
  show "(relay_layout e @ tail) ! 0 = RELAY_VERSION_V0"
    and "unat (from_be_bytes (bslice 1 3 (relay_layout e @ tail)) :: u16) = length (route_token e)"
    and "bslice 3 (3 + length (route_token e)) (relay_layout e @ tail) = route_token e"
    using assms by (simp_all add: relay_layout_def bslice_def relay_limits_def relay_bounds unat_of_nat)
  show "unat (from_be_bytes (bslice (3 + length (route_token e)) (7 + length (route_token e))
           (relay_layout e @ tail)) :: u32) = length (opaque_bytes e)"
    using assms unfolding bslice_def relay_layout_tail(1)
    by (simp add: relay_limits_def relay_bounds unat_of_nat)
qed

lemma logical_len_from_prefix_layout:
  "relay_limits e \<Longrightarrow> logical_len_from_prefix (relay_layout e @ tail) = Ok (length (relay_layout e))"
  using relay_layout_fields [of e, where tail = tail]
  by (simp add: logical_len_from_prefix_def Let_def checked_add_usize_def saturating_add_usize_def
      length_relay_layout relay_limits_def relay_bounds)

lemma decode_logical_layout: "relay_limits e \<Longrightarrow> decode_logical (relay_layout e) = Ok e"
  using relay_layout_fields [of e, where tail = "[]"] relay_layout_tail(2) [of e]
  by (simp add: decode_logical_def Let_def checked_add_usize_def saturating_add_usize_def
      length_relay_layout relay_limits_def relay_bounds)

lemma decode_logical_canonical:
  assumes "decode_logical b = Ok e"
  shows "relay_limits e \<and> relay_layout e = b"
proof -
  let ?t = "unat (from_be_bytes (bslice 1 3 b) :: u16)"
  let ?n = "unat (from_be_bytes (bslice (3 + ?t) (3 + ?t + 4) b) :: u32)"
  have ver: "b ! 0 = RELAY_VERSION_V0" and t: "?t \<le> 512" and lb: "length b = 3 + ?t + 4 + ?n"
    and n: "?n \<le> 1048580" and rt: "route_token e = bslice 3 (3 + ?t) b"
    and ob: "opaque_bytes e = drop (3 + ?t + 4) b"
    using assms
    by (auto simp: decode_logical_def Let_def checked_add_usize_def saturating_add_usize_def relay_bounds
        split: if_splits)
  have lrt: "length (route_token e) = ?t" and lob: "length (opaque_bytes e) = ?n"
    using lb by (simp_all add: rt ob)
  have "relay_layout e = bslice 0 1 b @ bslice 1 3 b @ bslice 3 (3 + ?t) b
      @ bslice (3 + ?t) (3 + ?t + 4) b @ bslice (3 + ?t + 4) (length b) b"
  proof -
    have "[RELAY_VERSION_V0] = bslice 0 1 b" using bslice_nth [of 0 b] lb ver by fastforce
    moreover have "to_be_bytes (of_nat ?t :: u16) = bslice 1 3 b" using lb by simp
    moreover have "to_be_bytes (of_nat ?n :: u32) = bslice (3 + ?t) (3 + ?t + 4) b" using lb by simp
    ultimately show ?thesis
      unfolding relay_layout_def lrt lob by (simp only: rt ob bslice_drop order_refl)
  qed
  also have "\<dots> = bslice 0 (length b) b" using lb by (simp add: bslice_append)
  finally show ?thesis using t n lrt lob by (simp add: bslice_full relay_limits_def relay_bounds)
qed

interpretation relay: canonical_codec encode_logical decode_logical "\<lambda>_. True"
  by unfold_locales
    (auto simp: encode_logical_Ok_iff decode_logical_layout dest: decode_logical_canonical)

lemma decode_padded_layout:
  assumes "relay_limits e" "smallest_padding_bucket (length (relay_layout e)) = Some (length p)"
    and "p = relay_layout e @ tail"
  shows "decode_padded_wire p = Ok e"
  using assms logical_len_from_prefix_layout [of e tail]
  by (simp add: decode_padded_wire_def decode_logical_layout)

lemma padded_wire_trip:
  assumes "rng_fills fill" "relay_limits e" "smallest_padding_bucket (length (relay_layout e)) = Some b"
  shows "\<exists>p. fst (encode_padded_wire fill e r) = Ok p \<and> length p = b \<and> decode_padded_wire p = Ok e"
proof -
  have enc: "encode_padded_wire fill e r = pad_outer fill (relay_layout e) r"
    using assms(2) by (simp add: encode_padded_wire_def encode_logical_Ok_iff [THEN iffD2])
  obtain p t where p: "fst (pad_outer fill (relay_layout e) r) = Ok p" "p = relay_layout e @ t"
    using assms(3) by (auto simp: pad_outer_Ok_iff)
  with assms show ?thesis using pad_outer_length [OF assms(1) p(1)] decode_padded_layout [OF assms(2), of p t] by (auto simp: enc)
qed

section \<open>Properties\<close>

text \<open>The logical relay envelope is canonical: a byte string decodes to an envelope exactly when the
  envelope encodes to it.\<close>

lemma relay_logical_codec:
  "decode_logical b = Ok e \<longleftrightarrow> encode_logical e = Ok b"
  using relay.dec_Ok_iff by simp

text \<open>C25: What a client submits to the relay is read back: padded encoding succeeds exactly when the
  route token and the payload are within their limits and the whole fits the largest bucket; the padded
  message has a bucket length, and decoding it recovers the envelope from the length fields alone.\<close>

theorem relay_padded_roundtrip:
  assumes "rng_fills fill"
  shows "((\<exists>p. fst (encode_padded_wire fill e r) = Ok p) \<longleftrightarrow>
      length (route_token e) \<le> 512 \<and> length (opaque_bytes e) \<le> 32761 - length (route_token e)) \<and>
    (\<forall>p. fst (encode_padded_wire fill e r) = Ok p \<longrightarrow>
      length p \<in> set PADDING_BUCKETS \<and> decode_padded_wire p = Ok e)"
proof (cases "relay_limits e")
  case True
  then have enc: "encode_padded_wire fill e r = pad_outer fill (relay_layout e) r"
    by (simp add: encode_padded_wire_def encode_logical_Ok_iff [THEN iffD2])
  have "decode_padded_wire p = Ok e \<and> length p \<in> set PADDING_BUCKETS"
    if p: "fst (pad_outer fill (relay_layout e) r) = Ok p" for p
  proof -
    obtain t where "p = relay_layout e @ t" using p by (auto simp: pad_outer_Ok_iff)
    with True show ?thesis
      using decode_padded_layout pad_outer_length [OF assms p] bucket_Some_bounds by blast
  qed
  moreover have "(\<exists>p. fst (pad_outer fill (relay_layout e) r) = Ok p) \<longleftrightarrow> \<not> 32768 < length (relay_layout e)"
    by (metis bucket_None_iff not_Some_eq pad_outer_Ok_iff)
  ultimately show ?thesis using True
    by (auto simp: enc length_relay_layout relay_limits_def relay_bounds)
next
  case False
  then obtain err where "encode_logical e = Err err"
    by (metis encode_logical_Ok_iff old.sum.exhaust)
  with False show ?thesis
    by (auto simp: encode_padded_wire_def relay_limits_def relay_bounds)
qed

theorem relay_padded_roundtrip_witness:
  "\<exists>p. fst (encode_padded_wire (\<lambda>r n. (replicate n 7, r)) \<lparr>route_token = [1, 2], opaque_bytes = [3]\<rparr> ()) = Ok p
     \<and> decode_padded_wire p = Ok \<lparr>route_token = [1, 2], opaque_bytes = [3]\<rparr>"
proof -
  have "rng_fills (\<lambda>r n. (replicate n 7, r :: unit))" by (simp add: rng_fills_def)
  from relay_padded_roundtrip [OF this, of "\<lparr>route_token = [1, 2], opaque_bytes = [3]\<rparr>" "()"] show ?thesis by auto
qed

end
