(* ===== verification/Handshake_Flow.thy ===== *)
theory Handshake_Flow
  imports Session_Sync Wire_Relay
begin

text \<open>
  The handshake put together from the functions of \<^verbatim>\<open>libgary-core\<close> and \<^verbatim>\<open>libgary-wire\<close>, the way the transcript
  driver \<^verbatim>\<open>libgary-core/tests/full_transcript.rs\<close> does, for arbitrary keys, bodies and random generators: the initiator
  offers INIT, the responder opens it and answers INIT_ACK, the initiator checks the confirmation MAC, and both
  bootstrap a session; RESET_INIT and RESET_ACK go the same way with their own transcripts, nonces and associated data.
  \<open>None\<close> is a failed \<open>unwrap\<close> or assertion.
\<close>

section \<open>The two handshakes\<close>

datatype hs_kind = Initial | Reset

fun hs_th0 :: "'r crypto \<Rightarrow> hs_kind \<Rightarrow> bytes \<Rightarrow> bytes" where
  "hs_th0 C Initial b = th0 C b"
| "hs_th0 C Reset b = th0_reset C b"

fun hs_th1 :: "'r crypto \<Rightarrow> hs_kind \<Rightarrow> bytes \<Rightarrow> init_ack_core \<Rightarrow> bytes" where
  "hs_th1 C Initial t0 core = th1 C t0 core"
| "hs_th1 C Reset t0 core = th1_reset C t0 core"

fun hs_init_type :: "hs_kind \<Rightarrow> byte" where
  "hs_init_type Initial = 0x01"
| "hs_init_type Reset = 0x07"

fun hs_ack_type :: "hs_kind \<Rightarrow> byte" where
  "hs_ack_type Initial = 0x02"
| "hs_ack_type Reset = 0x08"

fun hs_nonce_init :: "'r crypto \<Rightarrow> hs_kind \<Rightarrow> bytes \<Rightarrow> bytes \<Rightarrow> u32 \<Rightarrow> bytes \<Rightarrow> bytes" where
  "hs_nonce_init C Initial = nonce_init C"
| "hs_nonce_init C Reset = nonce_reset_init C"

fun hs_nonce_ack :: "'r crypto \<Rightarrow> hs_kind \<Rightarrow> bytes \<Rightarrow> u32 \<Rightarrow> bytes \<Rightarrow> bytes" where
  "hs_nonce_ack C Initial = nonce_ack C"
| "hs_nonce_ack C Reset = nonce_reset_ack C"

fun hs_seal_init :: "'r crypto \<Rightarrow> hs_kind \<Rightarrow> bytes \<Rightarrow> bytes \<Rightarrow> u32 \<Rightarrow> bytes \<Rightarrow> bytes \<Rightarrow> AeadError + bytes" where
  "hs_seal_init C Initial = encrypt_init_inner C"
| "hs_seal_init C Reset = encrypt_reset_init_inner C"

fun hs_open_init :: "'r crypto \<Rightarrow> hs_kind \<Rightarrow> bytes \<Rightarrow> bytes \<Rightarrow> u32 \<Rightarrow> bytes \<Rightarrow> bytes \<Rightarrow> bytes \<Rightarrow> AeadError + bytes" where
  "hs_open_init C Initial = decrypt_init_inner C"
| "hs_open_init C Reset = decrypt_reset_init_inner C"

fun hs_seal_ack :: "'r crypto \<Rightarrow> hs_kind \<Rightarrow> bytes \<Rightarrow> bytes \<Rightarrow> u32 \<Rightarrow> bytes \<Rightarrow> bytes \<Rightarrow> AeadError + bytes" where
  "hs_seal_ack C Initial = encrypt_ack_inner C"
| "hs_seal_ack C Reset = encrypt_reset_ack_inner C"

fun hs_open_ack :: "'r crypto \<Rightarrow> hs_kind \<Rightarrow> bytes \<Rightarrow> u32 \<Rightarrow> bytes \<Rightarrow> bytes \<Rightarrow> bytes \<Rightarrow> AeadError + bytes" where
  "hs_open_ack C Initial = decrypt_ack_inner C"
| "hs_open_ack C Reset = decrypt_reset_ack_inner C"

section \<open>The driver\<close>

definition LOG_INIT :: nat where "LOG_INIT = 100 + 24 + 272"
definition LOG_ACK :: nat where "LOG_ACK = 88 + 24 + 272"

definition unwrap :: "'e + 'a \<Rightarrow> 'a option" where
  "unwrap x = (case x of Inl _ \<Rightarrow> None | Inr v \<Rightarrow> Some v)"

lemma unwrap_simps [simp]: "unwrap (Err e) = None" "unwrap (Ok v) = Some v"
  by (simp_all add: unwrap_def)

definition relay_roundtrip :: "'r crypto \<Rightarrow> bytes \<Rightarrow> 'r \<Rightarrow> (bytes \<times> 'r) option" where
  "relay_roundtrip C opaque r =
     (case encode_padded_wire (fill_bytes C) \<lparr>route_token = [0x01, 0x02, 0xfe], opaque_bytes = opaque\<rparr> r of (p, r1) \<Rightarrow>
        Option.bind (unwrap p) (\<lambda>padded.
        Option.bind (unwrap (decode_padded_wire padded)) (\<lambda>e. Some (opaque_bytes e, r1))))"

definition hs_header :: "byte \<Rightarrow> u32 \<Rightarrow> bytes \<Rightarrow> bytes \<Rightarrow> header" where
  "hs_header ty e sid pub = \<lparr>version = 1, hdr_typ = ty, flags = 0, epoch_be = e, hdr_session_id = sid, counter_be = 0, ratchet_pub = pub\<rparr>"

text \<open>Padding, the outer record and the relay envelope around a logical payload.\<close>

definition send_outer :: "'r crypto \<Rightarrow> header \<Rightarrow> bytes \<Rightarrow> 'r \<Rightarrow> (bytes \<times> 'r) option" where
  "send_outer C h logical r =
     (case pad_outer (fill_bytes C) logical r of (p, r1) \<Rightarrow>
        Option.bind (unwrap p) (\<lambda>pad.
        Option.bind (unwrap (outer_record_encode \<lparr>rec_header = h, payload = pad\<rparr>)) (\<lambda>out. relay_roundtrip C out r1)))"

definition offer_init ::
  "'r crypto \<Rightarrow> hs_kind \<Rightarrow> bytes \<Rightarrow> init_body \<Rightarrow> u32 \<Rightarrow> bytes \<Rightarrow> bytes \<Rightarrow> 'r \<Rightarrow> (bytes \<times> 'r) option" where
  "offer_init C k km body e sid pub r =
     (let init_bytes = init_body_encode body; t0 = hs_th0 C k init_bytes in
      Option.bind (unwrap (hs_seal_init C k km t0 e sid init_bytes)) (\<lambda>ct.
        let logical = init_bytes @ hs_nonce_init C k km t0 e sid @ ct in
        if k = Initial \<and> length logical \<noteq> LOG_INIT then None
        else send_outer C (hs_header (hs_init_type k) e sid pub) logical r))"

definition accept_init :: "'r crypto \<Rightarrow> hs_kind \<Rightarrow> bytes \<Rightarrow> bytes \<Rightarrow> u32 \<Rightarrow> bytes \<Rightarrow> bytes \<Rightarrow> bytes option" where
  "accept_init C k km t0 e sid outer =
     Option.bind (unwrap (outer_record_decode outer)) (\<lambda>rec.
       if k = Initial \<and> (epoch_be (rec_header rec) \<noteq> e \<or> hdr_session_id (rec_header rec) \<noteq> sid) then None
       else Option.bind (unwrap (strip_outer_pad (payload rec) LOG_INIT)) (\<lambda>l.
         unwrap (hs_open_init C k km t0 e sid (bslice 0 100 l) (bslice 124 LOG_INIT l))))"

definition answer_ack ::
  "'r crypto \<Rightarrow> hs_kind \<Rightarrow> bytes \<Rightarrow> bytes \<Rightarrow> init_ack_core \<Rightarrow> u32 \<Rightarrow> bytes \<Rightarrow> bytes \<Rightarrow> 'r \<Rightarrow> (bytes \<times> bytes \<times> 'r) option" where
  "answer_ack C k km t0 core e sid pub r =
     (let t1 = hs_th1 C k t0 core; okm1 = okm_root_bootstrap C (ikm_session km t0 t1);
          mac = confirm_mac C (confirm_key C okm1) t1;
          wire_bytes = init_ack_wire_encode \<lparr>ack_core = core, wire_confirm_mac = mac\<rparr> in
      Option.bind (unwrap (hs_seal_ack C k okm1 t1 e sid wire_bytes)) (\<lambda>ct.
      Option.bind (send_outer C (hs_header (hs_ack_type k) e sid pub) (wire_bytes @ hs_nonce_ack C k okm1 e sid @ ct) r)
        (\<lambda>(out, r1). Some (okm1, out, r1))))"

definition accept_ack :: "'r crypto \<Rightarrow> hs_kind \<Rightarrow> bytes \<Rightarrow> bytes \<Rightarrow> u32 \<Rightarrow> bytes \<Rightarrow> bytes \<Rightarrow> bytes option" where
  "accept_ack C k km t0 e sid outer =
     Option.bind (unwrap (outer_record_decode outer)) (\<lambda>rec.
     Option.bind (unwrap (strip_outer_pad (payload rec) LOG_ACK)) (\<lambda>l.
       let wire_recv = bslice 0 88 l; parsed = init_ack_wire_decode wire_recv; t1 = hs_th1 C k t0 (ack_core parsed);
           okm1 = okm_root_bootstrap C (ikm_session km t0 t1) in
       if \<not> verify_confirm_mac C (confirm_key C okm1) t1 (wire_confirm_mac parsed) then None
       else Option.bind (unwrap (hs_open_ack C k okm1 e sid wire_recv (bslice 112 LOG_ACK l))) (\<lambda>_. Some okm1)))"

text \<open>The key material of the initiator and of the responder.\<close>

definition run_handshake ::
  "'r crypto \<Rightarrow> hs_kind \<Rightarrow> bytes \<Rightarrow> init_body \<Rightarrow> init_ack_core \<Rightarrow> u32 \<Rightarrow> bytes \<Rightarrow> bytes \<Rightarrow> bytes \<Rightarrow> 'r \<Rightarrow> (bytes \<times> bytes \<times> 'r) option" where
  "run_handshake C k km body core e sid pub_a pub_b r =
     (let t0 = hs_th0 C k (init_body_encode body) in
      Option.bind (offer_init C k km body e sid pub_a r) (\<lambda>(b1, r1).
      Option.bind (accept_init C k km t0 e sid b1) (\<lambda>_.
      Option.bind (answer_ack C k km t0 core e sid pub_b r1) (\<lambda>(okm_b, b2, r2).
      Option.bind (accept_ack C k km t0 e sid b2) (\<lambda>okm_a. Some (okm_a, okm_b, r2))))))"

text \<open>After a reset handshake both sides take the new session through the reset modes.\<close>

definition reset_lifecycle :: "session \<Rightarrow> u32 \<Rightarrow> session option" where
  "reset_lifecycle s prior =
     (case enter_reset_pending_after_rebootstrap s prior None of (x1, s1) \<Rightarrow>
        Option.bind (unwrap x1) (\<lambda>_.
        case reset_pending_to_bootstrapping s1 of (x2, s2) \<Rightarrow>
          Option.bind (unwrap x2) (\<lambda>_.
          case finish_reset_half_open_to_active s2 of (x3, s3) \<Rightarrow> Option.bind (unwrap x3) (\<lambda>_. Some s3))))"

section \<open>Each message arrives\<close>

lemma outer_trip:
  assumes "crypto_lens C" "wf_header h" "validate_v0 h = Ok ()" "256 < length l" "length l \<le> 512"
  shows "\<exists>out p r'. send_outer C h l r = Some (out, r') \<and> outer_record_decode out = Ok \<lparr>rec_header = h, payload = p\<rparr>
    \<and> strip_outer_pad p (length l) = Ok l"
proof -
  note fills = crypto_lensD(7) [OF assms(1)]
  have bk: "smallest_padding_bucket (length l) = Some 512" using assms(4,5) by (simp add: bucket_defs)
  then obtain p r1 where p: "pad_outer (fill_bytes C) l r = (Ok p, r1)"
    using pad_outer_Ok_iff [of "fill_bytes C" l r] by (metis fst_conv surj_pair)
  have lp: "length p = 512" using pad_outer_length [OF fills, of l r p] p bk by simp
  let ?rec = "\<lparr>rec_header = h, payload = p\<rparr>"
  obtain out where out: "outer_record_encode ?rec = Ok out"
    using assms(3) lp by (simp add: outer_record_encode_Ok_iff record_body_len_def MAX_RECORD_BODY_LEN_def)
  have dec: "outer_record_decode out = Ok ?rec"
    using outer_record_decode_encode [OF _ out] assms(2) by (simp add: wf_outer_record_def)
  have lo: "length out = 579"
    using out lp length_header_encode [OF assms(2)] by (simp add: outer_record_encode_Ok_iff)
  let ?e = "\<lparr>route_token = [0x01, 0x02, 0xfe], opaque_bytes = out\<rparr>"
  have "relay_limits ?e" using lo by (simp add: relay_limits_def relay_bounds)
  moreover have "smallest_padding_bucket (length (relay_layout ?e)) = Some 1024"
    using lo by (simp add: length_relay_layout bucket_defs)
  ultimately obtain wr where "fst (encode_padded_wire (fill_bytes C) ?e r1) = Ok wr" "decode_padded_wire wr = Ok ?e"
    using padded_wire_trip [OF fills, of ?e 1024 r1] by blast
  then have "\<exists>r'. relay_roundtrip C out r1 = Some (out, r')"
    by (cases "encode_padded_wire (fill_bytes C) ?e r1") (simp add: relay_roundtrip_def)
  with p out dec show ?thesis using strip_pad [OF fills, of l r p] by (auto simp: send_outer_def)
qed

lemma hs_header_ok:
  "length sid = 16 \<Longrightarrow> length pub = 32 \<Longrightarrow> wf_header (hs_header ty e sid pub)"
  "validate_v0 (hs_header (hs_init_type k) e sid pub) = Ok ()" "validate_v0 (hs_header (hs_ack_type k) e sid pub) = Ok ()"
  by (simp_all add: hs_header_def wf_header_def validate_v0_Ok_iff) (cases k; simp)+

lemma hs_inner_opens:
  assumes "crypto_lens C" "aead_ok C"
  shows "\<exists>c p. hs_seal_init C k km t0 e sid body = Ok c \<and> length c = 272 \<and> hs_open_init C k km t0 e sid body c = Ok p"
    and "\<exists>c p. hs_seal_ack C k okm1 t1 e sid wire = Ok c \<and> length c = 272 \<and> hs_open_ack C k okm1 e sid wire c = Ok p"
    and "length (hs_nonce_init C k km t0 e sid) = 24" "length (hs_nonce_ack C k okm1 e sid) = 24"
proof -
  note o = inner_records_open [OF assms length_replicate [of 256 0]]
  show "\<exists>c p. hs_seal_init C k km t0 e sid body = Ok c \<and> length c = 272 \<and> hs_open_init C k km t0 e sid body c = Ok p"
    using o [where km = km and ?t0.0 = t0 and e = e and sid = sid and body = body] by (cases k) (simp, blast)+
  show "\<exists>c p. hs_seal_ack C k okm1 t1 e sid wire = Ok c \<and> length c = 272 \<and> hs_open_ack C k okm1 e sid wire c = Ok p"
    using o [where k = okm1 and ?t1.0 = t1 and e = e and sid = sid and wire = wire] by (cases k) (simp, blast)+
qed (cases k; simp add: nonce_init_def nonce_ack_def nonce_reset_init_def nonce_reset_ack_def length_nonce24 [OF assms(1)])+

lemma init_trip:
  assumes "crypto_lens C" "aead_ok C" "wf_init_body body" "length sid = 16" "length pub = 32"
  shows "\<exists>b r' p. offer_init C k km body e sid pub r = Some (b, r')
    \<and> accept_init C k km (hs_th0 C k (init_body_encode body)) e sid b = Some p"
proof -
  let ?ib = "init_body_encode body" and ?h = "hs_header (hs_init_type k) e sid pub"
  let ?t0 = "hs_th0 C k ?ib"
  have lb: "length ?ib = 100" using length_init_body_encode [OF assms(3)] by simp
  obtain c p where c: "hs_seal_init C k km ?t0 e sid ?ib = Ok c" "length c = 272" "hs_open_init C k km ?t0 e sid ?ib c = Ok p"
    using hs_inner_opens(1) [OF assms(1,2)] by blast
  let ?l = "?ib @ hs_nonce_init C k km ?t0 e sid @ c"
  have ll: "length ?l = LOG_INIT" using lb c(2) hs_inner_opens(3) [OF assms(1,2), of k km ?t0 e sid] by (simp add: LOG_INIT_def)
  obtain out pd r' where o: "send_outer C ?h ?l r = Some (out, r')" "outer_record_decode out = Ok \<lparr>rec_header = ?h, payload = pd\<rparr>"
    "strip_outer_pad pd (length ?l) = Ok ?l"
    using outer_trip [OF assms(1) hs_header_ok(1) [OF assms(4,5)] hs_header_ok(2), of ?l k e r] ll by (auto simp: LOG_INIT_def)
  have st: "strip_outer_pad pd LOG_INIT = Ok ?l" using o(3) unfolding ll .
  have sl: "bslice 0 100 ?l = ?ib" "bslice 124 LOG_INIT ?l = c"
    using lb c(2) hs_inner_opens(3) [OF assms(1,2), of k km ?t0 e sid] by (simp_all add: bslice_def LOG_INIT_def)
  have "offer_init C k km body e sid pub r = Some (out, r')"
    using c(1) ll o(1) by (simp add: offer_init_def Let_def)
  moreover have "accept_init C k km ?t0 e sid out = Some p"
    using o(2) st c(3) by (simp add: accept_init_def sl) (simp add: hs_header_def)
  ultimately show ?thesis by blast
qed

lemma ack_trip:
  assumes "crypto_lens C" "aead_ok C" "wf_init_ack_core core" "length sid = 16" "length pub = 32"
  shows "\<exists>okm1 b r'. answer_ack C k km t0 core e sid pub r = Some (okm1, b, r') \<and> accept_ack C k km t0 e sid b = Some okm1
    \<and> length okm1 = 64"
proof -
  let ?t1 = "hs_th1 C k t0 core" and ?h = "hs_header (hs_ack_type k) e sid pub"
  let ?okm = "okm_root_bootstrap C (ikm_session km t0 ?t1)"
  let ?w = "\<lparr>ack_core = core, wire_confirm_mac = confirm_mac C (confirm_key C ?okm) ?t1\<rparr>"
  let ?wb = "init_ack_wire_encode ?w"
  have wf: "wf_init_ack_wire ?w" using assms(3) by (simp add: wf_init_ack_wire_def confirm_mac_def crypto_lensD [OF assms(1)])
  have lw: "length ?wb = 88" using ackw.fenc_len [OF wf] by simp
  have dec: "init_ack_wire_decode ?wb = ?w" by (rule ackw.fdec_fenc [OF wf])
  have lk: "length ?okm = 64" by (simp add: okm_root_bootstrap_def hkdf_sha256_def crypto_lensD [OF assms(1)])
  obtain c p where c: "hs_seal_ack C k ?okm ?t1 e sid ?wb = Ok c" "length c = 272" "hs_open_ack C k ?okm e sid ?wb c = Ok p"
    using hs_inner_opens(2) [OF assms(1,2)] by blast
  let ?l = "?wb @ hs_nonce_ack C k ?okm e sid @ c"
  have ln: "length (hs_nonce_ack C k ?okm e sid) = 24" by (rule hs_inner_opens(4) [OF assms(1,2)])
  have ll: "length ?l = LOG_ACK" using lw c(2) ln by (simp add: LOG_ACK_def)
  obtain out pd r' where o: "send_outer C ?h ?l r = Some (out, r')" "outer_record_decode out = Ok \<lparr>rec_header = ?h, payload = pd\<rparr>"
    "strip_outer_pad pd (length ?l) = Ok ?l"
    using outer_trip [OF assms(1) hs_header_ok(1) [OF assms(4,5)] hs_header_ok(3), of ?l k e r] ll by (auto simp: LOG_ACK_def)
  have st: "strip_outer_pad pd LOG_ACK = Ok ?l" using o(3) unfolding ll .
  have sl: "bslice 0 88 ?l = ?wb" "bslice 112 LOG_ACK ?l = c" using lw c(2) ln by (simp_all add: bslice_def LOG_ACK_def)
  have "answer_ack C k km t0 core e sid pub r = Some (?okm, out, r')"
    using c(1) o(1) by (simp add: answer_ack_def Let_def)
  moreover have "accept_ack C k km t0 e sid out = Some ?okm"
    using o(2) st c(3) by (simp add: accept_ack_def sl dec verify_confirm_mac_def Let_def)
  ultimately show ?thesis using lk by blast
qed

lemma handshake_completes:
  assumes "crypto_lens C" "aead_ok C" "wf_init_body body" "wf_init_ack_core core" "length sid = 16"
  shows "\<exists>okm1 r'. run_handshake C k km body core e sid (x25519_public C sk_a) (x25519_public C sk_b) r = Some (okm1, okm1, r')
    \<and> length okm1 = 64"
proof -
  let ?pa = "x25519_public C sk_a" and ?pb = "x25519_public C sk_b" and ?t0 = "hs_th0 C k (init_body_encode body)"
  have lp: "length ?pa = 32" "length ?pb = 32" by (simp_all add: crypto_lensD [OF assms(1)])
  obtain b1 r1 p where i: "offer_init C k km body e sid ?pa r = Some (b1, r1)" "accept_init C k km ?t0 e sid b1 = Some p"
    using init_trip [OF assms(1-3,5) lp(1)] by metis
  obtain okm1 b2 r2 where a: "answer_ack C k km ?t0 core e sid ?pb r1 = Some (okm1, b2, r2)"
    "accept_ack C k km ?t0 e sid b2 = Some okm1" "length okm1 = 64"
    using ack_trip [OF assms(1,2,4,5) lp(2)] by metis
  then have "run_handshake C k km body core e sid ?pa ?pb r = Some (okm1, okm1, r2)"
    using i by (simp add: run_handshake_def Let_def)
  with a(3) show ?thesis by blast
qed

lemma session_inv_active: "session_inv s \<Longrightarrow> session_inv (s\<lparr>mode := Active (epoch s)\<rparr>)"
  by (erule session_inv_mode) (simp add: mode_ok_def)

lemma paired_mode:
  assumes "paired a b"
  shows "paired (a\<lparr>mode := Active (epoch a)\<rparr>) (b\<lparr>mode := Active (epoch b)\<rparr>)"
  using assms session_inv_active [of a] session_inv_active [of b] unfolding paired_def by (auto split: option.splits)

lemma reset_lifecycle_active:
  assumes "unat prior + 1 < 2 ^ 32" "epoch s = prior + 1"
  shows "reset_lifecycle s prior = Some (s\<lparr>mode := Active (epoch s)\<rparr>)"
  using assms by (simp add: reset_lifecycle_def enter_reset_pending_after_rebootstrap_def reset_pending_to_bootstrapping_def
      finish_reset_half_open_to_active_def checked_add_def)

section \<open>Properties\<close>

text \<open>C6: The handshake establishes sessions that talk to each other.  For any keys, bodies, epoch, session id and
  randomness, INIT and INIT_ACK (and RESET_INIT and RESET_ACK), sealed, padded, wrapped and carried through the relay
  envelope, are accepted on the other side; the confirmation MAC verifies; both sides derive the same 64 bytes
  of key material; and the sessions bootstrapped from it are paired in both directions, after a reset also once
  both have gone through the reset modes, which end in the new epoch.\<close>

theorem handshake_establishes_sessions:
  assumes "crypto_lens C" "aead_ok C" "wf_init_body body" "wf_init_ack_core core" "length sid = 16"
    and "length sk_a = 32" "length sk_b = 32" "wf_anchor anc_a" "wf_anchor anc_b"
    and "km = km_with_otp C ik_a ek_a ik_b_pub spk_b_pub otp_b_pub"
  shows "\<exists>okm_a okm_b r'. run_handshake C k km body core e sid (x25519_public C sk_a) (x25519_public C sk_b) r = Some (okm_a, okm_b, r')
    \<and> okm_a = okm_b
    \<and> (let a = bootstrap_initiator C okm_a sid e sk_a (Some (x25519_public C sk_b)) anc_a;
           b = bootstrap_responder C okm_b sid e sk_b (Some (x25519_public C sk_a)) anc_b
       in paired a b \<and> paired b a
          \<and> (\<forall>prior. unat prior + 1 < 2 ^ 32 \<and> e = prior + 1 \<longrightarrow>
               (\<exists>a' b'. reset_lifecycle a prior = Some a' \<and> reset_lifecycle b prior = Some b'
                  \<and> mode a' = Active e \<and> mode b' = Active e \<and> paired a' b' \<and> paired b' a')))"
proof -
  obtain okm1 r' where run: "run_handshake C k km body core e sid (x25519_public C sk_a) (x25519_public C sk_b) r = Some (okm1, okm1, r')"
    and l: "length okm1 = 64" using handshake_completes [OF assms(1-5)] by metis
  let ?a = "bootstrap_initiator C okm1 sid e sk_a (Some (x25519_public C sk_b)) anc_a"
    and ?b = "bootstrap_responder C okm1 sid e sk_b (Some (x25519_public C sk_a)) anc_b"
  have pr: "paired ?a ?b" "paired ?b ?a" using bootstrap_paired [OF assms(1) l assms(5-9)] by blast+
  have ep: "epoch ?a = e" "epoch ?b = e"
    by (simp_all add: bootstrap_initiator_def bootstrap_responder_def Let_def split_beta)
  show ?thesis
    using run pr paired_mode [OF pr(1)] paired_mode [OF pr(2)] ep by (auto simp: Let_def reset_lifecycle_active)
qed

theorem handshake_establishes_sessions_witness:
  "\<exists>okm1 r'. run_handshake sample_crypto Reset
      (km_with_otp sample_crypto (replicate 32 1) (replicate 32 2) (replicate 32 3) (replicate 32 4) (replicate 32 5))
      \<lparr>initiator_sig_pk = replicate 32 1, initiator_dh_pk = replicate 32 2, ephemeral_ek_pub = replicate 32 3,
        otp_index_be = 1, reserved_be = 0\<rparr>
      \<lparr>responder_sig_pk = replicate 32 4, responder_dh_pk = replicate 32 5, ack_nonce_be = 1\<rparr> 1 (replicate 16 7)
      (x25519_public sample_crypto (replicate 32 8)) (x25519_public sample_crypto (replicate 32 9)) 0 = Some (okm1, okm1, r')
    \<and> (\<exists>a'. reset_lifecycle (bootstrap_initiator sample_crypto okm1 (replicate 16 7) 1 (replicate 32 8)
          (Some (x25519_public sample_crypto (replicate 32 9))) (anchor_new_v0 2)) 0 = Some a' \<and> mode a' = Active 1)"
  using handshake_establishes_sessions [OF sample_lens sample_aead, where k = Reset and e = 1 and r = 0
      and body = "\<lparr>initiator_sig_pk = replicate 32 1, initiator_dh_pk = replicate 32 2, ephemeral_ek_pub = replicate 32 3,
        otp_index_be = 1, reserved_be = 0\<rparr>"
      and core = "\<lparr>responder_sig_pk = replicate 32 4, responder_dh_pk = replicate 32 5, ack_nonce_be = 1\<rparr>"
      and sid = "replicate 16 7" and sk_a = "replicate 32 8" and sk_b = "replicate 32 9"
      and anc_a = "anchor_new_v0 2" and anc_b = "anchor_new_v0 2", OF _ _ _ _ _ _ _ refl]
  by (fastforce simp: wf_init_body_def wf_init_ack_core_def anchor_new_v0_def wf_anchor_def Let_def)

end
