(* ===== verification/Session_Reload.thy ===== *)
theory Session_Reload
  imports Session_Sync
begin

text \<open>
  Export and import of a session, and what survives a reload.  The remembered counters are not
  exported; a DATA record is still refused the second time because its message key is gone
  (\<open>consumed\<close>), along every run and after a reload.
\<close>

section \<open>Round trip\<close>

definition blob_of :: "session \<Rightarrow> parsed_ratchet_blob" where
  "blob_of s = \<lparr>pb_role = role s, pb_rk = root_key s, pb_cks = send_ck s, pb_ckr = recv_ck s,
     pb_dh_ratchet_sk = ratchet_sk s, pb_dh_ratchet_pk = my_ratchet_pub s, pb_peer_ratchet_pub = peer_or_zero s,
     pb_send_count_be = send_wire_counter s, pb_recv_high_water_be = recv_hw_or_sentinel s,
     pb_send_sym_idx_be = send_sym_idx s, pb_recv_sym_idx_be = recv_sym_idx s, pb_skipped = skipped s\<rparr>"

lemma export_blob: "ratchet_blob (export_state s) = blob_encode (blob_of s)"
  by (simp add: export_state_def blob_encode_def blob_of_def)

lemma wf_blob_of: "wf_session s \<Longrightarrow> wf_blob (blob_of s)"
  by (auto simp: wf_session_def wf_blob_def blob_of_def peer_or_zero_def split: option.splits)

text \<open>The two values the sentinels of the format cannot tell from absence.\<close>

definition exportable :: "session \<Rightarrow> bool" where
  "exportable s \<longleftrightarrow> recv_high_water s \<noteq> Some RECV_HIGH_WATER_NONE_SENTINEL
     \<and> peer_ratchet_pub s \<noteq> Some (replicate 32 0)"

definition reloaded :: "session \<Rightarrow> skipped_key_cache \<Rightarrow> session" where
  "reloaded s m = s\<lparr>mode := Active (epoch s), skipped := m, decrypted_counters := {}\<rparr>"

lemma import_export:
  assumes "wf_session s" "exportable s"
  obtains m where "import_state (export_state s) = Ok (reloaded s m)" "skipped_inv m"
    "skipped_lookup m = skipped_lookup (skipped s)" "skipped_len m = skipped_len (skipped s)"
    "export_state (reloaded s m) = export_state s"
proof -
  obtain m where m: "decode_blob_v2 (blob_encode (blob_of s)) = Ok ((blob_of s)\<lparr>pb_skipped := m\<rparr>)"
    "map_of m = map_of (skipped s)" "skipped_inv m" "length m = length (skipped s)"
    "encode_sorted_entries m = encode_sorted_entries (skipped s)"
    using decode_blob_encode [OF wf_blob_of [OF assms(1)]] by (auto simp: blob_of_def)
  have x: "exp_okm (export_state s) = okm s" "exp_anchor (export_state s) = anchor s"
    "exp_session_id (export_state s) = session_id s" "exp_epoch (export_state s) = epoch s"
    by (simp_all add: export_state_def)
  have "import_state (export_state s) = Ok (reloaded s m)"
    unfolding import_state_def export_blob m(1) x using assms(2)
    by (cases "recv_high_water s"; cases "peer_ratchet_pub s"; cases s)
      (simp_all add: blob_of_def reloaded_def exportable_def recv_hw_or_sentinel_def peer_or_zero_def)
  moreover have "skipped_lookup m = skipped_lookup (skipped s)" by (simp add: fun_eq_iff skipped_lookup_def m(2))
  moreover have "export_state (reloaded s m) = export_state s"
    by (simp add: export_state_def reloaded_def encode_blob_v2_def peer_or_zero_def recv_hw_or_sentinel_def m(5))
  ultimately show thesis using m by (intro that [of m]) (simp_all add: skipped_len_def)
qed

lemma reloaded_inv: "session_inv s \<Longrightarrow> skipped_inv m \<Longrightarrow> session_inv (reloaded s m)"
  by (auto simp: session_inv_def wf_session_def mode_ok_def window_ok_def anchor_covers_def reloaded_def
      split: option.splits)

lemma reload_simps [simp]:
  "peer_or_zero (reloaded s m) = peer_or_zero s" "recv_hw_or_sentinel (reloaded s m) = recv_hw_or_sentinel s"
  "session_snapshot_preimage (reloaded s m) = session_snapshot_preimage s"
  "verify_anchor_commitment C (reloaded s m) = verify_anchor_commitment C s"
  by (simp_all add: reloaded_def peer_or_zero_def recv_hw_or_sentinel_def session_snapshot_preimage_def
      verify_anchor_commitment_def)

section \<open>Consumed message keys\<close>

text \<open>The counter is not above the high water mark and its key is not in the cache.\<close>

definition consumed :: "session \<Rightarrow> bytes \<Rightarrow> u64 \<Rightarrow> bool" where
  "consumed s p c \<longleftrightarrow> (\<exists>hw. recv_high_water s = Some hw \<and> c \<le> hw) \<and> skipped_lookup (skipped s) p c = None"

lemma fill_loop_lookup:
  assumes "fill_loop C p n cnt s = (x, s')" "unat cnt + n < 2 ^ 64" "length p = length q"
    and "d < cnt \<or> unat cnt + n \<le> unat d"
  shows "skipped_lookup (skipped s') q d = skipped_lookup (skipped s) q d"
  using assms
proof (induction n arbitrary: cnt s)
  case (Suc n)
  obtain y s1 where st: "recv_step_mk C s = (y, s1)" by (cases "recv_step_mk C s")
  have sk: "skipped s1 = skipped s" using st by (auto simp: recv_step_mk_def Let_def split: option.splits prod.splits)
  show ?case
  proof (cases y)
    case (Inl e)
    with Suc.prems(1) st sk show ?thesis by simp
  next
    case (Inr mk)
    obtain z M where ins: "skipped_insert (skipped s) p cnt mk = (z, M)" by (cases "skipped_insert (skipped s) p cnt mk")
    show ?thesis
    proof (cases z)
      case (Inl e)
      then have "M = skipped s" using cache.put_error_unchanged [of "skipped s" p cnt mk e] ins by simp
      with Suc.prems(1) st sk ins Inr Inl show ?thesis by auto
    next
      case (Inr u)
      have u1: "unat (cnt + 1) = unat cnt + 1" using unat_ctr [of cnt 1] Suc.prems(2) by simp
      have "d \<noteq> cnt" using Suc.prems(4) by auto
      then have M: "skipped_lookup M q d = skipped_lookup (skipped s) q d"
        using cache.put_look [of "skipped s" p cnt mk q d] ins Inr Suc.prems(3) by auto
      have "fill_loop C p n (cnt + 1) (s1\<lparr>skipped := M\<rparr>) = (x, s')"
        using Suc.prems(1) st sk ins Inr \<open>y = Ok mk\<close> by simp
      then have "skipped_lookup (skipped s') q d = skipped_lookup (skipped (s1\<lparr>skipped := M\<rparr>)) q d"
        using Suc.prems(2-4) u1 by (intro Suc.IH) (auto simp: word_less_nat_alt)
      with M show ?thesis by simp
    qed
  qed
qed simp

lemma fill_recv_gap_lookup:
  assumes "fill_recv_gap_to_counter C s p b t = (x, s')" "length p = length q" "d < b \<or> t \<le> d"
  shows "skipped_lookup (skipped s') q d = skipped_lookup (skipped s) q d"
proof (cases "b < t \<and> fill_loop C p (unat (t - b)) b s = (x, s')")
  case True
  then have "unat (t - b) = unat t - unat b" "unat b < unat t" by (auto simp: unat_sub word_less_nat_alt word_le_nat_alt)
  moreover from this have "unat b + (unat t - unat b) = unat t" by simp
  ultimately show ?thesis
    using True assms(2,3) unat_bound_u64 [of t] by (intro fill_loop_lookup [of C p "unat (t - b)" b]) (auto simp: word_le_nat_alt)
next
  case False
  then have "s' = s" using assms(1) by (auto simp: fill_recv_gap_to_counter_def Let_def split: if_splits)
  then show ?thesis by simp
qed

lemma gap_then_step_lookup:
  assumes "gap_then_step C s p b t = (x, s')" "length p = length q" "d < b \<or> t \<le> d"
  shows "skipped_lookup (skipped s') q d = skipped_lookup (skipped s) q d"
proof -
  obtain y s1 where f: "fill_recv_gap_to_counter C s p b t = (y, s1)" by (cases "fill_recv_gap_to_counter C s p b t")
  have "skipped s' = skipped s1"
    using assms(1) f by (auto simp: gap_then_step_def recv_step_mk_def Let_def split: sum.splits option.splits prod.splits)
  with fill_recv_gap_lookup [OF f assms(2,3)] show ?thesis by simp
qed

lemma receive_key_consumed:
  assumes "receive_key C s p c = (x, s')" "length p = length q" "consumed s q d"
  shows "skipped_lookup (skipped s') q d = None"
proof -
  obtain hw where hw: "recv_high_water s = Some hw" "d \<le> hw" "skipped_lookup (skipped s) q d = None"
    using assms(3) by (auto simp: consumed_def)
  obtain v M where tk: "skipped_take (skipped s) p c = (v, M)" by (cases "skipped_take (skipped s) p c")
  show ?thesis
  proof (cases v)
    case (Some mk)
    then have "s' = s\<lparr>skipped := M\<rparr>" using assms(1) tk by (simp add: receive_key_def)
    with cache.pull_look [of p q "skipped s" c d] tk assms(2) hw(3) show ?thesis by simp
  next
    case None
    show ?thesis
    proof (cases "c \<le> hw")
      case False
      then have "gap_then_step C s p (saturating_add hw 1) c = (x, s')"
        using assms(1) tk None hw by (simp add: receive_key_def)
      moreover have "unat (saturating_add hw 1) = Suc (unat hw)"
        using False unat_bound_u64 [of c] by (simp add: saturating_add_def unat_word_ariths word_le_nat_alt)
      then have "d < saturating_add hw 1" using hw(2) by (simp add: word_less_nat_alt word_le_nat_alt)
      ultimately show ?thesis using gap_then_step_lookup assms(2) hw(3) by metis
    qed (use assms(1) tk None hw in \<open>simp add: receive_key_def\<close>)
  qed
qed

lemma receive_key_Ok_consumes:
  assumes "receive_key C s p c = (Ok mk, s')"
  shows "skipped_lookup (skipped s') p c = None"
proof -
  obtain v M where tk: "skipped_take (skipped s) p c = (v, M)" by (cases "skipped_take (skipped s) p c")
  show ?thesis
  proof (cases v)
    case (Some w)
    then have "s' = s\<lparr>skipped := M\<rparr>" using assms tk by (simp add: receive_key_def)
    with cache.pull_look [of p p "skipped s" c c] tk show ?thesis by simp
  next
    case None
    then have "skipped_lookup (skipped s) p c = None" using cache.pull_val [of "skipped s" p c] tk by simp
    moreover obtain b where "gap_then_step C s p b c = (Ok mk, s')"
      using assms tk None by (auto simp: receive_key_def split: option.splits if_splits)
    ultimately show ?thesis using gap_then_step_lookup [of C s p b c _ s' p c] by simp
  qed
qed

lemma apply_ratchet_skipped:
  "apply_inbound_dh_ratchet C s p r = (x, s', r') \<Longrightarrow> skipped s' = skipped s"
  by (auto simp: apply_inbound_dh_ratchet_def Let_def split: prod.splits Role.splits)

lemma bind_skipped:
  "bind_or_dh_ratchet C s p r = (x, s', r') \<Longrightarrow> skipped s' = skipped s"
  using apply_ratchet_skipped [of C s p r x s' r'] by (auto simp: bind_or_dh_ratchet_def split: option.splits if_splits)

lemma decrypt_data_consumed:
  assumes "decrypt_data C s h ct r = (x, s', r')" "wf_header h" "length q = 32" "consumed s q d"
  shows "consumed s' q d"
proof -
  obtain y s1 r1 where b: "bind_or_dh_ratchet C s (ratchet_pub h) r = (y, s1, r1)"
    by (cases "bind_or_dh_ratchet C s (ratchet_pub h) r")
  obtain k s2 where k: "receive_key C s1 (ratchet_pub h) (counter_be h) = (k, s2)"
    by (cases "receive_key C s1 (ratchet_pub h) (counter_be h)")
  have f1: "y = Ok ()" "recv_high_water s1 = recv_high_water s" using bind_or_dh_ratchet_frame [OF b] by (auto simp: ratchet_frame_def)
  have c1: "consumed s1 q d" using assms(4) f1 bind_skipped [OF b] by (simp add: consumed_def)
  have "recv_high_water s2 = recv_high_water s1"
    using receive_key_frame [of s1 C] k chain_frame_ratchet by (metis ratchet_frame_def snd_conv)
  then have c2: "consumed s2 q d"
    using receive_key_consumed [OF k _ c1] assms(2,3) c1 by (simp add: consumed_def wf_header_def)
  then have "consumed (mark_received s2 c) q d" for c by (auto simp: consumed_def le_max_iff_disj)
  with assms(1,4) c1 c2 f1 b k show ?thesis by (auto simp: decrypt_data_def Let_def split: if_splits sum.splits)
qed

lemma decrypt_data_Ok_consumes:
  assumes "decrypt_data C s h ct r = (Ok pt, s', r')"
  shows "consumed s' (ratchet_pub h) (counter_be h)"
proof -
  obtain y s1 r1 where b: "bind_or_dh_ratchet C s (ratchet_pub h) r = (y, s1, r1)"
    by (cases "bind_or_dh_ratchet C s (ratchet_pub h) r")
  obtain k s2 where k: "receive_key C s1 (ratchet_pub h) (counter_be h) = (k, s2)"
    by (cases "receive_key C s1 (ratchet_pub h) (counter_be h)")
  have "s' = mark_received s2 (counter_be h)" "\<exists>mk. k = Ok mk"
    using assms b k by (auto simp: decrypt_data_def Let_def split: if_splits sum.splits)
  then show ?thesis using receive_key_Ok_consumes k
    by (auto simp: consumed_def split: option.splits)
qed

lemma decrypt_data_consumed_fails:
  assumes "consumed s (ratchet_pub h) (counter_be h)"
  shows "\<exists>e. fst (decrypt_data C s h ct r) = Err e"
proof -
  obtain y s1 r1 where b: "bind_or_dh_ratchet C s (ratchet_pub h) r = (y, s1, r1)"
    by (cases "bind_or_dh_ratchet C s (ratchet_pub h) r")
  have f1: "y = Ok ()" "recv_high_water s1 = recv_high_water s"
    using bind_or_dh_ratchet_frame [OF b] by (auto simp: ratchet_frame_def)
  obtain v M where tk: "skipped_take (skipped s1) (ratchet_pub h) (counter_be h) = (v, M)"
    by (cases "skipped_take (skipped s1) (ratchet_pub h) (counter_be h)")
  have "v = None"
    using assms cache.pull_val [of "skipped s" "ratchet_pub h" "counter_be h"] tk bind_skipped [OF b]
    by (simp add: consumed_def)
  then have "receive_key C s1 (ratchet_pub h) (counter_be h) = (Err ReplayRejected, s1)"
    using assms f1 tk by (auto simp: receive_key_def consumed_def)
  with b f1 show ?thesis by (auto simp: decrypt_data_def Let_def split: sum.splits)
qed

lemma consumed_cong:
  "recv_high_water s' = recv_high_water s \<Longrightarrow> skipped s' = skipped s \<Longrightarrow> consumed s' q d = consumed s q d"
  by (simp add: consumed_def)

lemma consumed_mark: "consumed s q d \<Longrightarrow> consumed (mark_received s c) q d"
  by (auto simp: consumed_def le_max_iff_disj)

lemma bind_consumed:
  "bind_or_dh_ratchet C s p r = (x, s', r') \<Longrightarrow> consumed s' q d = consumed s q d"
  using bind_or_dh_ratchet_frame bind_skipped by (metis consumed_cong ratchet_frame_def)

lemma decrypt_data_outer_consumed:
  "decrypt_data_outer C s h p r = (x, s', r') \<Longrightarrow> wf_header h \<Longrightarrow> length q = 32 \<Longrightarrow> consumed s q d \<Longrightarrow> consumed s' q d"
  using decrypt_data_consumed by (auto simp: decrypt_data_outer_def split: sum.splits)

lemma decrypt_rekey_consumed:
  assumes "decrypt_rekey_ctrl_outer C s h p r = (x, s', r')" "consumed s q d"
  shows "consumed s' q d"
proof -
  obtain y s1 r1 where b: "bind_or_dh_ratchet C s (ratchet_pub h) r = (y, s1, r1)"
    by (cases "bind_or_dh_ratchet C s (ratchet_pub h) r")
  have c: "consumed s1 q d" using bind_consumed [OF b] assms(2) by simp
  show ?thesis using assms b c consumed_mark [OF c]
    by (auto simp: decrypt_rekey_ctrl_outer_def Let_def split: if_splits sum.splits)
qed

lemma handle_inbound_consumed:
  assumes "handle_inbound_outer C s rec now r = (x, s', r')" "wf_header (rec_header rec)" "length q = 32" "consumed s q d"
  shows "consumed s' q d"
proof -
  obtain m where m: "maybe_expire_reset_pending s now = s\<lparr>mode := m\<rparr>" using maybe_expire_frame by blast
  have c: "consumed (s\<lparr>mode := m\<rparr>) q d" using assms(4) by (simp add: consumed_def)
  have "consumed s1 q d" if "decrypt_data_outer C (s\<lparr>mode := m\<rparr>) (rec_header rec) (payload rec) r = (z, s1, r1)" for z s1 r1
    using decrypt_data_outer_consumed [OF that assms(2,3) c] .
  moreover have "consumed s1 q d"
    if "decrypt_rekey_ctrl_outer C (s\<lparr>mode := m\<rparr>) (rec_header rec) (payload rec) r = (z, s1, r1)" for z s1 r1
    using decrypt_rekey_consumed [OF that c] .
  ultimately show ?thesis using assms(1) c
    by (auto simp: handle_inbound_outer_def m Let_def split: sum.splits if_splits prod.splits)
qed

lemma sent_skipped: "sent s ty x s' \<Longrightarrow> recv_high_water s' = recv_high_water s \<and> skipped s' = skipped s"
  unfolding sent_def send_frame_def by (cases s; cases s') simp

lemma session_step_consumed:
  assumes "session_step C s ev s'" "length q = 32" "consumed s q d"
  shows "consumed s' q d"
  using assms
proof (induction rule: session_step.induct)
  case (ratchet p s r res s' r')
  note ap = ratchet.hyps(2) [unfolded dh_ratchet_def]
  show ?case using apply_ratchet_skipped [OF ap] apply_inbound_dh_ratchet_frame [OF ap] ratchet.prems
    by (simp add: consumed_def ratchet_frame_def)
next
  case (expire s now)
  then show ?case using maybe_expire_frame [of s now] by (auto simp: consumed_def)
next
  case (recompute s)
  then show ?case by (simp add: consumed_def recompute_anchor_commitment_def)
next
  case (send_data s pt res s')
  then show ?case using sent_skipped [OF encrypt_data_plain512_sent [OF send_data.hyps]] by (simp add: consumed_def)
next
  case (send_data_outer s pt r res s' r')
  then show ?case using sent_skipped [OF encrypt_data_plain512_outer_sent [OF send_data_outer.hyps]] by (simp add: consumed_def)
next
  case (send_rekey s b res s')
  then show ?case using sent_skipped [OF encrypt_rekey_ctrl_sent [OF send_rekey.hyps]] by (simp add: consumed_def)
next
  case (send_rekey_outer s b r res s' r')
  then show ?case using sent_skipped [OF encrypt_rekey_ctrl_outer_sent [OF send_rekey_outer.hyps]] by (simp add: consumed_def)
next
  case (reset_pending s e d' res s')
  then show ?case using mode_ops_frame(1) by (fastforce simp: consumed_def)
next
  case (to_bootstrapping s res s')
  then show ?case using mode_ops_frame(2) by (fastforce simp: consumed_def)
next
  case (finish_reset s res s')
  then show ?case using mode_ops_frame(3) by (fastforce simp: consumed_def)
next
  case (bootstrapping s e res s')
  then show ?case using mode_ops_frame(4) by (fastforce simp: consumed_def)
qed (blast intro: handle_inbound_consumed decrypt_data_consumed decrypt_data_outer_consumed decrypt_rekey_consumed)+

lemma accept_not_consumed:
  assumes "session_step C s (Accept h) s'" "hdr_typ h = 3"
  shows "\<not> consumed s (ratchet_pub h) (counter_be h) \<and> consumed s' (ratchet_pub h) (counter_be h) \<and> wf_header h"
proof -
  have data: "\<not> consumed t (ratchet_pub h) (counter_be h) \<and> consumed t' (ratchet_pub h) (counter_be h)"
    if dd: "decrypt_data_outer C t h p r = (Ok pt, t', r')" for t t' p r r' pt
  proof -
    obtain ct where "decrypt_data C t h ct r = (Ok pt, t', r')"
      using dd by (auto simp: decrypt_data_outer_def split: sum.splits)
    with decrypt_data_consumed_fails [of t h C ct r] decrypt_data_Ok_consumes [OF this] show ?thesis by auto
  qed
  have no_rekey: "False" if "decrypt_rekey_ctrl_outer C t h p r = (Ok pt, t', r')" for t t' p r r' pt
    using that assms(2) by (simp add: decrypt_rekey_ctrl_outer_def)
  from assms(1) show ?thesis
  proof (cases rule: session_step.cases)
    case (inbound rec now r res r')
    then obtain v where res: "res = Ok v" "h = rec_header rec" by (auto simp: recv_event_def split: sum.splits)
    obtain m where m: "maybe_expire_reset_pending s now = s\<lparr>mode := m\<rparr>" using maybe_expire_frame by blast
    obtain pt where "decrypt_data_outer C (s\<lparr>mode := m\<rparr>) h (payload rec) r = (Ok pt, s', r')"
      using inbound(3) res assms(2)
      by (auto simp: handle_inbound_outer_def m Let_def split: sum.splits if_splits prod.splits)
    from data [OF this] inbound(2) res show ?thesis by (simp add: consumed_def)
  next
    case (recv_data h' ct r res r')
    then show ?thesis using decrypt_data_consumed_fails [of s h C ct r] decrypt_data_Ok_consumes
      by (fastforce simp: recv_event_def split: sum.splits)
  next
    case (recv_data_outer h' p r res r')
    then show ?thesis using data by (auto simp: recv_event_def split: sum.splits)
  next
    case (recv_rekey h' p r res r')
    then obtain v where "decrypt_rekey_ctrl_outer C s h p r = (Ok v, s', r')"
      by (auto simp: recv_event_def split: sum.splits)
    then show ?thesis using no_rekey by blast
  qed (auto simp: send_event_def split: sum.splits)
qed

lemma session_trace_consumed:
  assumes "session_trace C s0 evs s" "length q = 32" "consumed s0 q d"
  shows "consumed s q d"
  using assms by induction (auto intro: session_step_consumed)

lemma session_trace_accept_consumed:
  assumes "session_trace C s0 evs s" "Accept h \<in> set evs" "hdr_typ h = 3"
  shows "consumed s (ratchet_pub h) (counter_be h) \<and> length (ratchet_pub h) = 32"
  using assms(1,2)
proof induction
  case (step evs s ev s')
  show ?case
  proof (cases "ev = Accept h")
    case True
    with accept_not_consumed assms(3) step.hyps(2) show ?thesis by (auto simp: wf_header_def)
  next
    case False
    then have "Accept h \<in> set evs" using step.prems by auto
    with step.IH session_step_consumed [OF step.hyps(2)] show ?thesis by blast
  qed
qed simp

lemma session_trace_not_accepted:
  assumes "session_trace C s0 evs s" "consumed s0 (ratchet_pub h) (counter_be h)" "hdr_typ h = 3"
  shows "Accept h \<notin> set evs"
  using assms(1)
proof induction
  case (step evs s ev s')
  have "ev \<noteq> Accept h"
  proof
    assume ev: "ev = Accept h"
    with step.hyps(2) accept_not_consumed assms(3) have "\<not> consumed s (ratchet_pub h) (counter_be h)" "wf_header h" by blast+
    then show False using session_trace_consumed [OF step.hyps(1)] assms(2) by (simp add: wf_header_def)
  qed
  with step.IH show ?case by auto
qed simp

lemma paired_reload:
  assumes "paired a b" "skipped_inv m" "skipped_lookup m = skipped_lookup (skipped b)"
  shows "paired a (reloaded b m)"
  using assms reloaded_inv [of b m] by (auto simp: paired_def reloaded_def split: option.splits)

lemma reload_paired:
  assumes "paired a b" "skipped_inv m"
  shows "paired (reloaded a m) b"
  using assms reloaded_inv [of a m] by (auto simp: paired_def reloaded_def split: option.splits)

lemma paired_exportable: "paired a b \<Longrightarrow> my_ratchet_pub a \<noteq> replicate 32 0 \<Longrightarrow> exportable b"
  using unat_bound_u64 [of "send_wire_counter a"]
  by (auto simp: paired_def exportable_def RECV_HIGH_WATER_NONE_SENTINEL_def unsigned_minus_1_eq_mask
      mask_eq_exp_minus_1)

section \<open>Properties\<close>

text \<open>C19: Exporting a session and importing it gives the session back, up to the mode (always active), the
  forgotten counters and the iteration order of the key cache: the invariant holds again, a second export
  and the persistence digest are identical, every cached key is found, and a peer paired with it on either
  side is still paired.\<close>

theorem export_import_roundtrip:
  assumes "session_inv s" "exportable s"
  shows "\<exists>s'. import_state (export_state s) = Ok s' \<and> session_inv s' \<and> export_state s' = export_state s
    \<and> persistence_equivalence_digest C s' = persistence_equivalence_digest C s
    \<and> s' = s\<lparr>mode := Active (epoch s), skipped := skipped s', decrypted_counters := {}\<rparr>
    \<and> skipped_lookup (skipped s') = skipped_lookup (skipped s)
    \<and> (\<forall>a. paired a s \<longrightarrow> paired a s') \<and> (\<forall>b. paired s b \<longrightarrow> paired s' b)"
proof -
  obtain m where m: "import_state (export_state s) = Ok (reloaded s m)" "skipped_inv m"
    "skipped_lookup m = skipped_lookup (skipped s)" "export_state (reloaded s m) = export_state s"
    by (rule import_export [OF session_invD(1) [OF assms(1)] assms(2)])
  then show ?thesis using reloaded_inv [OF assms(1) m(2)] paired_reload [OF _ m(2,3)] reload_paired [OF _ m(2)]
    by (intro exI [of _ "reloaded s m"]) (auto simp: persistence_equivalence_digest_def reloaded_def)
qed

theorem export_import_roundtrip_witness:
  "\<exists>s'. import_state (export_state sample_b) = Ok s' \<and> session_inv s' \<and> export_state s' = export_state sample_b
    \<and> paired sample_a s' \<and> paired s' sample_a"
proof -
  have "exportable sample_b"
    by (simp add: exportable_def sample_b_def bootstrap_responder_def Let_def split_beta)
  moreover have "session_inv sample_b" using sample_paired by (simp add: paired_def)
  ultimately show ?thesis using export_import_roundtrip [of sample_b sample_crypto] sample_paired by blast
qed

text \<open>C5: A DATA record that was accepted before an export is never accepted after the import, in any
  run of the reloaded session: its counter is below the high water mark and its message key is gone, although
  the set of decrypted counters was not saved.\<close>

theorem data_not_replayed_across_reload:
  assumes "crypto_lens C" "session_inv s0" "session_trace C s0 evs s" "exportable s"
    and "import_state (export_state s) = Ok s1" "session_trace C s1 evs' s2"
    and "Accept h \<in> set evs" "hdr_typ h = 3"
    and "Accept h' \<in> set evs'" "hdr_typ h' = 3" "ratchet_pub h' = ratchet_pub h"
  shows "counter_be h' \<noteq> counter_be h"
proof
  assume eq: "counter_be h' = counter_be h"
  have "session_inv s" by (rule session_trace_inv [OF assms(1,3,2)])
  then obtain m where m: "s1 = reloaded s m" "skipped_lookup m = skipped_lookup (skipped s)"
    using assms(4,5) session_invD(1) by (metis import_export sum.inject(2))
  have "consumed s (ratchet_pub h) (counter_be h)" using session_trace_accept_consumed [OF assms(3,7,8)] by simp
  then have "consumed s1 (ratchet_pub h') (counter_be h')"
    using eq assms(11) m by (simp add: consumed_def reloaded_def)
  from session_trace_not_accepted [OF assms(6) this assms(10)] assms(9) show False by simp
qed

theorem data_not_replayed_across_reload_witness:
  "\<exists>b1 b2 b3 evs evs' h h'. session_trace sample_crypto sample_b evs b1 \<and> import_state (export_state b1) = Ok b2
     \<and> session_trace sample_crypto b2 evs' b3 \<and> Accept h \<in> set evs \<and> Accept h' \<in> set evs'
     \<and> counter_be h' \<noteq> counter_be h"
proof -
  obtain p1 a1 b1 where s1: "handle_inbound_outer sample_crypto sample_b
        \<lparr>rec_header = next_header sample_a 3, payload = p1\<rparr> 0 0 = (Ok (Data (replicate 512 1)), b1, 0)"
      "paired a1 b1" "skipped_len (skipped b1) + 1 \<le> MAX_SKIP" "send_wire_counter a1 = 1" "send_sym_idx a1 = 1"
      "send_frame sample_a a1"
    by (rule data_in_order [OF sample_lens sample_aead sample_paired(1), of "replicate 512 1" 1 0 0 0])
      (auto simp: sample_fresh MAX_SKIP_def)
  have inv: "session_inv sample_a" "session_inv sample_b" "session_inv a1"
    using sample_paired s1(2) by (simp_all add: paired_def)
  have pub: "my_ratchet_pub sample_a = replicate 32 3" "my_ratchet_pub a1 = replicate 32 3"
    using send_frame_simps(4) [OF s1(6)]
    by (simp_all add: sample_a_def bootstrap_initiator_def Let_def split_beta sample_crypto_def)
  have ex: "exportable b1" by (rule paired_exportable [OF s1(2)]) (simp add: pub)
  obtain m where m: "import_state (export_state b1) = Ok (reloaded b1 m)" "skipped_inv m"
    "skipped_lookup m = skipped_lookup (skipped b1)" "skipped_len m = skipped_len (skipped b1)"
    using s1(2) ex by (auto simp: paired_def intro: import_export [OF session_invD(1)])
  obtain p2 b3 where s2: "handle_inbound_outer sample_crypto (reloaded b1 m)
        \<lparr>rec_header = next_header a1 3, payload = p2\<rparr> 0 0 = (Ok (Data (replicate 512 2)), b3, 0)"
    by (rule data_in_order [OF sample_lens sample_aead paired_reload [OF s1(2) m(2,3)], of "replicate 512 2" 0 0 0 0])
      (use s1 m(4) in \<open>auto simp: reloaded_def\<close>)
  have wf: "wf_header (next_header sample_a 3)" "wf_header (next_header a1 3)"
    using inv by (auto intro: next_header_wf session_invD)
  have "session_trace sample_crypto sample_b ([] @ [recv_event (next_header sample_a 3) (Ok (Data (replicate 512 1)))]) b1"
    using session_step.inbound [OF _ s1(1)] wf by (intro session_trace.step [OF session_trace.start]) simp
  then have t1: "session_trace sample_crypto sample_b [Accept (next_header sample_a 3)] b1" by (simp add: recv_event_def)
  have "session_trace sample_crypto (reloaded b1 m) ([] @ [recv_event (next_header a1 3) (Ok (Data (replicate 512 2)))]) b3"
    using session_step.inbound [OF _ s2] wf by (intro session_trace.step [OF session_trace.start]) simp
  then have t2: "session_trace sample_crypto (reloaded b1 m) [Accept (next_header a1 3)] b3" by (simp add: recv_event_def)
  have "counter_be (next_header a1 3) \<noteq> counter_be (next_header sample_a 3)"
    by (rule data_not_replayed_across_reload [OF sample_lens inv(2) t1 ex m(1) t2])
      (simp_all add: next_header_def pub)
  with t1 t2 m(1) show ?thesis by fastforce
qed

end
