(* ===== verification/Session_Inbound.thy ===== *)
theory Session_Inbound
  imports Session_Reload
begin

text \<open>
  The inbound dispatcher: which records are refused, with which error and with what effect on the
  session; and what the code does not guarantee, because the ratchet moves before the record is
  authenticated and the counters of REKEY records are not persisted.
\<close>

section \<open>Epoch policy and refusals\<close>

lemma unat_saturating_add_1: "unat (saturating_add e 1) = min (Suc (unat e)) (2 ^ 32 - 1)" for e :: u32
  using unat_bound_u32 [of e]
  by (auto simp: saturating_add_def unat_word_ariths unsigned_minus_1_eq_mask mask_eq_exp_minus_1)

text \<open>The epoch policy of a session in a consistent mode: only records of its epoch pass; an epoch beyond
  the next one is in the future; DATA of the epoch a pending reset left behind is late; everything else
  is stale.\<close>

lemma epoch_policy:
  assumes "mode_ok s"
  shows "(check_inbound_epoch_policy s h = Ok () \<longleftrightarrow> epoch_be h = epoch s)
    \<and> (check_inbound_epoch_policy s h = Err FutureEpoch \<longleftrightarrow> Suc (unat (epoch s)) < unat (epoch_be h))
    \<and> (check_inbound_epoch_policy s h = Err LateDataAfterReset \<longleftrightarrow>
         hdr_typ h = 3 \<and> (\<exists>n d. mode s = ResetPending (epoch_be h) n d))
    \<and> (check_inbound_epoch_policy s h = Err StaleEpochRejected \<longleftrightarrow>
         epoch_be h \<noteq> epoch s \<and> unat (epoch_be h) \<le> Suc (unat (epoch s))
         \<and> \<not> (hdr_typ h = 3 \<and> (\<exists>n d. mode s = ResetPending (epoch_be h) n d)))"
proof -
  have fut: "epoch_be h > saturating_add (epoch s) 1 \<longleftrightarrow> Suc (unat (epoch s)) < unat (epoch_be h)"
    using unat_bound_u32 [of "epoch_be h"] by (auto simp: word_less_nat_alt unat_saturating_add_1)
  have late: "(case mode s of ResetPending old _ _ \<Rightarrow> hdr_typ h = 3 \<and> epoch_be h = old | _ \<Rightarrow> False)
      \<longleftrightarrow> hdr_typ h = 3 \<and> (\<exists>n d. mode s = ResetPending (epoch_be h) n d)"
    by (auto split: SessionMode.splits)
  have old: "unat (epoch s) = Suc (unat (epoch_be h))" if "mode s = ResetPending (epoch_be h) n d" for n d
    using assms that by (simp add: mode_ok_def)
  show ?thesis using old unfolding check_inbound_epoch_policy_def Let_def fut late by auto
qed

lemma epoch_policy_witness:
  "check_inbound_epoch_policy sample_a (next_header sample_b 3) = Ok ()
   \<and> check_inbound_epoch_policy sample_a ((next_header sample_b 3)\<lparr>epoch_be := 2\<rparr>) = Err FutureEpoch"
proof -
  have "mode_ok sample_a" using sample_paired session_invD(2) by (auto simp: paired_def)
  moreover have "epoch sample_a = 0" "epoch_be (next_header sample_b 3) = 0"
    by (simp_all add: sample_a_def sample_b_def bootstrap_initiator_def bootstrap_responder_def next_header_def Let_def
        split_beta)
  ultimately show ?thesis
    using epoch_policy [of sample_a "next_header sample_b 3"]
      epoch_policy [of sample_a "(next_header sample_b 3)\<lparr>epoch_be := 2\<rparr>"] by simp
qed

text \<open>C27: The reset window.  Arming a pending reset succeeds exactly when the session's epoch is the successor of
  the prior one.  While it is pending, DATA of the prior epoch addressed to the session is reported as late;
  this ends at the first record after the drain limit, when there is one, and when the reset is finished,
  whether directly or by way of bootstrapping: from then on the same record is stale.  Nothing but the mode changes.\<close>

theorem reset_window:
  assumes "validate_v0 h = Ok ()" "hdr_session_id h = session_id s" "hdr_typ h = 3" "epoch_be h = prior"
    and "unat (epoch s) = unat prior + 1"
  shows "\<exists>s1. enter_reset_pending_after_rebootstrap s prior drain = (Ok (), s1)
    \<and> s1 = s\<lparr>mode := ResetPending prior (epoch s) drain\<rparr>
    \<and> handle_inbound_outer C s1 \<lparr>rec_header = h, payload = p\<rparr> now r
        = (case drain of
             Some limit \<Rightarrow> if now > limit then (Err StaleEpochRejected, s\<lparr>mode := Active (epoch s)\<rparr>, r)
                           else (Err LateDataAfterReset, s1, r)
           | None \<Rightarrow> (Err LateDataAfterReset, s1, r))
    \<and> (\<exists>s2. reset_pending_to_bootstrapping s1 = (Ok (), s2)
         \<and> finish_reset_half_open_to_active s2 = (Ok (), s\<lparr>mode := Active (epoch s)\<rparr>))
    \<and> finish_reset_half_open_to_active s1 = (Ok (), s\<lparr>mode := Active (epoch s)\<rparr>)
    \<and> handle_inbound_outer C (s\<lparr>mode := Active (epoch s)\<rparr>) \<lparr>rec_header = h, payload = p\<rparr> now r
        = (Err StaleEpochRejected, s\<lparr>mode := Active (epoch s)\<rparr>, r)
    \<and> (\<forall>prior'. (\<exists>s'. enter_reset_pending_after_rebootstrap s prior' drain = (Ok (), s')) \<longleftrightarrow> prior' = prior)"
proof -
  have lt: "prior < epoch s" "\<not> prior > saturating_add (epoch s) 1"
    using assms(5) saturating_add_ge [of "epoch s" 1] by (auto simp: word_less_nat_alt word_le_nat_alt)
  have e: "epoch s = prior + 1" "unat prior + 1 < 2 ^ 32"
    using assms(5) unat_bound_u32 [of "epoch s"] by (auto simp: word_unat_eq_iff unat_word_ariths)
  have arm: "(\<exists>s'. enter_reset_pending_after_rebootstrap s prior' drain = (Ok (), s')) \<longleftrightarrow> prior' = prior" for prior'
    using e by (auto simp: enter_reset_pending_after_rebootstrap_def checked_add_def)
  have "enter_reset_pending_after_rebootstrap s prior drain = (Ok (), s\<lparr>mode := ResetPending prior (epoch s) drain\<rparr>)"
    using e by (simp add: enter_reset_pending_after_rebootstrap_def checked_add_def)
  moreover have "handle_inbound_outer C (s\<lparr>mode := Active (epoch s)\<rparr>) \<lparr>rec_header = h, payload = p\<rparr> now r
      = (Err StaleEpochRejected, s\<lparr>mode := Active (epoch s)\<rparr>, r)"
    using assms(1-4) lt by (simp add: handle_inbound_outer_def maybe_expire_reset_pending_def check_inbound_epoch_policy_def)
  moreover have "handle_inbound_outer C (s\<lparr>mode := ResetPending prior (epoch s) drain\<rparr>) \<lparr>rec_header = h, payload = p\<rparr> now r
      = (case drain of
           Some limit \<Rightarrow> if now > limit then (Err StaleEpochRejected, s\<lparr>mode := Active (epoch s)\<rparr>, r)
                         else (Err LateDataAfterReset, s\<lparr>mode := ResetPending prior (epoch s) drain\<rparr>, r)
         | None \<Rightarrow> (Err LateDataAfterReset, s\<lparr>mode := ResetPending prior (epoch s) drain\<rparr>, r))"
    using assms(1-4) lt
    by (simp add: handle_inbound_outer_def maybe_expire_reset_pending_def check_inbound_epoch_policy_def split: option.splits)
  ultimately show ?thesis
    using arm by (simp add: reset_pending_to_bootstrapping_def finish_reset_half_open_to_active_def)
qed

theorem reset_window_witness:
  "fst (handle_inbound_outer sample_crypto (sample_b\<lparr>epoch := 8, mode := ResetPending 7 8 (Some 100)\<rparr>)
      \<lparr>rec_header = (next_header sample_a 3)\<lparr>epoch_be := 7\<rparr>, payload = []\<rparr> 50 0) = Err LateDataAfterReset
   \<and> fst (handle_inbound_outer sample_crypto (sample_b\<lparr>epoch := 8, mode := ResetPending 7 8 (Some 100)\<rparr>)
      \<lparr>rec_header = (next_header sample_a 3)\<lparr>epoch_be := 7\<rparr>, payload = []\<rparr> 101 0) = Err StaleEpochRejected"
proof -
  let ?h = "(next_header sample_a 3)\<lparr>epoch_be := 7\<rparr>" and ?s = "sample_b\<lparr>epoch := 8\<rparr>"
  have "validate_v0 ?h = Ok ()" "hdr_session_id ?h = session_id ?s" "hdr_typ ?h = 3" "epoch_be ?h = 7"
    using sample_paired(1) by (simp_all add: validate_v0_Ok_iff next_header_def paired_def)
  from reset_window [OF this, of "Some 100" sample_crypto "[]" _ 0] show ?thesis by auto
qed












section \<open>What a forged or repeated record can do\<close>

text \<open>A receiver whose chain has been stepped once too often is in step with a shifted chain.\<close>

lemma in_sync_shifted:
  assumes "in_sync C ck i c p (Suc N) b {} 0" "wf_session b2" "recv_ck b2 = chain_ck C ck i 1" "recv_sym_idx b2 = i + 1"
    and "recv_high_water b2 = recv_high_water b" "peer_ratchet_pub b2 = Some p"
    and "decrypted_counters b2 = decrypted_counters b" "skipped_len (skipped b2) = skipped_len (skipped b)"
    and "\<And>j. unat c + j < 2 ^ 64 \<Longrightarrow> skipped_lookup (skipped b2) p (c + of_nat j) = None"
  shows "in_sync C (chain_ck C ck i 1) (i + 1) c p N b2 {} 0"
proof -
  have "unat (i + 1) = unat i + 1" using assms(1) unat_ctr [of i 1] by (simp add: in_sync_def)
  then show ?thesis using assms unfolding in_sync_def by auto
qed

text \<open>C35: The receive chain is stepped before the record is authenticated.  One forged DATA record with the
  next counter and the sender's public ratchet key, and a ciphertext that does not open, is refused as
  \<open>DecryptionFailed\<close> but steps the chain and leaves the high water mark: from then on the receiver looks for
  the \<open>k\<close>-th genuine message with the key of the message after it.\<close>

theorem forged_data_shifts_chain:
  assumes "crypto_lens C" "paired a b" "skipped_len (skipped b) + Suc N \<le> MAX_SKIP"
    and "unat (send_sym_idx a) + Suc N < 2 ^ 64" "unat (send_wire_counter a) + Suc N < 2 ^ 64"
    and "h = next_header a 3"
    and "xdecrypt C (chain_mk C (send_ck a) (send_sym_idx a) 0)
           (nonce_data C (chain_mk C (send_ck a) (send_sym_idx a) 0) h) ct (header_encode h) = Err Cipher"
  shows "\<exists>b'. decrypt_data C b h ct r = (Err DecryptionFailed, b', r) \<and> recv_high_water b' = recv_high_water b
    \<and> recv_ck b' = chain_ck C (send_ck a) (send_sym_idx a) 1
    \<and> (\<forall>k < N. fst (receive_key C b' (my_ratchet_pub a) (send_wire_counter a + of_nat k))
          = Ok (chain_mk C (send_ck a) (send_sym_idx a) (Suc k)))"
proof -
  let ?ck = "send_ck a" and ?i = "send_sym_idx a" and ?c = "send_wire_counter a" and ?p = "my_ratchet_pub a"
  note sync = paired_in_sync [OF assms(2,3,4,5), of C]
  note bnd = in_sync_bind [OF sync]
  obtain M where M: "receive_key C (b\<lparr>peer_ratchet_pub := Some ?p\<rparr>) ?p (?c + of_nat 0) = (Ok (chain_mk C ?ck ?i 0),
       b\<lparr>peer_ratchet_pub := Some ?p, recv_ck := chain_ck C ?ck ?i (Suc 0), recv_sym_idx := ?i + of_nat (Suc 0), skipped := M\<rparr>)"
      "skipped_len M = skipped_len (skipped b)"
      "\<And>j. unat ?c + j < 2 ^ 64 \<Longrightarrow> skipped_lookup M ?p (?c + of_nat j) = None"
    using receive_key_chain [OF bnd(2), of 0] sync unfolding in_sync_def by auto
  let ?b2 = "b\<lparr>peer_ratchet_pub := Some ?p, recv_ck := chain_ck C ?ck ?i (Suc 0), recv_sym_idx := ?i + of_nat (Suc 0), skipped := M\<rparr>"
  have "wf_session (b\<lparr>peer_ratchet_pub := Some ?p\<rparr>)" "length ?p = 32" using bnd(2) by (simp_all add: in_sync_def)
  then have "wf_session ?b2" using receive_key_wf [OF assms(1)] M(1) by (metis snd_conv)
  then have sh: "in_sync C (chain_ck C ?ck ?i 1) (?i + 1) ?c ?p N ?b2 {} 0"
    by (intro in_sync_shifted [OF sync]) (simp_all add: M(2,3))
  have "fst (receive_key C ?b2 ?p (?c + of_nat k)) = Ok (chain_mk C ?ck ?i (Suc k))" if "k < N" for k
    using receive_key_chain [OF sh _ that] chain_mk_shift [of C ?ck ?i k] by auto
  moreover have "decrypt_data C b h ct r = (Err DecryptionFailed, ?b2, r)"
    using in_sync_precheck [OF sync, of 0] bnd(1) M(1) assms(2,7)
    by (simp add: decrypt_data_def assms(6) next_header_def paired_def)
  ultimately show ?thesis by auto
qed

theorem forged_data_shifts_chain_witness:
  "\<exists>b'. decrypt_data sample_crypto sample_b (next_header sample_a 3) [] 0 = (Err DecryptionFailed, b', 0)
    \<and> fst (receive_key sample_crypto b' (my_ratchet_pub sample_a) 0)
        = Ok (chain_mk sample_crypto (send_ck sample_a) (send_sym_idx sample_a) 1)"
proof -
  have "xdecrypt sample_crypto k n [] x = Err Cipher" for k n x by (simp add: xdecrypt_def sample_crypto_def)
  from forged_data_shifts_chain [OF sample_lens sample_paired(1) _ _ _ refl this, of 1 0] show ?thesis
    by (auto simp: sample_fresh MAX_SKIP_def)
qed

text \<open>C36: The ratchet moves before the record is authenticated.  A REKEY record with the right session, epoch
  and an admitted counter but any new ratchet key and a payload that is no REKEY at all is refused as
  \<open>InvalidHeader\<close>, yet it replaces the root key, both chain keys and the own ratchet key by values mixed with
  the forged key.\<close>

theorem forged_rekey_ratchets:
  assumes "peer_ratchet_pub s = Some p" "ratchet_pub h \<noteq> p" "version h = 1" "hdr_typ h = 5"
    and "hdr_session_id h = session_id s" "epoch_be h = epoch s" "replay_precheck s (counter_be h) = Ok ()"
    and "dh_mix C (root_key s) (x25519 C (ratchet_sk s) (ratchet_pub h)) = (rk, ka, kb)" "fill_bytes C r 32 = (sk, r')"
  shows "\<exists>s'. decrypt_rekey_ctrl_outer C s h [] r = (Err InvalidHeader, s', r')
    \<and> root_key s' = rk \<and> {send_ck s', recv_ck s'} = {ka, kb} \<and> ratchet_sk s' = sk
    \<and> my_ratchet_pub s' = x25519_public C sk \<and> peer_ratchet_pub s' = Some (ratchet_pub h)"
proof -
  have "strip_outer_pad [] CTRL_LOGICAL = Err PaddingBucketMismatch"
    by (simp add: strip_outer_pad_def CTRL_LOGICAL_def bucket_defs)
  then show ?thesis using assms
    by (cases "role s")
      (auto simp: decrypt_rekey_ctrl_outer_def bind_or_dh_ratchet_def apply_inbound_dh_ratchet_def
        random_static_secret_def Let_def)
qed

theorem forged_rekey_ratchets_witness:
  "\<exists>s'. decrypt_rekey_ctrl_outer sample_crypto (sample_b\<lparr>peer_ratchet_pub := Some (replicate 32 3)\<rparr>)
       ((next_header sample_a 5)\<lparr>ratchet_pub := replicate 32 9\<rparr>) [] 0 = (Err InvalidHeader, s', 1)
     \<and> peer_ratchet_pub s' = Some (replicate 32 9) \<and> ratchet_sk s' = replicate 32 0"
proof -
  let ?s = "sample_b\<lparr>peer_ratchet_pub := Some (replicate 32 3)\<rparr>" and ?h = "(next_header sample_a 5)\<lparr>ratchet_pub := replicate 32 9\<rparr>"
  have s: "session_id ?s = replicate 16 2" "epoch ?s = 0" "recv_high_water ?s = None" "decrypted_counters ?s = {}"
    by (simp_all add: sample_b_def bootstrap_responder_def Let_def split_beta)
  have a: "session_id sample_a = replicate 16 2" "epoch sample_a = 0"
    by (simp_all add: sample_a_def bootstrap_initiator_def Let_def split_beta)
  obtain rk ka kb where m: "dh_mix sample_crypto (root_key ?s) (x25519 sample_crypto (ratchet_sk ?s) (ratchet_pub ?h)) = (rk, ka, kb)"
    by (cases "dh_mix sample_crypto (root_key ?s) (x25519 sample_crypto (ratchet_sk ?s) (ratchet_pub ?h))")
  have f: "fill_bytes sample_crypto 0 32 = (replicate 32 0, 1)" by (simp add: sample_crypto_def)
  have "replay_precheck ?s (counter_be ?h) = Ok ()" using s by (simp add: replay_precheck_def)
  then show ?thesis
    using forged_rekey_ratchets [OF _ _ _ _ _ _ _ m f, of "replicate 32 3"] s a by (auto simp: next_header_def)
qed

text \<open>C37: The counters of accepted REKEY records are not persisted.  A REKEY record that was accepted is
  accepted a second time by the session that export and import give back.\<close>

theorem rekey_accepted_again_after_reload:
  assumes "crypto_lens C" "aead_ok C" "paired a b" "length body \<le> 256" "unat (send_wire_counter a) + 1 < 2 ^ 64"
    and "my_ratchet_pub a \<noteq> replicate 32 0"
  shows "\<exists>h p a' r' plain b1 b2 b3. encrypt_rekey_ctrl_outer C a body r = (Ok (h, p), a', r')
    \<and> handle_inbound_outer C b \<lparr>rec_header = h, payload = p\<rparr> now r2 = (Ok (RekeyPlain plain), b1, r2)
    \<and> import_state (export_state b1) = Ok b2
    \<and> handle_inbound_outer C b2 \<lparr>rec_header = h, payload = p\<rparr> now r2 = (Ok (RekeyPlain plain), b3, r2)"
proof -
  have inv: "session_inv a" "session_inv b" using assms(3) by (simp_all add: paired_def)
  let ?c = "send_wire_counter a" and ?p = "my_ratchet_pub a"
  obtain plain padded a' r' l where e: "encrypt_rekey_ctrl_outer C a body r = (Ok (next_header a 5, padded), a', r')"
    and l: "strip_outer_pad padded CTRL_LOGICAL = Ok l"
      "decrypt_ctrl_payload C (okm a) (next_header a 5) (drop 24 l) = Ok plain"
    using encrypt_rekey_outer_Ok [OF assms(1,2,4,5), of r] by blast
  obtain m where d: "handle_inbound_outer C b \<lparr>rec_header = next_header a 5, payload = padded\<rparr> now r2
     = (Ok (RekeyPlain plain), mark_received (b\<lparr>mode := m, peer_ratchet_pub := Some ?p\<rparr>) ?c, r2)"
    using rekey_accepts [OF session_invD(2) [OF inv(2)] _ _ _ _ paired_precheck [OF assms(3)] l] assms(3)
    unfolding paired_def by metis
  let ?b1 = "mark_received (b\<lparr>mode := m, peer_ratchet_pub := Some ?p\<rparr>) ?c"
  have inv1: "session_inv ?b1"
    using handle_inbound_inv [OF assms(1) _ inv(2) d] next_header_wf [OF session_invD(1) [OF inv(1)]] by simp
  have hw: "recv_high_water ?b1 = Some ?c"
    using assms(3) by (auto simp: paired_def max_def word_le_nat_alt split: option.splits)
  have "?c \<noteq> - 1" using assms(5) by (auto simp: unsigned_minus_1_eq_mask mask_eq_exp_minus_1)
  then have "exportable ?b1" using hw assms(6) by (simp add: exportable_def RECV_HIGH_WATER_NONE_SENTINEL_def)
  then obtain k where k: "import_state (export_state ?b1) = Ok (reloaded ?b1 k)" "skipped_inv k"
    using import_export [OF session_invD(1) [OF inv1]] by metis
  have inv2: "session_inv (reloaded ?b1 k)" by (rule reloaded_inv [OF inv1 k(2)])
  have "replay_precheck (reloaded ?b1 k) ?c = Ok ()"
    using saturating_sub_le [of ?c "of_nat MAX_SKIP"] hw by (simp add: replay_precheck_def reloaded_def not_less)
  moreover have "peer_ratchet_pub (reloaded ?b1 k) = Some ?p" "session_id (reloaded ?b1 k) = session_id a"
    "epoch (reloaded ?b1 k) = epoch a" "okm (reloaded ?b1 k) = okm a"
    using assms(3) by (simp_all add: reloaded_def paired_def)
  ultimately obtain m2 where "handle_inbound_outer C (reloaded ?b1 k) \<lparr>rec_header = next_header a 5, payload = padded\<rparr> now r2
     = (Ok (RekeyPlain plain), mark_received ((reloaded ?b1 k)\<lparr>mode := m2, peer_ratchet_pub := Some ?p\<rparr>) ?c, r2)"
    using rekey_accepts [OF session_invD(2) [OF inv2] _ _ _ _ _ l] by metis
  with e d k(1) show ?thesis by blast
qed

theorem rekey_accepted_again_after_reload_witness:
  "\<exists>h p a' r' plain b1 b2 b3. encrypt_rekey_ctrl_outer sample_crypto sample_a [1, 2, 3, 4] 0 = (Ok (h, p), a', r')
    \<and> handle_inbound_outer sample_crypto sample_b \<lparr>rec_header = h, payload = p\<rparr> 0 5 = (Ok (RekeyPlain plain), b1, 5)
    \<and> import_state (export_state b1) = Ok b2
    \<and> handle_inbound_outer sample_crypto b2 \<lparr>rec_header = h, payload = p\<rparr> 0 5 = (Ok (RekeyPlain plain), b3, 5)"
  by (rule rekey_accepted_again_after_reload [OF sample_lens sample_aead sample_paired(1)])
    (simp_all add: sample_fresh,
      simp add: sample_a_def bootstrap_initiator_def Let_def split_beta sample_crypto_def)

text \<open>C38: A DATA record sent before a REKEY but delivered after it is lost.  Accepting the REKEY raises the
  high water mark past the DATA counter without stashing its message key, so the DATA record is refused as a
  replay although it was never received.\<close>

theorem data_overtaken_by_rekey_lost:
  assumes "crypto_lens C" "aead_ok C" "paired a b" "length pt = 512" "length body \<le> 256"
    and "unat (send_sym_idx a) + 1 < 2 ^ 64" "unat (send_wire_counter a) + 2 < 2 ^ 64"
  shows "\<exists>hdat pd a1 r1 hr pr a2 r2 plain b1 b2. encrypt_data_plain512_outer C a pt r = (Ok (hdat, pd), a1, r1)
    \<and> encrypt_rekey_ctrl_outer C a1 body r1 = (Ok (hr, pr), a2, r2)
    \<and> handle_inbound_outer C b \<lparr>rec_header = hr, payload = pr\<rparr> now r3 = (Ok (RekeyPlain plain), b1, r3)
    \<and> handle_inbound_outer C b1 \<lparr>rec_header = hdat, payload = pd\<rparr> now r3 = (Err ReplayRejected, b2, r3)"
proof -
  have inv: "session_inv a" "session_inv b" using assms(3) by (simp_all add: paired_def)
  let ?c = "send_wire_counter a" and ?p = "my_ratchet_pub a"
  obtain pd a1 r1 where e1: "encrypt_data_plain512_outer C a pt r = (Ok (next_header a 3, pd), a1, r1)"
    "send_frame a a1" "send_wire_counter a1 = ?c + 1"
    "opens C (chain_mk C (send_ck a) (send_sym_idx a) 0) (next_header a 3) pd pt"
    using encrypt_data_outer_Ok [OF assms(1,2,4), of a r] assms(6,7) by auto
  note f1 = send_frame_simps [OF e1(2)]
  have u: "unat (?c + 1) = unat ?c + 1" using unat_ctr [of ?c 1] assms(7) by simp
  obtain plain pr a2 r2 l where e2: "encrypt_rekey_ctrl_outer C a1 body r1 = (Ok (next_header a1 5, pr), a2, r2)"
    and l: "strip_outer_pad pr CTRL_LOGICAL = Ok l"
      "decrypt_ctrl_payload C (okm a1) (next_header a1 5) (drop 24 l) = Ok plain"
    using encrypt_rekey_outer_Ok [OF assms(1,2,5), of a1 r1] assms(7) u e1(3) by auto
  have pre: "replay_precheck b (send_wire_counter a1) = Ok ()"
    using assms(3) u unfolding e1(3)
    by (fastforce simp: paired_def session_inv_def window_ok_def replay_precheck_def word_le_nat_alt word_less_nat_alt
      unat_saturating_sub split: option.splits)
  obtain m where d1: "handle_inbound_outer C b \<lparr>rec_header = next_header a1 5, payload = pr\<rparr> now r3
     = (Ok (RekeyPlain plain), mark_received (b\<lparr>mode := m, peer_ratchet_pub := Some ?p\<rparr>) (?c + 1), r3)"
    using rekey_accepts [OF session_invD(2) [OF inv(2)] _ _ _ _ pre l] assms(3) f1 unfolding paired_def e1(3) by metis
  let ?b1 = "mark_received (b\<lparr>mode := m, peer_ratchet_pub := Some ?p\<rparr>) (?c + 1)"
  have "wf_header (next_header a1 5)"
    using next_header_wf [OF session_invD(1) [OF inv(1)], of 5] f1 by (simp add: wf_header_def next_header_def)
  then have "session_inv ?b1" using handle_inbound_inv [OF assms(1) _ inv(2) d1] by simp
  then obtain m2 where d2: "handle_inbound_outer C ?b1 \<lparr>rec_header = next_header a 3, payload = pd\<rparr> now r3
      = (case decrypt_data_outer C (?b1\<lparr>mode := m2\<rparr>) (next_header a 3) pd r3 of (res, s1, r1) \<Rightarrow> (map_ok Data res, s1, r1))"
    using handle_inbound_pass [OF session_invD(2), of ?b1 "next_header a 3"
        "\<lparr>rec_header = next_header a 3, payload = pd\<rparr>" C now r3] assms(3)
    by (auto simp: next_header_def paired_def)
  have hw: "recv_high_water (?b1\<lparr>mode := m2\<rparr>) = Some (?c + 1)"
    using assms(3) u by (auto simp: paired_def max_def word_le_nat_alt split: option.splits)
  obtain M where "skipped_take (skipped b) ?p ?c = (None, M)"
    using cache.pull_val [of "skipped b" ?p ?c] assms(3) unfolding paired_def by (metis order_refl prod.collapse)
  then have k: "receive_key C (?b1\<lparr>mode := m2\<rparr>) ?p ?c = (Err ReplayRejected, ?b1\<lparr>mode := m2\<rparr>)"
    using hw u by (simp add: receive_key_def word_le_nat_alt)
  have bind: "bind_or_dh_ratchet C (?b1\<lparr>mode := m2\<rparr>) ?p r3 = (Ok (), ?b1\<lparr>mode := m2\<rparr>, r3)"
    by (simp add: bind_or_dh_ratchet_def)
  have "replay_precheck (?b1\<lparr>mode := m2\<rparr>) ?c \<in> {Ok (), Err ReplayRejected}"
    by (auto simp: replay_precheck_def split: option.splits)
  then have "decrypt_data_outer C (?b1\<lparr>mode := m2\<rparr>) (next_header a 3) pd r3 = (Err ReplayRejected, ?b1\<lparr>mode := m2\<rparr>, r3)"
    using k bind e1(4) assms(3)
    by (auto simp: decrypt_data_outer_def decrypt_data_def opens_def next_header_def paired_def)
  with e1(1) e2 d1 d2 show ?thesis by auto
qed

theorem data_overtaken_by_rekey_lost_witness:
  "\<exists>hdat pd a1 r1 hr pr a2 r2 plain b1 b2.
      encrypt_data_plain512_outer sample_crypto sample_a (replicate 512 1) 0 = (Ok (hdat, pd), a1, r1)
    \<and> encrypt_rekey_ctrl_outer sample_crypto a1 [1, 2, 3, 4] r1 = (Ok (hr, pr), a2, r2)
    \<and> handle_inbound_outer sample_crypto sample_b \<lparr>rec_header = hr, payload = pr\<rparr> 0 5 = (Ok (RekeyPlain plain), b1, 5)
    \<and> handle_inbound_outer sample_crypto b1 \<lparr>rec_header = hdat, payload = pd\<rparr> 0 5 = (Err ReplayRejected, b2, 5)"
  by (rule data_overtaken_by_rekey_lost [OF sample_lens sample_aead sample_paired(1)]) (simp_all add: sample_fresh)

section \<open>Runs\<close>

text \<open>A run of each sample session with one message sent or received.\<close>

lemma sample_traces:
  "\<exists>a1 b1. session_trace sample_crypto sample_a [Emit (next_header sample_a 3)] a1
     \<and> session_trace sample_crypto sample_b [Accept (next_header sample_a 3)] b1"
proof -
  obtain p a1 r1 b1 where s: "encrypt_data_plain512_outer sample_crypto sample_a (replicate 512 1) 0
        = (Ok (next_header sample_a 3, p), a1, r1)"
      "handle_inbound_outer sample_crypto sample_b \<lparr>rec_header = next_header sample_a 3, payload = p\<rparr> 0 0
        = (Ok (Data (replicate 512 1)), b1, 0)"
    by (rule data_in_order [OF sample_lens sample_aead sample_paired(1), of "replicate 512 1" 0 0 0 0])
      (auto simp: sample_fresh MAX_SKIP_def)
  have wf: "wf_header (next_header sample_a 3)"
    using sample_paired by (auto simp: paired_def intro: next_header_wf session_invD)
  have "session_trace sample_crypto sample_a ([] @ [send_event (Ok (next_header sample_a 3, p))]) a1"
    by (rule session_trace.step [OF session_trace.start session_step.send_data_outer [OF s(1)]])
  moreover have "session_trace sample_crypto sample_b ([] @ [recv_event (next_header sample_a 3) (Ok (Data (replicate 512 1)))]) b1"
    using session_step.inbound [OF _ s(2)] wf by (intro session_trace.step [OF session_trace.start]) simp
  ultimately show ?thesis by (auto simp: send_event_def recv_event_def)
qed

text \<open>C11: Every operation keeps the session invariant, whether it succeeds or fails and whatever record it is
  given: field lengths, mode and epoch agree, the skipped cache stays within its bound with distinct keys,
  the remembered counters lie in the replay window, and the anchor has seen every counter.\<close>

theorem session_invariant_along_runs:
  assumes "crypto_lens C" "session_inv s0" "session_trace C s0 evs s"
  shows "session_inv s \<and> skipped_len (skipped s) \<le> MAX_SKIP"
  using session_trace_inv [OF assms(1,3,2)] skipped_inv_cap by (auto simp: session_inv_def wf_session_def)

theorem session_invariant_along_runs_witness:
  "\<exists>b1. session_trace sample_crypto sample_b [Accept (next_header sample_a 3)] b1 \<and> session_inv b1"
  using sample_traces session_invariant_along_runs [OF sample_lens, of sample_b] sample_paired
  by (auto simp: paired_def)

text \<open>C4: Replay safety: in every run, with any records delivered in any order, no wire counter is accepted
  twice, and a counter once accepted is refused from then on.\<close>

theorem no_counter_accepted_twice:
  assumes "session_trace C s0 evs s"
  shows "distinct (accepted evs) \<and> (\<forall>c \<in> set (accepted evs). replay_precheck s c \<noteq> Ok ())"
  using session_trace_accepted [OF assms] by (simp add: admits_def)

theorem no_counter_accepted_twice_witness:
  "\<exists>b1. session_trace sample_crypto sample_b [Accept (next_header sample_a 3)] b1 \<and> replay_precheck b1 0 \<noteq> Ok ()"
proof -
  obtain b1 where t: "session_trace sample_crypto sample_b [Accept (next_header sample_a 3)] b1" using sample_traces by blast
  then show ?thesis using no_counter_accepted_twice [OF t] by (auto simp: next_header_def sample_fresh)
qed

text \<open>C22: Outbound counters strictly increase along every run, so no two emitted records of a session share
  a control nonce label or a DATA nonce label.\<close>

theorem emitted_counters_and_labels_unique:
  assumes "session_trace C s0 evs s" "i < j" "j < length hs" "hs = [h. Emit h \<leftarrow> evs]"
  shows "counter_be (hs ! i) < counter_be (hs ! j)
    \<and> ctrl_label (hdr_typ (hs ! i)) (epoch_be (hs ! i)) (counter_be (hs ! i)) (hdr_session_id (hs ! i))
        \<noteq> ctrl_label (hdr_typ (hs ! j)) (epoch_be (hs ! j)) (counter_be (hs ! j)) (hdr_session_id (hs ! j))
    \<and> data_label (hs ! i) \<noteq> data_label (hs ! j)"
proof -
  have "emitted evs = map counter_be hs" unfolding assms(4) emitted_def
    by (induction evs) (auto split: session_event.splits)
  then have lt: "counter_be (hs ! i) < counter_be (hs ! j)"
    using session_trace_emitted [OF assms(1)] assms(2,3) by (auto simp: sorted_wrt_iff_nth_less)
  then have "counter_be (hs ! i) \<noteq> counter_be (hs ! j)" by simp
  with lt show ?thesis by (auto simp: ctrl_label_def data_label_def)
qed

theorem emitted_counters_and_labels_unique_witness:
  "\<exists>a1 a2. session_trace sample_crypto sample_a [Emit (next_header sample_a 3), Emit (next_header a1 3)] a2
     \<and> counter_be (next_header sample_a 3) < counter_be (next_header a1 3)
     \<and> data_label (next_header sample_a 3) \<noteq> data_label (next_header a1 3)"
proof -
  obtain p1 a1 r1 where s1: "encrypt_data_plain512_outer sample_crypto sample_a (replicate 512 1) 0
      = (Ok (next_header sample_a 3, p1), a1, r1)" "send_wire_counter a1 = 1" "send_sym_idx a1 = 1"
    using encrypt_data_outer_Ok [OF sample_lens sample_aead, of "replicate 512 1" sample_a 0] by (auto simp: sample_fresh)
  obtain p2 a2 r2 where s2: "encrypt_data_plain512_outer sample_crypto a1 (replicate 512 1) 0
      = (Ok (next_header a1 3, p2), a2, r2)"
    using encrypt_data_outer_Ok [OF sample_lens sample_aead, of "replicate 512 1" a1 0] s1 by auto
  have "session_trace sample_crypto sample_a
      (([] @ [send_event (Ok (next_header sample_a 3, p1))]) @ [send_event (Ok (next_header a1 3, p2))]) a2"
    by (rule session_trace.step [OF session_trace.step [OF session_trace.start session_step.send_data_outer [OF s1(1)]]
        session_step.send_data_outer [OF s2]])
  then have t: "session_trace sample_crypto sample_a [Emit (next_header sample_a 3), Emit (next_header a1 3)] a2"
    by (simp add: send_event_def)
  let ?hs = "[next_header sample_a 3, next_header a1 3]"
  have "?hs = [h. Emit h \<leftarrow> [Emit (next_header sample_a 3), Emit (next_header a1 3)]]" by simp
  from emitted_counters_and_labels_unique [OF t zero_less_one _ this]
  have "counter_be (?hs ! 0) < counter_be (?hs ! 1) \<and> data_label (?hs ! 0) \<noteq> data_label (?hs ! 1)" by simp
  then have "counter_be (next_header sample_a 3) < counter_be (next_header a1 3)
     \<and> data_label (next_header sample_a 3) \<noteq> data_label (next_header a1 3)" by (simp only: nth_Cons_0 nth_Cons_Suc One_nat_def simp_thms)
  with t show ?thesis by blast
qed

text \<open>The identity of a session never changes along a run, and its device anchor only moves forward and
  covers every counter that was accepted or emitted.\<close>

lemma anchor_covers_run:
  assumes "session_trace C s0 evs s"
  shows "session_id s = session_id s0 \<and> epoch s = epoch s0 \<and> okm s = okm s0
    \<and> highest_wire_seen_be (anchor s0) \<le> highest_wire_seen_be (anchor s)
    \<and> (\<forall>c \<in> set (accepted evs @ emitted evs). c \<le> highest_wire_seen_be (anchor s))"
  using session_trace_frame [OF assms] by simp

lemma anchor_covers_run_witness:
  "\<exists>b1. session_trace sample_crypto sample_b [Accept (next_header sample_a 3)] b1
     \<and> session_id b1 = session_id sample_b \<and> counter_be (next_header sample_a 3) \<le> highest_wire_seen_be (anchor b1)"
proof -
  obtain b1 where t: "session_trace sample_crypto sample_b [Accept (next_header sample_a 3)] b1" using sample_traces by blast
  then show ?thesis using anchor_covers_run [OF t] by auto
qed

end
