(* ===== verification/Session_Handle.thy ===== *)
theory Session_Handle
  imports Session_Inbound
begin

text \<open>
  \<^verbatim>\<open>crates/libgary-core/src/engine/{session_handle,wal_source}.rs\<close>: the public handle around a session,
  and the trait \<open>SessionWalSource\<close> through which the store reads a session.  The trait is a record of
  its methods (\<open>'s wal_source\<close>), its two implementations are values of it, and \<open>wal_source_laws\<close> is what
  the store relies on.
\<close>

section \<open>Handle\<close>

record session_handle =
  hnd_session :: session

text \<open>A \<open>&mut self\<close> method that delegates to the session.\<close>

definition delegate :: "(session \<Rightarrow> 'a \<times> session) \<Rightarrow> session_handle \<Rightarrow> 'a \<times> session_handle" where
  "delegate f h = (case f (hnd_session h) of (x, s) \<Rightarrow> (x, h\<lparr>hnd_session := s\<rparr>))"

definition delegate_rng ::
  "(session \<Rightarrow> 'r \<Rightarrow> 'a \<times> session \<times> 'r) \<Rightarrow> session_handle \<Rightarrow> 'r \<Rightarrow> 'a \<times> session_handle \<times> 'r" where
  "delegate_rng f h r = (case f (hnd_session h) r of (x, s, r') \<Rightarrow> (x, h\<lparr>hnd_session := s\<rparr>, r'))"

definition handle_bootstrap_initiator ::
  "'r crypto \<Rightarrow> bytes \<Rightarrow> bytes \<Rightarrow> u32 \<Rightarrow> bytes \<Rightarrow> bytes option \<Rightarrow> device_state_anchor \<Rightarrow> session_handle" where
  "handle_bootstrap_initiator C k sid e sk peer anc = \<lparr>hnd_session = bootstrap_initiator C k sid e sk peer anc\<rparr>"

definition handle_bootstrap_responder ::
  "'r crypto \<Rightarrow> bytes \<Rightarrow> bytes \<Rightarrow> u32 \<Rightarrow> bytes \<Rightarrow> bytes option \<Rightarrow> device_state_anchor \<Rightarrow> session_handle" where
  "handle_bootstrap_responder C k sid e sk peer anc = \<lparr>hnd_session = bootstrap_responder C k sid e sk peer anc\<rparr>"

definition from_export :: "session_export \<Rightarrow> SessionError + session_handle" where
  "from_export x = map_ok (\<lambda>s. \<lparr>hnd_session = s\<rparr>) (import_state x)"

definition hnd_handle_inbound_outer ::
  "'r crypto \<Rightarrow> session_handle \<Rightarrow> outer_record \<Rightarrow> u64 \<Rightarrow> 'r \<Rightarrow> (SessionError + InboundInner) \<times> session_handle \<times> 'r" where
  "hnd_handle_inbound_outer C h rec now r = delegate_rng (\<lambda>s r. handle_inbound_outer C s rec now r) h r"

definition send_data_plain512 ::
  "'r crypto \<Rightarrow> session_handle \<Rightarrow> bytes \<Rightarrow> (SessionError + header \<times> bytes) \<times> session_handle" where
  "send_data_plain512 C h pt = delegate (\<lambda>s. encrypt_data_plain512 C s pt) h"

definition recv_data_plain512 ::
  "'r crypto \<Rightarrow> session_handle \<Rightarrow> header \<Rightarrow> bytes \<Rightarrow> 'r \<Rightarrow> (SessionError + bytes) \<times> session_handle \<times> 'r" where
  "recv_data_plain512 C h hdr ct r = delegate_rng (\<lambda>s r. decrypt_data C s hdr ct r) h r"

definition send_data_plain512_outer ::
  "'r crypto \<Rightarrow> session_handle \<Rightarrow> bytes \<Rightarrow> 'r \<Rightarrow> (SessionError + header \<times> bytes) \<times> session_handle \<times> 'r" where
  "send_data_plain512_outer C h pt r = delegate_rng (\<lambda>s r. encrypt_data_plain512_outer C s pt r) h r"

definition recv_data_outer ::
  "'r crypto \<Rightarrow> session_handle \<Rightarrow> header \<Rightarrow> bytes \<Rightarrow> 'r \<Rightarrow> (SessionError + bytes) \<times> session_handle \<times> 'r" where
  "recv_data_outer C h hdr p r = delegate_rng (\<lambda>s r. decrypt_data_outer C s hdr p r) h r"

definition send_rekey_ctrl_outer ::
  "'r crypto \<Rightarrow> session_handle \<Rightarrow> bytes \<Rightarrow> 'r \<Rightarrow> (SessionError + header \<times> bytes) \<times> session_handle \<times> 'r" where
  "send_rekey_ctrl_outer C h body4 r = delegate_rng (\<lambda>s r. encrypt_rekey_ctrl_outer C s body4 r) h r"

definition recv_rekey_ctrl_outer ::
  "'r crypto \<Rightarrow> session_handle \<Rightarrow> header \<Rightarrow> bytes \<Rightarrow> 'r \<Rightarrow> (SessionError + bytes) \<times> session_handle \<times> 'r" where
  "recv_rekey_ctrl_outer C h hdr p r = delegate_rng (\<lambda>s r. decrypt_rekey_ctrl_outer C s hdr p r) h r"

definition hnd_export_state :: "session_handle \<Rightarrow> session_export" where
  "hnd_export_state h = export_state (hnd_session h)"

definition hnd_recompute_anchor_commitment :: "'r crypto \<Rightarrow> session_handle \<Rightarrow> session_handle" where
  "hnd_recompute_anchor_commitment C h = h\<lparr>hnd_session := recompute_anchor_commitment C (hnd_session h)\<rparr>"

definition hnd_verify_anchor_commitment :: "'r crypto \<Rightarrow> session_handle \<Rightarrow> bool" where
  "hnd_verify_anchor_commitment C h = verify_anchor_commitment C (hnd_session h)"

definition hnd_persistence_equivalence_digest :: "'r crypto \<Rightarrow> session_handle \<Rightarrow> bytes" where
  "hnd_persistence_equivalence_digest C h = persistence_equivalence_digest C (hnd_session h)"

definition hnd_enter_reset_pending_after_rebootstrap ::
  "session_handle \<Rightarrow> u32 \<Rightarrow> u64 option \<Rightarrow> (SessionError + unit) \<times> session_handle" where
  "hnd_enter_reset_pending_after_rebootstrap h prior drain =
     delegate (\<lambda>s. enter_reset_pending_after_rebootstrap s prior drain) h"

definition hnd_reset_pending_to_bootstrapping :: "session_handle \<Rightarrow> (SessionError + unit) \<times> session_handle" where
  "hnd_reset_pending_to_bootstrapping h = delegate reset_pending_to_bootstrapping h"

definition hnd_finish_reset_half_open_to_active :: "session_handle \<Rightarrow> (SessionError + unit) \<times> session_handle" where
  "hnd_finish_reset_half_open_to_active h = delegate finish_reset_half_open_to_active h"

text \<open>The getters.\<close>

definition hnd_recv_high_water :: "session_handle \<Rightarrow> 64 word option" where
  "hnd_recv_high_water h = recv_high_water (hnd_session h)"

definition hnd_recv_sym_idx :: "session_handle \<Rightarrow> 64 word" where
  "hnd_recv_sym_idx h = recv_sym_idx (hnd_session h)"

definition hnd_send_wire_counter :: "session_handle \<Rightarrow> 64 word" where
  "hnd_send_wire_counter h = send_wire_counter (hnd_session h)"

definition hnd_session_id :: "session_handle \<Rightarrow> bytes" where
  "hnd_session_id h = session_id (hnd_session h)"

definition hnd_epoch :: "session_handle \<Rightarrow> 32 word" where
  "hnd_epoch h = epoch (hnd_session h)"

definition hnd_ingress_mode :: "session_handle \<Rightarrow> SessionMode" where
  "hnd_ingress_mode h = mode (hnd_session h)"

definition hnd_skipped_cache_len :: "session_handle \<Rightarrow> nat" where
  "hnd_skipped_cache_len h = skipped_len (skipped (hnd_session h))"

section \<open>The WAL source trait\<close>

record 's wal_source =
  ws_export_state :: "'s \<Rightarrow> session_export"
  ws_session_id :: "'s \<Rightarrow> bytes"
  ws_epoch :: "'s \<Rightarrow> u32"
  ws_recv_high_water :: "'s \<Rightarrow> u64 option"
  ws_send_wire_counter :: "'s \<Rightarrow> u64"
  ws_anchor :: "'s \<Rightarrow> device_state_anchor"
  ws_verify_anchor_commitment :: "'s \<Rightarrow> bool"

definition session_wal_source :: "'r crypto \<Rightarrow> session wal_source" where
  "session_wal_source C =
     \<lparr>ws_export_state = export_state, ws_session_id = session_id, ws_epoch = epoch,
      ws_recv_high_water = recv_high_water, ws_send_wire_counter = send_wire_counter, ws_anchor = anchor,
      ws_verify_anchor_commitment = verify_anchor_commitment C\<rparr>"

definition handle_wal_source :: "'r crypto \<Rightarrow> session_handle wal_source" where
  "handle_wal_source C =
     \<lparr>ws_export_state = (\<lambda>h. export_state (hnd_session h)), ws_session_id = (\<lambda>h. session_id (hnd_session h)),
      ws_epoch = (\<lambda>h. epoch (hnd_session h)), ws_recv_high_water = (\<lambda>h. recv_high_water (hnd_session h)),
      ws_send_wire_counter = (\<lambda>h. send_wire_counter (hnd_session h)), ws_anchor = (\<lambda>h. anchor (hnd_session h)),
      ws_verify_anchor_commitment = (\<lambda>h. verify_anchor_commitment C (hnd_session h))\<rparr>"

text \<open>What the store reads of a source.\<close>

definition wal_view :: "'s wal_source \<Rightarrow> 's \<Rightarrow> bytes \<times> u32 \<times> u64 option \<times> u64 \<times> device_state_anchor \<times> bool" where
  "wal_view W s = (ws_session_id W s, ws_epoch W s, ws_recv_high_water W s, ws_send_wire_counter W s, ws_anchor W s,
     ws_verify_anchor_commitment W s)"

text \<open>Array lengths of an export, and a blob whose length fits the 32-bit length field.\<close>

definition wf_export :: "session_export \<Rightarrow> bool" where
  "wf_export x \<longleftrightarrow> length (exp_okm x) = 64 \<and> wf_anchor (exp_anchor x) \<and> length (exp_session_id x) = 16
     \<and> length (ratchet_blob x) < 2 ^ 32"

text \<open>
  The laws of a source: its export is well formed, is bounded, and imports to a handle that looks the
  same and exports the same.
\<close>

locale wal_source_laws =
  fixes H :: "session_handle wal_source"
    and W :: "'s wal_source"
    and ok :: "'s \<Rightarrow> bool"
  assumes export_wf: "ok s \<Longrightarrow> wf_export (ws_export_state W s) \<and> length (ratchet_blob (ws_export_state W s)) \<le> 144230"
    and view_wf: "ok s \<Longrightarrow> length (ws_session_id W s) = 16 \<and> wf_anchor (ws_anchor W s)"
    and reimport: "ok s \<Longrightarrow> \<exists>h. from_export (ws_export_state W s) = Inr h \<and> wal_view H h = wal_view W s
      \<and> ws_export_state H h = ws_export_state W s"

lemma export_state_wf:
  assumes "wf_session s"
  shows "wf_export (export_state s) \<and> length (ratchet_blob (export_state s)) \<le> 144230"
proof -
  have "length (ratchet_blob (export_state s)) = 230 + 72 * length (skipped s)"
    using length_blob_encode [OF wf_blob_of [OF assms]] by (simp add: export_blob blob_of_def)
  moreover have "length (skipped s) \<le> 2000"
    using assms skipped_inv_cap [of "skipped s"] by (simp add: wf_session_def skipped_len_def MAX_SKIP_def)
  ultimately show ?thesis using assms by (simp add: wf_export_def wf_session_def export_state_def)
qed

lemma reimport_session:
  assumes "wf_session s" "exportable s"
  shows "\<exists>h. from_export (export_state s) = Ok h \<and> wal_view (handle_wal_source C) h = wal_view (session_wal_source C) s
    \<and> ws_export_state (handle_wal_source C) h = export_state s"
proof -
  obtain m where "import_state (export_state s) = Ok (reloaded s m)" "export_state (reloaded s m) = export_state s"
    by (rule import_export [OF assms])
  then show ?thesis
    by (intro exI [of _ "\<lparr>hnd_session = reloaded s m\<rparr>"])
      (simp add: from_export_def wal_view_def handle_wal_source_def session_wal_source_def, simp add: reloaded_def)
qed

interpretation session_src: wal_source_laws "handle_wal_source C" "session_wal_source C"
  "\<lambda>s. wf_session s \<and> exportable s" for C
  by unfold_locales
    (use export_state_wf reimport_session in \<open>auto simp: session_wal_source_def wf_session_def\<close>)

interpretation handle_src: wal_source_laws "handle_wal_source C" "handle_wal_source C"
  "\<lambda>h. wf_session (hnd_session h) \<and> exportable (hnd_session h)" for C
  by unfold_locales
    (use export_state_wf reimport_session in
      \<open>auto simp: handle_wal_source_def session_wal_source_def wf_session_def wal_view_def\<close>)

end
