(* ===== verification/Storage_Codecs.thy ===== *)
theory Storage_Codecs
  imports Session_Handle
begin

text \<open>
  \<^verbatim>\<open>crates/libgary-storage/src/{error,bundle_codec,trusted_meta,wal_envelope}.rs\<close>: the three formats of the
  session store (bundle, trusted meta, checksummed envelope) and the monotonicity check.
\<close>

section \<open>Errors\<close>

datatype StorageError =
    Io
  | BundleDecode string
  | MetaDecode string
  | SessionErr SessionError
  | BadMagic
  | CorruptBlob
  | CommitmentMismatch
  | TrustedMetaMissing
  | SessionIdentityMismatch
  | RollbackDetected
  | NoBundle
  | EnvelopeTruncated
  | BadEnvelopeMagic
  | EnvelopeChecksum

section \<open>Bundle\<close>

definition BUNDLE_MAGIC :: bytes where "BUNDLE_MAGIC = ascii ''LG01''"
definition BUNDLE_VERSION :: u32 where "BUNDLE_VERSION = 1"

definition encode_bundle :: "session_export \<Rightarrow> bytes" where
  "encode_bundle x =
     (let a = anchor_encode (exp_anchor x) in
      BUNDLE_MAGIC @ to_be_bytes BUNDLE_VERSION @ to_be_bytes (of_nat (length a) :: u32) @ a
      @ to_be_bytes (64 :: u32) @ exp_okm x @ exp_session_id x @ to_be_bytes (exp_epoch x)
      @ to_be_bytes (of_nat (length (ratchet_blob x)) :: u32) @ ratchet_blob x)"

text \<open>The cursor \<open>o\<close> of the source is passed in and returned.\<close>

definition read_u32 :: "bytes \<Rightarrow> nat \<Rightarrow> string \<Rightarrow> StorageError + (u32 \<times> nat)" where
  "read_u32 b o1 ctx = (if o1 + 4 > length b then Err (BundleDecode ctx)
     else Ok (from_be_bytes (bslice o1 (o1 + 4) b), o1 + 4))"

definition take_bytes :: "bytes \<Rightarrow> nat \<Rightarrow> nat \<Rightarrow> string \<Rightarrow> StorageError + (bytes \<times> nat)" where
  "take_bytes b o1 len ctx = (if o1 + len > length b then Err (BundleDecode ctx)
     else Ok (bslice o1 (o1 + len) b, o1 + len))"

definition decode_bundle :: "bytes \<Rightarrow> StorageError + session_export" where
  "decode_bundle b =
     (if length b < 4 + 4 then Err (BundleDecode ''truncated header'')
      else if bslice 0 4 b \<noteq> BUNDLE_MAGIC then Err BadMagic
      else if (from_be_bytes (bslice 4 8 b) :: u32) \<noteq> BUNDLE_VERSION then Err BadMagic
      else result_bind (read_u32 b 8 ''anchor len'') (\<lambda>(alen, o1).
        if unat alen \<noteq> Anchor_LEN then Err (BundleDecode ''anchor len'')
        else result_bind (take_bytes b o1 (unat alen) ''anchor'') (\<lambda>(anchor_bytes, o2).
          result_bind (read_u32 b o2 ''okm len'') (\<lambda>(okml, o3).
            if unat okml \<noteq> 64 then Err (BundleDecode ''okm len'')
            else result_bind (take_bytes b o3 (unat okml) ''okm'') (\<lambda>(okm, o4).
              result_bind (take_bytes b o4 16 ''session_id'') (\<lambda>(sid, o5).
                result_bind (take_bytes b o5 4 ''epoch'') (\<lambda>(epoch_bytes, o6).
                  result_bind (read_u32 b o6 ''blob len'') (\<lambda>(blob_len, o7).
                    result_bind (take_bytes b o7 (unat blob_len) ''blob'') (\<lambda>(blob, o8).
                      if o8 \<noteq> length b then Err (BundleDecode ''trailing garbage'')
                      else Ok \<lparr>ratchet_blob = blob, exp_okm = okm, exp_anchor = anchor_decode anchor_bytes,
                              exp_session_id = sid, exp_epoch = from_be_bytes epoch_bytes\<rparr>)))))))))"

text \<open>The cursor positions are fixed up to the blob, so that decoding is one test and one layout.\<close>

lemma decode_bundle_Ok_iff:
  "decode_bundle b = Ok x \<longleftrightarrow>
     164 \<le> length b \<and> bslice 0 4 b = BUNDLE_MAGIC \<and> (from_be_bytes (bslice 4 8 b) :: u32) = BUNDLE_VERSION
     \<and> unat (from_be_bytes (bslice 8 12 b) :: u32) = 60 \<and> unat (from_be_bytes (bslice 72 76 b) :: u32) = 64
     \<and> length b = 164 + unat (from_be_bytes (bslice 160 164 b) :: u32)
     \<and> x = \<lparr>ratchet_blob = bslice 164 (length b) b, exp_okm = bslice 76 140 b, exp_anchor = anchor_decode (bslice 12 72 b),
            exp_session_id = bslice 140 156 b, exp_epoch = from_be_bytes (bslice 156 160 b)\<rparr>"
  (is "?l \<longleftrightarrow> ?r")
proof
  assume ?l
  then show ?r by (auto simp: decode_bundle_def read_u32_def take_bytes_def Anchor_LEN_def split: if_splits)
next
  assume ?r
  then show ?l by (simp add: decode_bundle_def read_u32_def take_bytes_def Anchor_LEN_def)
qed

lemma bundle_layout_slices:
  assumes "length b = 164 + n"
  shows "b = bslice 0 4 b @ bslice 4 8 b @ bslice 8 12 b @ bslice 12 72 b @ bslice 72 76 b @ bslice 76 140 b
     @ bslice 140 156 b @ bslice 156 160 b @ bslice 160 164 b @ bslice 164 (length b) b"
  using assms by (simp add: bslice_append bslice_full)

lemma bundle_encode_layout:
  assumes "wf_export x"
  shows "encode_bundle x = BUNDLE_MAGIC @ to_be_bytes BUNDLE_VERSION @ to_be_bytes (60 :: u32) @ anchor_encode (exp_anchor x)
      @ to_be_bytes (64 :: u32) @ exp_okm x @ exp_session_id x @ to_be_bytes (exp_epoch x)
      @ to_be_bytes (of_nat (length (ratchet_blob x)) :: u32) @ ratchet_blob x"
  using assms length_anchor_encode by (simp add: encode_bundle_def Let_def wf_export_def)

interpretation lg01: canonical_codec "\<lambda>x. Inr (encode_bundle x) :: unit + bytes" decode_bundle wf_export
proof
  fix x bs assume wf: "wf_export x" and "(Inr (encode_bundle x) :: unit + bytes) = Inr bs"
  then have b: "bs = encode_bundle x" by simp
  have l: "length (anchor_encode (exp_anchor x)) = 60" "length BUNDLE_MAGIC = 4" "length (exp_okm x) = 64"
    "length (exp_session_id x) = 16" "length (ratchet_blob x) < 2 ^ 32"
    using wf length_anchor_encode by (simp_all add: wf_export_def BUNDLE_MAGIC_def)
  have a: "anchor_decode (anchor_encode (exp_anchor x)) = exp_anchor x"
    using wf by (simp add: wf_export_def anchor_decode_encode)
  show "decode_bundle bs = Inr x"
    unfolding b bundle_encode_layout [OF wf] decode_bundle_Ok_iff
    using l by (simp add: bslice_fields unat_of_nat a)
next
  fix bs x assume d: "decode_bundle bs = Inr x"
  from d have lb: "length bs = 164 + unat (from_be_bytes (bslice 160 164 bs) :: u32)"
    and m: "BUNDLE_MAGIC = bslice 0 4 bs" and v: "(from_be_bytes (bslice 4 8 bs) :: u32) = BUNDLE_VERSION"
    and al: "(from_be_bytes (bslice 8 12 bs) :: u32) = 60" and ol: "(from_be_bytes (bslice 72 76 bs) :: u32) = 64"
    and x: "x = \<lparr>ratchet_blob = bslice 164 (length bs) bs, exp_okm = bslice 76 140 bs, exp_anchor = anchor_decode (bslice 12 72 bs),
            exp_session_id = bslice 140 156 bs, exp_epoch = from_be_bytes (bslice 156 160 bs)\<rparr>"
    by (auto simp: decode_bundle_Ok_iff word_unat_eq_iff)
  have wf: "wf_export x"
    using lb unat_bound_u32 [of "from_be_bytes (bslice 160 164 bs)"] wf_anchor_decode [of "bslice 12 72 bs"]
    by (simp add: x wf_export_def)
  have be: "to_be_bytes BUNDLE_VERSION = bslice 4 8 bs" "to_be_bytes (60 :: u32) = bslice 8 12 bs"
    "to_be_bytes (64 :: u32) = bslice 72 76 bs"
    using lb by (simp_all flip: v al ol)
  have "encode_bundle x = bs"
    unfolding bundle_encode_layout [OF wf] be m
    using lb anchor_encode_decode [of "bslice 12 72 bs"] by (simp add: x) (metis bundle_layout_slices [OF lb])
  with wf show "wf_export x \<and> (Inr (encode_bundle x) :: unit + bytes) = Inr bs" by simp
qed

section \<open>Trusted meta\<close>

definition META_MAGIC :: bytes where "META_MAGIC = ascii ''LGTM''"
definition META_VERSION :: u32 where "META_VERSION = 1"
definition META_ENCODED_LEN :: nat where "META_ENCODED_LEN = 4 + 4 + 16 + 4 + 8 + 8 + 8 + 8 + 1 + 32"

record trusted_anchor_meta =
  tm_session_id :: bytes
  tm_epoch :: u32
  tm_global_epoch_be :: u64
  tm_highest_wire_seen_be :: u64
  tm_send_wire_counter :: u64
  tm_recv_hw_none :: bool
  tm_recv_hw_be :: u64
  tm_state_commitment :: bytes

definition from_wal_source :: "'s wal_source \<Rightarrow> 's \<Rightarrow> trusted_anchor_meta" where
  "from_wal_source W s =
     (let recv_hw_none = (ws_recv_high_water W s = None);
          recv_hw_be = (case ws_recv_high_water W s of Some h \<Rightarrow> h | None \<Rightarrow> 0);
          a = ws_anchor W s
      in \<lparr>tm_session_id = ws_session_id W s, tm_epoch = ws_epoch W s, tm_global_epoch_be = global_epoch_be a,
          tm_highest_wire_seen_be = highest_wire_seen_be a, tm_send_wire_counter = ws_send_wire_counter W s,
          tm_recv_hw_none = recv_hw_none, tm_recv_hw_be = recv_hw_be, tm_state_commitment = state_commitment a\<rparr>)"

definition meta_encode :: "trusted_anchor_meta \<Rightarrow> bytes" where
  "meta_encode m =
     META_MAGIC @ to_be_bytes META_VERSION @ tm_session_id m @ to_be_bytes (tm_epoch m)
     @ to_be_bytes (tm_global_epoch_be m) @ to_be_bytes (tm_highest_wire_seen_be m)
     @ to_be_bytes (tm_send_wire_counter m) @ to_be_bytes (tm_recv_hw_be m)
     @ [if tm_recv_hw_none m then 1 else 0] @ tm_state_commitment m"

definition meta_decode :: "bytes \<Rightarrow> StorageError + trusted_anchor_meta" where
  "meta_decode b =
     (if length b \<noteq> META_ENCODED_LEN then Err (MetaDecode ''length'')
      else if bslice 0 4 b \<noteq> META_MAGIC then Err (MetaDecode ''magic'')
      else if (from_be_bytes (bslice 4 8 b) :: u32) \<noteq> META_VERSION then Err (MetaDecode ''version'')
      else Ok \<lparr>tm_session_id = bslice 8 24 b, tm_epoch = from_be_bytes (bslice 24 28 b),
              tm_global_epoch_be = from_be_bytes (bslice 28 36 b),
              tm_highest_wire_seen_be = from_be_bytes (bslice 36 44 b),
              tm_send_wire_counter = from_be_bytes (bslice 44 52 b),
              tm_recv_hw_none = (b ! 60 \<noteq> 0), tm_recv_hw_be = from_be_bytes (bslice 52 60 b),
              tm_state_commitment = bslice 61 93 b\<rparr>)"

definition wf_meta :: "trusted_anchor_meta \<Rightarrow> bool" where
  "wf_meta m \<longleftrightarrow> length (tm_session_id m) = 16 \<and> length (tm_state_commitment m) = 32"

text \<open>The flag byte makes the format decodable but not canonical: every non-zero byte reads as true.\<close>

interpretation lgtm: decodable "\<lambda>m. Inr (meta_encode m) :: unit + bytes" meta_decode wf_meta
proof
  fix m bs assume wf: "wf_meta m" and "(Inr (meta_encode m) :: unit + bytes) = Inr bs"
  then have b: "bs = meta_encode m" by simp
  have l: "length META_MAGIC = 4" "length (tm_session_id m) = 16" "length (tm_state_commitment m) = 32"
    using wf by (simp_all add: wf_meta_def META_MAGIC_def)
  have n: "bs ! 60 = (if tm_recv_hw_none m then 1 else 0)" using l by (simp add: b meta_encode_def nth_append)
  have s: "bslice 0 4 bs = META_MAGIC" "bslice 4 8 bs = to_be_bytes META_VERSION" "bslice 8 24 bs = tm_session_id m"
    "bslice 24 28 bs = to_be_bytes (tm_epoch m)" "bslice 28 36 bs = to_be_bytes (tm_global_epoch_be m)"
    "bslice 36 44 bs = to_be_bytes (tm_highest_wire_seen_be m)" "bslice 44 52 bs = to_be_bytes (tm_send_wire_counter m)"
    "bslice 52 60 bs = to_be_bytes (tm_recv_hw_be m)" "bslice 61 93 bs = tm_state_commitment m"
    using l unfolding b meta_encode_def by (simp_all add: bslice_fields)
  have "length bs = META_ENCODED_LEN" using l by (simp add: b meta_encode_def META_ENCODED_LEN_def)
  then show "meta_decode bs = Inr m" by (simp add: meta_decode_def s n)
qed

definition assert_monotonic_vs_trusted :: "'s wal_source \<Rightarrow> 's \<Rightarrow> trusted_anchor_meta \<Rightarrow> StorageError + unit" where
  "assert_monotonic_vs_trusted W s m =
     (if ws_session_id W s \<noteq> tm_session_id m then Err SessionIdentityMismatch
      else if ws_epoch W s < tm_epoch m then Err RollbackDetected
      else let a = ws_anchor W s in
        if global_epoch_be a < tm_global_epoch_be m then Err RollbackDetected
        else if highest_wire_seen_be a < tm_highest_wire_seen_be m then Err RollbackDetected
        else if ws_send_wire_counter W s < tm_send_wire_counter m then Err RollbackDetected
        else if state_commitment a \<noteq> tm_state_commitment m then Err CommitmentMismatch
        else case (tm_recv_hw_none m, ws_recv_high_water W s) of
          (True, None) \<Rightarrow> Ok ()
        | (True, Some _) \<Rightarrow> Ok ()
        | (False, None) \<Rightarrow> Err RollbackDetected
        | (False, Some lc) \<Rightarrow> if lc < tm_recv_hw_be m then Err RollbackDetected else Ok ())"

section \<open>Envelope\<close>

definition WAL_MAGIC :: bytes where "WAL_MAGIC = ascii ''LGW1''"
definition WAL_VERSION :: u32 where "WAL_VERSION = 1"

text \<open>The checksum both directions compute; \<open>as u32\<close> truncates the lengths.\<close>

definition wal_checksum :: "'r crypto \<Rightarrow> u32 \<Rightarrow> u32 \<Rightarrow> bytes \<Rightarrow> bytes \<Rightarrow> bytes" where
  "wal_checksum C bl ml bundle_bytes meta_bytes =
     sha256 C (to_be_bytes WAL_VERSION @ to_be_bytes bl @ to_be_bytes ml @ bundle_bytes @ meta_bytes)"

definition encode_wal_envelope :: "'r crypto \<Rightarrow> bytes \<Rightarrow> bytes \<Rightarrow> bytes" where
  "encode_wal_envelope C bundle_bytes meta_bytes =
     (let bl = of_nat (length bundle_bytes) :: u32; ml = of_nat (length meta_bytes) :: u32;
          checksum = wal_checksum C bl ml bundle_bytes meta_bytes
      in WAL_MAGIC @ to_be_bytes WAL_VERSION @ to_be_bytes bl @ to_be_bytes ml @ bundle_bytes @ meta_bytes @ checksum)"

definition decode_wal_envelope :: "'r crypto \<Rightarrow> bytes \<Rightarrow> StorageError + (bytes \<times> bytes)" where
  "decode_wal_envelope C b =
     (if length b < 4 + 4 + 4 + 4 + 32 then Err EnvelopeTruncated
      else if length b < 16 \<or> bslice 0 4 b \<noteq> WAL_MAGIC then Err BadEnvelopeMagic
      else if (from_be_bytes (bslice 4 8 b) :: u32) \<noteq> WAL_VERSION then Err BadEnvelopeMagic
      else let bundle_len = unat (from_be_bytes (bslice 8 12 b) :: u32);
               meta_len = unat (from_be_bytes (bslice 12 16 b) :: u32) in
        result_bind (ok_or EnvelopeTruncated
            (Option.bind (checked_add_usize 16 bundle_len) (\<lambda>x. checked_add_usize x meta_len))) (\<lambda>body_end.
          result_bind (ok_or EnvelopeTruncated (checked_add_usize body_end 32)) (\<lambda>total.
            if length b \<noteq> total then Err EnvelopeTruncated
            else let bundle_bytes = bslice 16 (16 + bundle_len) b; meta_bytes = bslice (16 + bundle_len) body_end b;
                     expected = wal_checksum C (of_nat bundle_len) (of_nat meta_len) bundle_bytes meta_bytes;
                     got = bslice body_end (body_end + 32) b
              in if expected \<noteq> got then Err EnvelopeChecksum else Ok (bundle_bytes, meta_bytes))))"

definition wf_wal :: "'r crypto \<Rightarrow> bytes \<times> bytes \<Rightarrow> bool" where
  "wf_wal C p \<longleftrightarrow> length (fst p) < 2 ^ 32 \<and> length (snd p) < 2 ^ 32
     \<and> length (wal_checksum C (of_nat (length (fst p))) (of_nat (length (snd p))) (fst p) (snd p)) = 32"

lemma wf_wal_lens: "crypto_lens C \<Longrightarrow> wf_wal C p \<longleftrightarrow> length (fst p) < 2 ^ 32 \<and> length (snd p) < 2 ^ 32"
  by (simp add: wf_wal_def wal_checksum_def crypto_lensD)

lemma wal_layout_slices:
  assumes "length b = 48 + n + k"
  shows "b = bslice 0 4 b @ bslice 4 8 b @ bslice 8 12 b @ bslice 12 16 b @ bslice 16 (16 + n) b
     @ bslice (16 + n) (16 + n + k) b @ bslice (16 + n + k) (48 + n + k) b"
  using assms by (simp add: bslice_append bslice_full)

lemma decode_wal_encode:
  assumes "wf_wal C (bb, mb)"
  shows "decode_wal_envelope C (encode_wal_envelope C bb mb) = Ok (bb, mb)"
proof -
  let ?b = "encode_wal_envelope C bb mb"
  let ?s = "wal_checksum C (of_nat (length bb)) (of_nat (length mb)) bb mb"
  have l: "length WAL_MAGIC = 4" "length ?s = 32" "length bb < 2 ^ 32" "length mb < 2 ^ 32"
    using assms by (simp_all add: WAL_MAGIC_def wf_wal_def)
  have b: "?b = WAL_MAGIC @ to_be_bytes WAL_VERSION @ to_be_bytes (of_nat (length bb) :: u32)
      @ to_be_bytes (of_nat (length mb) :: u32) @ bb @ mb @ ?s"
    by (simp add: encode_wal_envelope_def Let_def)
  have s: "bslice 0 4 ?b = WAL_MAGIC" "bslice 4 8 ?b = to_be_bytes WAL_VERSION"
    "bslice 8 12 ?b = to_be_bytes (of_nat (length bb) :: u32)" "bslice 12 16 ?b = to_be_bytes (of_nat (length mb) :: u32)"
    using l unfolding b by (simp_all add: bslice_fields)
  have "drop 16 ?b = bb @ mb @ ?s" using l unfolding b by (simp add: drop_skip)
  then have t: "bslice 16 (16 + length bb) ?b = bb" "bslice (16 + length bb) (16 + length bb + length mb) ?b = mb"
    "bslice (16 + length bb + length mb) (48 + (length bb + length mb)) ?b = ?s"
    using l by (simp_all add: bslice_def flip: drop_drop add: add.commute)
  have "length ?b = 48 + length bb + length mb" using l by (simp add: b)
  then show ?thesis
    using l by (simp add: decode_wal_envelope_def s t Let_def checked_add_usize_def usize_bound_def unat_of_nat)
qed

lemma encode_wal_decode:
  assumes "decode_wal_envelope C b = Ok (bb, mb)"
  shows "wf_wal C (bb, mb) \<and> encode_wal_envelope C bb mb = b"
proof -
  let ?n = "unat (from_be_bytes (bslice 8 12 b) :: u32)" and ?k = "unat (from_be_bytes (bslice 12 16 b) :: u32)"
  have lb: "length b = 48 + ?n + ?k" and m: "WAL_MAGIC = bslice 0 4 b" and v: "WAL_VERSION = from_be_bytes (bslice 4 8 b)"
    and bb: "bb = bslice 16 (16 + ?n) b" and mb: "mb = bslice (16 + ?n) (16 + ?n + ?k) b"
    and s: "wal_checksum C (of_nat ?n) (of_nat ?k) bb mb = bslice (16 + ?n + ?k) (48 + ?n + ?k) b"
    using assms by (auto simp: decode_wal_envelope_def Let_def checked_add_usize_def ac_simps split: if_splits)
  have l: "length bb = ?n" "length mb = ?k" using lb by (simp_all add: bb mb)
  have "length (wal_checksum C (of_nat ?n) (of_nat ?k) bb mb) = 32" unfolding s using lb by simp
  then have wf: "wf_wal C (bb, mb)"
    using l unat_bound_u32 [of "from_be_bytes (bslice 8 12 b)"] unat_bound_u32 [of "from_be_bytes (bslice 12 16 b)"]
    by (simp add: wf_wal_def)
  have be: "to_be_bytes WAL_VERSION = bslice 4 8 b" "to_be_bytes (of_nat ?n :: u32) = bslice 8 12 b"
    "to_be_bytes (of_nat ?k :: u32) = bslice 12 16 b"
    using lb by (simp_all add: v)
  have "encode_wal_envelope C bb mb = bslice 0 4 b @ bslice 4 8 b @ bslice 8 12 b @ bslice 12 16 b @ bslice 16 (16 + ?n) b
     @ bslice (16 + ?n) (16 + ?n + ?k) b @ bslice (16 + ?n + ?k) (48 + ?n + ?k) b"
    unfolding encode_wal_envelope_def Let_def l be m s by (simp only: bb mb)
  with wf wal_layout_slices [OF lb] show ?thesis by simp
qed

interpretation lgw1: canonical_codec "\<lambda>p. Inr (encode_wal_envelope C (fst p) (snd p)) :: unit + bytes"
  "decode_wal_envelope C" "wf_wal C" for C
  by unfold_locales (use decode_wal_encode encode_wal_decode in \<open>auto, blast+\<close>)

section \<open>The monotonicity check\<close>

lemma monotonic_self:
  assumes "wal_view H h = wal_view W s"
  shows "assert_monotonic_vs_trusted H h (from_wal_source W s) = Ok ()"
  using assms by (auto simp: assert_monotonic_vs_trusted_def from_wal_source_def wal_view_def Let_def split: option.splits)

lemma wf_from_wal_source:
  "length (ws_session_id W s) = 16 \<Longrightarrow> wf_anchor (ws_anchor W s) \<Longrightarrow> wf_meta (from_wal_source W s)"
  by (simp add: wf_meta_def from_wal_source_def Let_def wf_anchor_def)

section \<open>Properties\<close>

text \<open>The session bundle is canonical: a byte string decodes to an export exactly when that export, with
  fields of their fixed lengths and a blob whose length fits its field, encodes to it.\<close>

lemma bundle_codec:
  "decode_bundle b = Ok x \<longleftrightarrow> wf_export x \<and> encode_bundle x = b"
  using lg01.dec_Ok_iff [of b x] by simp

text \<open>The envelope accepts exactly what it writes: a file decodes to a bundle and a meta section exactly
  when it is their envelope, checksum included, so a damaged file passes only if its checksum was made to fit.\<close>

lemma wal_envelope_codec:
  assumes "crypto_lens C"
  shows "decode_wal_envelope C b = Ok (bb, mb) \<longleftrightarrow>
     length bb < 2 ^ 32 \<and> length mb < 2 ^ 32 \<and> encode_wal_envelope C bb mb = b"
  using lgw1.dec_Ok_iff [of C b "(bb, mb)"] wf_wal_lens [OF assms, of "(bb, mb)"] by auto

lemma wal_envelope_codec_witness:
  "decode_wal_envelope sample_crypto (encode_wal_envelope sample_crypto [1, 2] [3]) = Ok ([1, 2], [3])"
  using wal_envelope_codec [OF sample_lens, of "encode_wal_envelope sample_crypto [1, 2] [3]" "[1, 2]" "[3]"] by simp

text \<open>The check against the trusted meta passes exactly when the identity and the commitment agree and no
  counter is behind: epoch, global epoch, highest wire counter seen, send counter, and the receive high
  water mark when the meta has one.\<close>

lemma monotonic_check:
  "assert_monotonic_vs_trusted W s m = Ok () \<longleftrightarrow>
     ws_session_id W s = tm_session_id m \<and> tm_epoch m \<le> ws_epoch W s
     \<and> tm_global_epoch_be m \<le> global_epoch_be (ws_anchor W s)
     \<and> tm_highest_wire_seen_be m \<le> highest_wire_seen_be (ws_anchor W s)
     \<and> tm_send_wire_counter m \<le> ws_send_wire_counter W s
     \<and> state_commitment (ws_anchor W s) = tm_state_commitment m
     \<and> (tm_recv_hw_none m \<or> (\<exists>hw. ws_recv_high_water W s = Some hw \<and> tm_recv_hw_be m \<le> hw))"
  by (auto simp: assert_monotonic_vs_trusted_def Let_def not_less split: option.splits bool.splits)

end
