(* ===== verification/Storage.thy ===== *)
theory Storage
  imports Storage_Codecs
begin

text \<open>
  \<^verbatim>\<open>crates/libgary-storage/src/{atomic_write,store}.rs\<close>: the store on a file system.  A file system maps paths
  to contents; \<open>io_env\<close> says which call of an atomic write fails, if any (the state it leaves is also what
  a crash at that call leaves, \<open>rename\<close> being atomic).  Directories are implicit: the list in a path names one that
  can be opened.  For a bare file name, whose parent is the empty path, the open in \<open>sync_dir\<close> always fails on Unix:
  that is the fault \<open>SyncDirFails\<close>.
\<close>

section \<open>File system\<close>

datatype fs_path = RootPath | FilePath "string list" string "string option"

type_synonym fs = "fs_path \<Rightarrow> bytes option"

fun path_parent :: "fs_path \<Rightarrow> string list option" where
  "path_parent RootPath = None"
| "path_parent (FilePath d _ _) = Some d"

fun with_extension :: "fs_path \<Rightarrow> string \<Rightarrow> fs_path" where
  "with_extension RootPath _ = RootPath"
| "with_extension (FilePath d stem _) e = FilePath d stem (Some e)"

datatype io_env =
    NoFault
  | CreateDirFails
  | OpenFails
  | WriteFails nat
  | SyncFails
  | RenameFails
  | SyncDirFails

text \<open>On Unix the directory is opened and synced, elsewhere nothing is done.\<close>

definition sync_dir :: "io_env \<Rightarrow> string list \<Rightarrow> StorageError + unit" where
  "sync_dir env dir = (if env = SyncDirFails then Err Io else Ok ())"

lemma sync_dir_simps [simp]: "sync_dir SyncDirFails dir = Err Io" "env \<noteq> SyncDirFails \<Longrightarrow> sync_dir env dir = Ok ()"
  by (simp_all add: sync_dir_def)

definition atomic_write :: "io_env \<Rightarrow> fs_path \<Rightarrow> bytes \<Rightarrow> fs \<Rightarrow> (StorageError + unit) \<times> fs" where
  "atomic_write env path data fs =
     (case path_parent path of
        None \<Rightarrow> (Err (BundleDecode ''no parent dir''), fs)
      | Some parent \<Rightarrow>
          if env = CreateDirFails then (Err Io, fs)
          else let tmp = with_extension path ''atomic_tmp'' in
            if env = OpenFails then (Err Io, fs)
            else let fs1 = fs(tmp \<mapsto> []) in
              (case env of
                 WriteFails n \<Rightarrow> (Err Io, fs1(tmp \<mapsto> take n data))
               | _ \<Rightarrow>
                   let fs2 = fs1(tmp \<mapsto> data) in
                   if env = SyncFails then (Err Io, fs2)
                   else if env = RenameFails then (Err Io, fs2)
                   else let fs3 = (fs2(tmp := None))(path := fs2 tmp) in
                     (sync_dir env parent, fs3)))"

definition read_if_exists :: "bool \<Rightarrow> fs_path \<Rightarrow> fs \<Rightarrow> StorageError + bytes option" where
  "read_if_exists fails path fs = (if fails then Err Io else Ok (fs path))"

section \<open>Store\<close>

record session_store =
  envelope_path :: fs_path

definition store_new :: "fs_path \<Rightarrow> session_store" where
  "store_new p = \<lparr>envelope_path = p\<rparr>"

definition verify_anchor :: "'s wal_source \<Rightarrow> 's \<Rightarrow> bool" where
  "verify_anchor W s = ws_verify_anchor_commitment W s"

text \<open>The bytes \<open>save_session\<close> writes, and what \<open>load_session\<close> makes of the bytes it has read.\<close>

definition session_wal_bytes :: "'r crypto \<Rightarrow> 's wal_source \<Rightarrow> 's \<Rightarrow> bytes" where
  "session_wal_bytes C W s =
     (let export = ws_export_state W s;
          bundle_bytes = encode_bundle export;
          m = from_wal_source W s;
          meta_arr = meta_encode m
      in encode_wal_envelope C bundle_bytes meta_arr)"

definition save_session :: "'r crypto \<Rightarrow> 's wal_source \<Rightarrow> io_env \<Rightarrow> session_store \<Rightarrow> 's \<Rightarrow> fs \<Rightarrow> (StorageError + unit) \<times> fs" where
  "save_session C W env st s fs = atomic_write env (envelope_path st) (session_wal_bytes C W s) fs"

definition commit_anchor :: "'r crypto \<Rightarrow> 's wal_source \<Rightarrow> io_env \<Rightarrow> session_store \<Rightarrow> 's \<Rightarrow> fs \<Rightarrow> (StorageError + unit) \<times> fs" where
  "commit_anchor C W env st s fs = save_session C W env st s fs"

fun envelope_error :: "StorageError \<Rightarrow> StorageError" where
  "envelope_error EnvelopeTruncated = CorruptBlob"
| "envelope_error BadEnvelopeMagic = CorruptBlob"
| "envelope_error EnvelopeChecksum = CorruptBlob"
| "envelope_error e = e"

fun bundle_error :: "StorageError \<Rightarrow> StorageError" where
  "bundle_error BadMagic = CorruptBlob"
| "bundle_error (BundleDecode _) = CorruptBlob"
| "bundle_error e = e"

definition load_bytes :: "'r crypto \<Rightarrow> bytes \<Rightarrow> StorageError + session_handle" where
  "load_bytes C wal_bytes =
     result_bind (map_err envelope_error (decode_wal_envelope C wal_bytes)) (\<lambda>(bundle_bytes, meta_bytes).
     result_bind (map_err bundle_error (decode_bundle bundle_bytes)) (\<lambda>export.
     result_bind (map_err SessionErr (from_export export)) (\<lambda>h.
       if \<not> verify_anchor (handle_wal_source C) h then Err CommitmentMismatch
       else result_bind (meta_decode meta_bytes) (\<lambda>m.
            result_bind (assert_monotonic_vs_trusted (handle_wal_source C) h m) (\<lambda>_. Ok h)))))"

definition load_session :: "'r crypto \<Rightarrow> bool \<Rightarrow> session_store \<Rightarrow> fs \<Rightarrow> StorageError + session_handle" where
  "load_session C fails st fs =
     result_bind (read_if_exists fails (envelope_path st) fs) (\<lambda>x.
       case x of None \<Rightarrow> Err NoBundle | Some wal_bytes \<Rightarrow> load_bytes C wal_bytes)"

section \<open>Atomic write\<close>

text \<open>The store's path has a parent and does not itself end in the temporary extension.\<close>

fun safe_path :: "fs_path \<Rightarrow> bool" where
  "safe_path RootPath = False"
| "safe_path (FilePath _ _ e) = (e \<noteq> Some ''atomic_tmp'')"

lemma safe_path_tmp: "safe_path p \<Longrightarrow> with_extension p ''atomic_tmp'' \<noteq> p \<and> (\<exists>d. path_parent p = Some d)"
  by (cases p) auto

lemma atomic_write_outcome:
  assumes "safe_path p" "atomic_write env p data fs = (x, fs')"
  shows "(fs' p = fs p \<or> fs' p = Some data) \<and> (x = Ok () \<longrightarrow> fs' p = Some data) \<and> (env = NoFault \<longrightarrow> x = Ok ())
    \<and> (\<forall>q. q \<noteq> p \<and> q \<noteq> with_extension p ''atomic_tmp'' \<longrightarrow> fs' q = fs q)"
  using safe_path_tmp [OF assms(1)] assms(2)
  by (auto simp: atomic_write_def Let_def split: io_env.splits if_splits)

section \<open>Saving and loading\<close>

context wal_source_laws
begin

text \<open>What the store wrote of a source it reads back when the commitment is up to date, and refuses otherwise.\<close>

lemma load_saved_bytes:
  assumes "ok s" "crypto_lens C" "H = handle_wal_source C"
  shows "\<exists>h. load_bytes C (session_wal_bytes C W s)
      = (if ws_verify_anchor_commitment W s then Ok h else Err CommitmentMismatch) \<and> from_export (ws_export_state W s) = Ok h
    \<and> wal_view H h = wal_view W s"
proof -
  let ?x = "ws_export_state W s" and ?m = "from_wal_source W s"
  obtain h where h: "from_export ?x = Ok h" "wal_view H h = wal_view W s" using reimport [OF assms(1)] by blast
  have x: "wf_export ?x" "length (ratchet_blob ?x) \<le> 144230" using export_wf [OF assms(1)] by simp_all
  have m: "wf_meta ?m" using view_wf [OF assms(1)] by (simp add: wf_from_wal_source)
  have b: "decode_bundle (encode_bundle ?x) = Ok ?x" using lg01.dec_Ok_iff x(1) by simp
  have "meta_decode (meta_encode ?m) = Ok ?m" using lgtm.dec_enc [OF m] by simp
  moreover have "length (encode_bundle ?x) < 2 ^ 32"
    using x length_anchor_encode by (simp add: bundle_encode_layout [OF x(1)] wf_export_def BUNDLE_MAGIC_def)
  moreover have "length (meta_encode ?m) < 2 ^ 32" using m by (simp add: meta_encode_def wf_meta_def META_MAGIC_def)
  ultimately have "decode_wal_envelope C (session_wal_bytes C W s) = Ok (encode_bundle ?x, meta_encode ?m)"
    and md: "meta_decode (meta_encode ?m) = Ok ?m"
    using decode_wal_encode [of C "encode_bundle ?x" "meta_encode ?m"] wf_wal_lens [OF assms(2)]
    by (simp_all add: session_wal_bytes_def Let_def)
  moreover have "verify_anchor (handle_wal_source C) h = ws_verify_anchor_commitment W s"
    using h(2) assms(3) by (simp add: verify_anchor_def wal_view_def)
  moreover have "assert_monotonic_vs_trusted (handle_wal_source C) h ?m = Ok ()"
    using monotonic_self [OF h(2)] assms(3) by simp
  ultimately have "load_bytes C (session_wal_bytes C W s)
      = (if ws_verify_anchor_commitment W s then Ok h else Err CommitmentMismatch)"
    using h(1) b by (simp add: load_bytes_def)
  with h show ?thesis by blast
qed

end

lemma verify_recomputed: "verify_anchor_commitment C (recompute_anchor_commitment C s)"
  by (simp add: verify_anchor_commitment_def recompute_anchor_commitment_def session_snapshot_preimage_def
      peer_or_zero_def recv_hw_or_sentinel_def)

lemma paired_recompute:
  "crypto_lens C \<Longrightarrow> paired a b \<Longrightarrow> paired a (recompute_anchor_commitment C b)"
  using recompute_anchor_commitment_inv [of C b]
  by (auto simp: paired_def recompute_anchor_commitment_def split: option.splits)

lemma exportable_recompute: "exportable (recompute_anchor_commitment C s) = exportable s"
  by (simp add: exportable_def recompute_anchor_commitment_def)

lemma load_after_write:
  assumes "safe_path (envelope_path st)" "save_session C W NoFault st s fs = (x, fs')"
  shows "x = Ok () \<and> load_session C False st fs' = load_bytes C (session_wal_bytes C W s)"
  using atomic_write_outcome [OF assms(1) assms(2) [unfolded save_session_def]]
  by (simp add: load_session_def read_if_exists_def)

text \<open>Saving with a fresh commitment, then loading.\<close>

lemma recompute_paired:
  "crypto_lens C \<Longrightarrow> paired a b \<Longrightarrow> paired (recompute_anchor_commitment C a) b"
  using recompute_anchor_commitment_inv [of C a]
  by (auto simp: paired_def recompute_anchor_commitment_def split: option.splits)

lemma save_load_session:
  assumes "crypto_lens C" "session_inv (hnd_session h)" "exportable (hnd_session h)" "safe_path (envelope_path st)"
  shows "\<exists>fs' h2 m. save_session C (handle_wal_source C) NoFault st (hnd_recompute_anchor_commitment C h) fs = (Ok (), fs')
    \<and> load_session C False st fs' = Ok h2
    \<and> hnd_export_state h2 = hnd_export_state (hnd_recompute_anchor_commitment C h)
    \<and> hnd_session h2 = reloaded (recompute_anchor_commitment C (hnd_session h)) m \<and> skipped_inv m
    \<and> skipped_lookup m = skipped_lookup (skipped (hnd_session h)) \<and> skipped_len m = skipped_len (skipped (hnd_session h))"
proof -
  let ?h1 = "hnd_recompute_anchor_commitment C h" and ?s1 = "recompute_anchor_commitment C (hnd_session h)"
  have s1: "hnd_session ?h1 = ?s1" by (simp add: hnd_recompute_anchor_commitment_def)
  have inv: "session_inv ?s1" by (rule recompute_anchor_commitment_inv [OF assms(1,2)])
  obtain fs' x where sv: "save_session C (handle_wal_source C) NoFault st ?h1 fs = (x, fs')"
    by (cases "save_session C (handle_wal_source C) NoFault st ?h1 fs")
  have ex: "exportable ?s1" using assms(3) by (simp add: exportable_recompute)
  have "\<exists>h2. load_bytes C (session_wal_bytes C (handle_wal_source C) ?h1) = Ok h2 \<and> from_export (export_state ?s1) = Ok h2"
    using handle_src.load_saved_bytes [of ?h1 C C] inv ex assms(1) verify_recomputed [of C "hnd_session h"]
    by (auto simp: s1 handle_wal_source_def session_inv_def)
  then obtain h2 where h2: "load_bytes C (session_wal_bytes C (handle_wal_source C) ?h1) = Ok h2"
    "from_export (export_state ?s1) = Ok h2" by blast
  obtain m where m: "import_state (export_state ?s1) = Ok (reloaded ?s1 m)" "skipped_inv m"
    "skipped_lookup m = skipped_lookup (skipped ?s1)" "skipped_len m = skipped_len (skipped ?s1)" "export_state (reloaded ?s1 m) = export_state ?s1"
    by (rule import_export [OF session_invD(1) [OF inv] ex])
  have "hnd_session h2 = reloaded ?s1 m" using h2(2) m(1) by (auto simp: from_export_def)
  then show ?thesis
    using load_after_write [OF assms(4) sv] sv h2(1) m(2-5)
    by (auto simp: hnd_export_state_def s1, auto simp: recompute_anchor_commitment_def)
qed

lemma save_load:
  assumes "crypto_lens C" "session_inv (hnd_session h)" "exportable (hnd_session h)" "safe_path (envelope_path st)"
  shows "\<exists>fs' h2. save_session C (handle_wal_source C) NoFault st (hnd_recompute_anchor_commitment C h) fs = (Ok (), fs')
    \<and> load_session C False st fs' = Ok h2
    \<and> hnd_export_state h2 = hnd_export_state (hnd_recompute_anchor_commitment C h)
    \<and> session_inv (hnd_session h2) \<and> skipped_len (skipped (hnd_session h2)) = skipped_len (skipped (hnd_session h))
    \<and> (\<forall>a. paired a (hnd_session h) \<longrightarrow> paired a (hnd_session h2))
    \<and> (\<forall>b. paired (hnd_session h) b \<longrightarrow> paired (hnd_session h2) b)
    \<and> send_ck (hnd_session h2) = send_ck (hnd_session h) \<and> send_sym_idx (hnd_session h2) = send_sym_idx (hnd_session h)
    \<and> send_wire_counter (hnd_session h2) = send_wire_counter (hnd_session h)
    \<and> next_header (hnd_session h2) = next_header (hnd_session h)
    \<and> mode (hnd_session h2) = Active (epoch (hnd_session h2))"
proof -
  let ?s1 = "recompute_anchor_commitment C (hnd_session h)"
  obtain fs' h2 m where l: "save_session C (handle_wal_source C) NoFault st (hnd_recompute_anchor_commitment C h) fs = (Ok (), fs')"
      "load_session C False st fs' = Ok h2" "hnd_export_state h2 = hnd_export_state (hnd_recompute_anchor_commitment C h)"
    and hs: "hnd_session h2 = reloaded ?s1 m"
    and m: "skipped_inv m" "skipped_lookup m = skipped_lookup (skipped (hnd_session h))" "skipped_len m = skipped_len (skipped (hnd_session h))"
    using save_load_session [OF assms, of fs] by blast
  have "session_inv (hnd_session h2)"
    unfolding hs by (rule reloaded_inv [OF recompute_anchor_commitment_inv [OF assms(1,2)] m(1)])
  moreover have "paired a (hnd_session h2)" if "paired a (hnd_session h)" for a
    unfolding hs using paired_reload [OF paired_recompute [OF assms(1) that] m(1)] m(2)
    by (simp add: recompute_anchor_commitment_def)
  moreover have "paired (hnd_session h2) b" if "paired (hnd_session h) b" for b
    unfolding hs by (rule reload_paired [OF recompute_paired [OF assms(1) that] m(1)])
  ultimately show ?thesis using l m(3)
    by (auto simp: hs) (auto simp: reloaded_def recompute_anchor_commitment_def next_header_def fun_eq_iff)
qed

section \<open>A sample store\<close>

definition sample_store :: session_store where
  "sample_store = store_new (FilePath [''data''] ''session'' (Some ''lgw1''))"

definition sample_handle :: session_handle where
  "sample_handle = hnd_recompute_anchor_commitment sample_crypto \<lparr>hnd_session = sample_b\<rparr>"

lemma sample_store_safe: "safe_path (envelope_path sample_store)"
  by (simp add: sample_store_def store_new_def)

lemma sample_b_ok: "session_inv sample_b" "exportable sample_b"
  using sample_paired
  by (simp_all add: paired_def exportable_def, simp add: sample_b_def bootstrap_responder_def Let_def split_beta)

lemma sample_a_exportable: "exportable sample_a"
  by (simp add: exportable_def sample_a_def bootstrap_initiator_def Let_def split_beta)

lemma sample_handle_ok:
  "session_inv (hnd_session sample_handle)" "exportable (hnd_session sample_handle)"
  "verify_anchor_commitment sample_crypto (hnd_session sample_handle)"
  using sample_b_ok recompute_anchor_commitment_inv [OF sample_lens]
  by (simp_all add: sample_handle_def hnd_recompute_anchor_commitment_def exportable_recompute verify_recomputed)

section \<open>Properties\<close>

text \<open>C10: Recomputing the commitment, saving and loading gives the session back: the save succeeds, the load
  passes the commitment and the monotonicity check, the loaded handle exports the same state and satisfies
  the session invariant, and a peer paired with the saved session is paired with the loaded one.\<close>

theorem save_then_load:
  assumes "crypto_lens C" "session_inv (hnd_session h)" "exportable (hnd_session h)" "safe_path (envelope_path st)"
  shows "\<exists>fs' h2. save_session C (handle_wal_source C) NoFault st (hnd_recompute_anchor_commitment C h) fs = (Ok (), fs')
    \<and> load_session C False st fs' = Ok h2
    \<and> hnd_export_state h2 = hnd_export_state (hnd_recompute_anchor_commitment C h)
    \<and> session_inv (hnd_session h2) \<and> (\<forall>a. paired a (hnd_session h) \<longrightarrow> paired a (hnd_session h2))"
  using save_load [OF assms] by blast

theorem save_then_load_witness:
  "\<exists>fs' h2. save_session sample_crypto (handle_wal_source sample_crypto) NoFault sample_store
        (hnd_recompute_anchor_commitment sample_crypto \<lparr>hnd_session = sample_b\<rparr>) Map.empty = (Ok (), fs')
    \<and> load_session sample_crypto False sample_store fs' = Ok h2 \<and> paired sample_a (hnd_session h2)"
  using save_then_load [OF sample_lens, of "\<lparr>hnd_session = sample_b\<rparr>" sample_store Map.empty] sample_b_ok
    sample_store_safe sample_paired by auto

text \<open>C20: Saving is atomic under faults.  Whichever file system call of a save fails or is cut off, the store's
  file afterwards holds the previous contents or the complete new envelope; it holds the new one when the save
  reports success; and no file but it and the temporary file is touched.\<close>

theorem save_is_atomic:
  assumes "safe_path (envelope_path st)" "save_session C W env st s fs = (x, fs')"
  shows "(load_session C False st fs' = load_session C False st fs
       \<or> load_session C False st fs' = load_bytes C (session_wal_bytes C W s))
    \<and> (x = Ok () \<longrightarrow> load_session C False st fs' = load_bytes C (session_wal_bytes C W s))
    \<and> (\<forall>q. q \<noteq> envelope_path st \<and> q \<noteq> with_extension (envelope_path st) ''atomic_tmp'' \<longrightarrow> fs' q = fs q)"
  using atomic_write_outcome [OF assms(1) assms(2) [unfolded save_session_def]]
  by (auto simp: load_session_def read_if_exists_def)

theorem save_is_atomic_witness:
  "load_session sample_crypto False sample_store
     (snd (save_session sample_crypto (handle_wal_source sample_crypto) (WriteFails 3) sample_store sample_handle Map.empty))
   \<in> {load_session sample_crypto False sample_store Map.empty,
      load_bytes sample_crypto (session_wal_bytes sample_crypto (handle_wal_source sample_crypto) sample_handle)}"
  using save_is_atomic [OF sample_store_safe prod.collapse [symmetric],
      of sample_crypto "handle_wal_source sample_crypto" "WriteFails 3" sample_handle Map.empty] by auto

text \<open>C28: What a load accepts: exactly a file that is an envelope of a bundle and a meta section, whose export
  imports to a session with a verified commitment that passes the check against the meta section.\<close>

theorem load_accepts:
  assumes "crypto_lens C"
  shows "load_session C False st fs = Ok h \<longleftrightarrow>
    (\<exists>x mb m. fs (envelope_path st) = Some (encode_wal_envelope C (encode_bundle x) mb)
       \<and> length (encode_bundle x) < 2 ^ 32 \<and> length mb < 2 ^ 32 \<and> wf_export x
       \<and> from_export x = Ok h \<and> verify_anchor_commitment C (hnd_session h)
       \<and> meta_decode mb = Ok m \<and> assert_monotonic_vs_trusted (handle_wal_source C) h m = Ok ())"
proof -
  have d: "decode_wal_envelope C b = Ok (bb, mb) \<longleftrightarrow> length bb < 2 ^ 32 \<and> length mb < 2 ^ 32 \<and> b = encode_wal_envelope C bb mb"
    for b bb mb using lgw1.dec_Ok_iff [of C b "(bb, mb)"] wf_wal_lens [OF assms, of "(bb, mb)"] by auto
  have v: "verify_anchor (handle_wal_source C) h = verify_anchor_commitment C (hnd_session h)" for h
    by (simp add: verify_anchor_def handle_wal_source_def)
  show ?thesis
    by (auto simp: load_session_def read_if_exists_def load_bytes_def d v lg01.dec_Ok_iff split: option.splits if_splits)
      blast
qed

theorem load_accepts_witness:
  "\<exists>h x mb. load_session sample_crypto False sample_store
      [envelope_path sample_store \<mapsto> session_wal_bytes sample_crypto (handle_wal_source sample_crypto) sample_handle] = Ok h
    \<and> session_wal_bytes sample_crypto (handle_wal_source sample_crypto) sample_handle
        = encode_wal_envelope sample_crypto (encode_bundle x) mb \<and> wf_export x"
proof -
  let ?w = "session_wal_bytes sample_crypto (handle_wal_source sample_crypto) sample_handle"
  obtain h where "load_bytes sample_crypto ?w = Ok h"
    using handle_src.load_saved_bytes [of sample_handle sample_crypto sample_crypto] sample_handle_ok
    by (auto simp: handle_wal_source_def session_inv_def)
  then have l: "load_session sample_crypto False sample_store [envelope_path sample_store \<mapsto> ?w] = Ok h"
    by (simp add: load_session_def read_if_exists_def)
  with load_accepts [OF sample_lens, of sample_store "[envelope_path sample_store \<mapsto> ?w]" h] show ?thesis by auto
qed

text \<open>A session saved without recomputing its commitment is refused at load.\<close>

lemma stale_commitment_refused:
  assumes "crypto_lens C" "session_inv (hnd_session h)" "exportable (hnd_session h)" "safe_path (envelope_path st)"
    and "\<not> verify_anchor_commitment C (hnd_session h)"
  shows "\<exists>fs'. save_session C (handle_wal_source C) NoFault st h fs = (Ok (), fs')
    \<and> load_session C False st fs' = Err CommitmentMismatch"
proof -
  obtain fs' x where sv: "save_session C (handle_wal_source C) NoFault st h fs = (x, fs')"
    by (cases "save_session C (handle_wal_source C) NoFault st h fs")
  have "load_bytes C (session_wal_bytes C (handle_wal_source C) h) = Err CommitmentMismatch"
    using handle_src.load_saved_bytes [of h C C] assms by (auto simp: handle_wal_source_def session_inv_def)
  with load_after_write [OF assms(4) sv] sv show ?thesis by simp
qed

lemma stale_commitment_refused_sample:
  "\<exists>fs'. save_session sample_crypto (handle_wal_source sample_crypto) NoFault sample_store \<lparr>hnd_session = sample_b\<rparr> Map.empty
      = (Ok (), fs') \<and> load_session sample_crypto False sample_store fs' = Err CommitmentMismatch"
proof -
  have "length (session_snapshot_preimage sample_b) = 212"
    using session_invD(1) [OF sample_b_ok(1)]
    by (auto simp: session_snapshot_preimage_def wf_session_def peer_or_zero_def split: option.splits)
  moreover have "state_commitment (anchor sample_b) = replicate 32 0"
    by (simp add: sample_b_def bootstrap_responder_def anchor_new_v0_def Let_def split_beta)
  ultimately have "\<not> verify_anchor_commitment sample_crypto sample_b"
    by (simp add: verify_anchor_commitment_def compute_state_commitment_def sample_crypto_def)
  then show ?thesis
    using stale_commitment_refused [OF sample_lens, of "\<lparr>hnd_session = sample_b\<rparr>" sample_store Map.empty] sample_b_ok
      sample_store_safe by auto
qed

text \<open>C39: The trusted meta travels in the same file as the bundle, so the rollback check compares a snapshot with
  itself: after a newer save, putting an older envelope back loads the older session, whatever counters the
  newer one had reached.\<close>

theorem old_envelope_loads:
  assumes "crypto_lens C" "safe_path (envelope_path st)"
    and "session_inv (hnd_session h_old)" "exportable (hnd_session h_old)"
    and "verify_anchor_commitment C (hnd_session h_old)"
    and "save_session C (handle_wal_source C) NoFault st h_old fs0 = (Ok (), fs1)"
    and "save_session C (handle_wal_source C) NoFault st h_new fs1 = (Ok (), fs2)"
  shows "\<exists>h. load_session C False st (fs2(envelope_path st := fs1 (envelope_path st))) = Ok h
    \<and> hnd_export_state h = hnd_export_state h_old"
proof -
  have "load_session C False st (fs2(envelope_path st := fs1 (envelope_path st))) = load_session C False st fs1"
    by (simp add: load_session_def read_if_exists_def)
  moreover have "load_session C False st fs1 = load_bytes C (session_wal_bytes C (handle_wal_source C) h_old)"
    using load_after_write [OF assms(2,6)] by simp
  moreover obtain h where "load_bytes C (session_wal_bytes C (handle_wal_source C) h_old) = Ok h"
    "from_export (export_state (hnd_session h_old)) = Ok h"
    using handle_src.load_saved_bytes [of h_old C C] assms(1,3-5)
    by (auto simp: handle_wal_source_def session_inv_def)
  moreover from this have "hnd_export_state h = hnd_export_state h_old"
    using import_export [OF session_invD(1) [OF assms(3)] assms(4)]
    by (metis (no_types, lifting) from_export_def hnd_export_state_def map_ok_eq_Inr session_handle.select_convs(1) sum.inject(2))
  ultimately show ?thesis by auto
qed

theorem old_envelope_loads_witness:
  "\<exists>fs1 fs2 h. save_session sample_crypto (handle_wal_source sample_crypto) NoFault sample_store sample_handle Map.empty = (Ok (), fs1)
    \<and> save_session sample_crypto (handle_wal_source sample_crypto) NoFault sample_store \<lparr>hnd_session = sample_a\<rparr> fs1 = (Ok (), fs2)
    \<and> load_session sample_crypto False sample_store (fs2(envelope_path sample_store := fs1 (envelope_path sample_store))) = Ok h
    \<and> hnd_export_state h = hnd_export_state sample_handle"
proof -
  let ?W = "handle_wal_source sample_crypto"
  obtain fs1 where f1: "save_session sample_crypto ?W NoFault sample_store sample_handle Map.empty = (Ok (), fs1)"
    using load_after_write [OF sample_store_safe prod.collapse [symmetric]] by (metis prod.collapse)
  obtain fs2 where f2: "save_session sample_crypto ?W NoFault sample_store \<lparr>hnd_session = sample_a\<rparr> fs1 = (Ok (), fs2)"
    using load_after_write [OF sample_store_safe prod.collapse [symmetric]] by (metis prod.collapse)
  from old_envelope_loads [OF sample_lens sample_store_safe sample_handle_ok f1 f2] f1 f2 show ?thesis by blast
qed

end
