(* ===== verification/Transcript.thy ===== *)
theory Transcript
  imports Handshake_Flow Storage
begin

text \<open>
  The whole transcript of \<^verbatim>\<open>libgary-core/tests/full_transcript.rs\<close>: the first handshake, a save and a load, a message
  in each direction, a REKEY, the reset handshake, the reset modes, another save and load, and a message in the new
  epoch.  The fixture values of the test are arguments (\<open>leg\<close> has those of one handshake), \<open>None\<close> is a failed
  \<open>unwrap\<close> or assertion.
\<close>

section \<open>The driver\<close>

record leg =
  leg_km :: bytes
  leg_body :: init_body
  leg_core :: init_ack_core
  leg_sid :: bytes
  leg_sk_a :: bytes
  leg_sk_b :: bytes
  leg_anchor :: device_state_anchor

definition establish ::
  "'r crypto \<Rightarrow> hs_kind \<Rightarrow> leg \<Rightarrow> u32 \<Rightarrow> 'r \<Rightarrow> (session_handle \<times> session_handle \<times> 'r) option" where
  "establish C k l e r =
     (let pub_a = x25519_public C (leg_sk_a l); pub_b = x25519_public C (leg_sk_b l) in
      Option.bind (run_handshake C k (leg_km l) (leg_body l) (leg_core l) e (leg_sid l) pub_a pub_b r) (\<lambda>(okm_a, okm_b, r1).
        if okm_a \<noteq> okm_b then None
        else Some (handle_bootstrap_initiator C okm_a (leg_sid l) e (leg_sk_a l) (Some pub_b) (leg_anchor l),
                   handle_bootstrap_responder C okm_a (leg_sid l) e (leg_sk_b l) (Some pub_a) (leg_anchor l), r1)))"

definition save_and_load :: "'r crypto \<Rightarrow> session_store \<Rightarrow> session_handle \<Rightarrow> fs \<Rightarrow> (session_handle \<times> fs) option" where
  "save_and_load C st h fs =
     (case save_session C (handle_wal_source C) NoFault st h fs of (x, fs1) \<Rightarrow>
        Option.bind (unwrap x) (\<lambda>_. Option.bind (unwrap (load_session C False st fs1)) (\<lambda>h2. Some (h2, fs1))))"

definition over_the_wire :: "header \<Rightarrow> bytes \<Rightarrow> outer_record option" where
  "over_the_wire h p = Option.bind (unwrap (outer_record_encode \<lparr>rec_header = h, payload = p\<rparr>)) (\<lambda>out. unwrap (outer_record_decode out))"

definition exchange_data ::
  "'r crypto \<Rightarrow> session_handle \<Rightarrow> session_handle \<Rightarrow> bytes \<Rightarrow> 'r \<Rightarrow> 'r \<Rightarrow> (session_handle \<times> session_handle \<times> 'r) option" where
  "exchange_data C f t text r r2 =
     Option.bind (unwrap (data_inner_plaintext C 1 1 text)) (\<lambda>pt.
     case send_data_plain512_outer C f pt r of (x, f1, r1) \<Rightarrow>
       Option.bind (unwrap x) (\<lambda>(h, p).
       Option.bind (over_the_wire h p) (\<lambda>rec.
       case recv_data_outer C t (rec_header rec) (payload rec) r2 of (y, t1, _) \<Rightarrow>
         Option.bind (unwrap y) (\<lambda>got. if got = pt then Some (f1, t1, r1) else None))))"

definition exchange_rekey ::
  "'r crypto \<Rightarrow> session_handle \<Rightarrow> session_handle \<Rightarrow> bytes \<Rightarrow> 'r \<Rightarrow> 'r \<Rightarrow> (session_handle \<times> session_handle \<times> 'r) option" where
  "exchange_rekey C f t body r r2 =
     (case send_rekey_ctrl_outer C f body r of (x, f1, r1) \<Rightarrow>
       Option.bind (unwrap x) (\<lambda>(h, p).
       Option.bind (over_the_wire h p) (\<lambda>rec.
       case recv_rekey_ctrl_outer C t (rec_header rec) (payload rec) r2 of (y, t1, _) \<Rightarrow>
         Option.bind (unwrap y) (\<lambda>plain. if take 4 plain = body then Some (f1, t1, r1) else None))))"

definition full_transcript ::
  "'r crypto \<Rightarrow> session_store \<Rightarrow> fs \<Rightarrow> leg \<Rightarrow> leg \<Rightarrow> u32 \<Rightarrow> bytes \<Rightarrow> bytes \<Rightarrow> bytes \<Rightarrow> bytes
     \<Rightarrow> 'r \<Rightarrow> 'r \<Rightarrow> 'r \<Rightarrow> 'r \<Rightarrow> 'r \<Rightarrow> unit option" where
  "full_transcript C st fs leg1 leg2 epoch_hs text_a text_b rekey_body text_post pad_rng rng_b rng_a rng_ra rng_final =
     Option.bind (establish C Initial leg1 epoch_hs pad_rng) (\<lambda>(alice0, bob0, r1).
     let alice1 = hnd_recompute_anchor_commitment C alice0; bob1 = hnd_recompute_anchor_commitment C bob0 in
     Option.bind (save_and_load C st alice1 fs) (\<lambda>(alice2, fs1).
     Option.bind (exchange_data C alice2 bob1 text_a r1 rng_b) (\<lambda>(alice3, bob2, r2).
     Option.bind (exchange_data C bob2 alice3 text_b r2 rng_a) (\<lambda>(bob3, alice4, r3).
     Option.bind (exchange_rekey C bob3 alice4 rekey_body r3 rng_ra) (\<lambda>(bob4, alice5, r4).
     let epoch_new = saturating_add epoch_hs 1 in
     Option.bind (establish C Reset leg2 epoch_new r4) (\<lambda>(alice6, bob5, r5).
     Option.bind (reset_lifecycle (hnd_session alice6) epoch_hs) (\<lambda>alice7.
     Option.bind (reset_lifecycle (hnd_session bob5) epoch_hs) (\<lambda>bob6.
     if mode alice7 \<noteq> Active epoch_new \<or> mode bob6 \<noteq> Active epoch_new then None
     else let alice8 = hnd_recompute_anchor_commitment C (alice6\<lparr>hnd_session := alice7\<rparr>);
              bob7 = hnd_recompute_anchor_commitment C (bob5\<lparr>hnd_session := bob6\<rparr>) in
     Option.bind (save_and_load C st alice8 fs1) (\<lambda>(alice9, fs2).
     if hnd_ingress_mode alice9 \<noteq> Active epoch_new then None
     else Option.bind (exchange_data C alice9 bob7 text_post r5 rng_final) (\<lambda>_. Some ()))))))))))"

section \<open>Sessions that talk both ways\<close>

text \<open>Both directions are paired, both sessions are active, and there is room for \<open>N\<close> more messages.\<close>

definition has_room :: "nat \<Rightarrow> session \<Rightarrow> bool" where
  "has_room N s \<longleftrightarrow> mode s = Active (epoch s) \<and> skipped_len (skipped s) + N \<le> MAX_SKIP
     \<and> unat (send_sym_idx s) + N < 2 ^ 64 \<and> unat (send_wire_counter s) + N < 2 ^ 64"

definition talk :: "nat \<Rightarrow> session \<Rightarrow> session \<Rightarrow> bool" where
  "talk N a b \<longleftrightarrow> paired a b \<and> paired b a \<and> has_room N a \<and> has_room N b"

lemma talk_sym: "talk N a b \<Longrightarrow> talk N b a"
  by (simp add: talk_def)

lemma send_frame_recv_side:
  assumes "send_frame s s'"
  shows "recv_ck s' = recv_ck s" "recv_sym_idx s' = recv_sym_idx s" "recv_high_water s' = recv_high_water s"
    "peer_ratchet_pub s' = peer_ratchet_pub s" "skipped s' = skipped s" "mode s' = mode s"
  using assms unfolding send_frame_def by (cases s; cases s'; simp)+

lemma recv_frame_send_side:
  assumes "recv_frame s s'"
  shows "send_ck s' = send_ck s" "send_sym_idx s' = send_sym_idx s" "send_wire_counter s' = send_wire_counter s"
    "my_ratchet_pub s' = my_ratchet_pub s"
  using assms unfolding recv_frame_def by (cases s; cases s'; simp)+

text \<open>A message from \<open>a\<close> to \<open>b\<close> leaves the other direction alone.\<close>

lemma paired_other_way:
  assumes "paired b a" "send_frame a a'" "recv_frame b b'" "session_inv a'" "session_inv b'"
  shows "paired b' a'"
  using assms(1,4,5) send_frame_simps [OF assms(2)] send_frame_recv_side [OF assms(2)]
    recv_frame_simps [OF assms(3)] recv_frame_send_side [OF assms(3)]
  by (cases "recv_high_water a") (simp_all add: paired_def)

lemma has_room_send:
  assumes "has_room (Suc N) s" "send_frame s s'" "send_wire_counter s' = send_wire_counter s + 1"
    and "send_sym_idx s' = send_sym_idx s \<or> send_sym_idx s' = send_sym_idx s + 1"
  shows "has_room N s'"
proof -
  have "unat (x + 1) = unat x + 1" if "unat x + Suc N < 2 ^ 64" for x :: u64 using that unat_ctr [of x 1] by simp
  then show ?thesis
    using assms(1,3,4) send_frame_simps [OF assms(2)] send_frame_recv_side [OF assms(2)] by (auto simp: has_room_def)
qed

lemma has_room_recv:
  assumes "has_room (Suc N) s" "recv_frame s s'" "skipped_len (skipped s') + N \<le> MAX_SKIP"
  shows "has_room N s'"
  using assms(1,3) recv_frame_simps [OF assms(2)] recv_frame_send_side [OF assms(2)] by (auto simp: has_room_def)

lemma wire_trip:
  assumes "session_inv s" "ty \<in> {3, 5}" "length p \<le> 1024"
  shows "over_the_wire (next_header s ty) p = Some \<lparr>rec_header = next_header s ty, payload = p\<rparr>"
proof -
  let ?rec = "\<lparr>rec_header = next_header s ty, payload = p\<rparr>"
  have "validate_v0 (next_header s ty) = Ok ()" using assms(2) by (auto simp: validate_v0_Ok_iff next_header_def)
  then obtain out where out: "outer_record_encode ?rec = Ok out"
    using assms(3) by (simp add: outer_record_encode_Ok_iff record_body_len_def MAX_RECORD_BODY_LEN_def)
  moreover have "outer_record_decode out = Ok ?rec"
    using outer_record_decode_encode [OF _ out] next_header_wf [OF session_invD(1) [OF assms(1)]] by (simp add: wf_outer_record_def)
  ultimately show ?thesis by (simp add: over_the_wire_def)
qed

lemma strip_bound: "strip_outer_pad p n = Ok l \<Longrightarrow> n \<le> 1024 \<Longrightarrow> length p \<le> 1024"
  by (auto simp: strip_outer_pad_Ok_iff bucket_defs split: if_splits)

lemma DATA_LOGICAL_small: "DATA_LOGICAL \<le> 1024" "CTRL_LOGICAL \<le> 1024"
  by (simp_all add: DATA_LOGICAL_def CTRL_LOGICAL_def DATA_INNER_FIXED_def)

lemma exchange_data_ok:
  assumes "crypto_lens C" "aead_ok C" "talk (Suc N) (hnd_session f) (hnd_session t)" "length text \<le> 504"
  shows "\<exists>f' t' r'. exchange_data C f t text r r2 = Some (f', t', r') \<and> talk N (hnd_session f') (hnd_session t')"
proof -
  let ?a = "hnd_session f" and ?b = "hnd_session t"
  obtain pt where pt: "data_inner_plaintext C 1 1 text = Ok pt" using data_inner_plaintext_Ok_iff assms(4) by blast
  have lp: "length pt = 512" using data_inner_plaintext_layout [OF assms(1) pt] by blast
  have tk: "paired ?a ?b" "paired ?b ?a" "has_room (Suc N) ?a" "has_room (Suc N) ?b" using assms(3) by (simp_all add: talk_def)
  have rm: "skipped_len (skipped ?b) + Suc N \<le> MAX_SKIP" "unat (send_sym_idx ?a) + Suc N < 2 ^ 64"
    "unat (send_wire_counter ?a) + Suc N < 2 ^ 64" using tk(3,4) by (simp_all add: has_room_def)
  have inv: "session_inv ?a" "session_inv ?b" using tk(1) by (simp_all add: paired_def)
  have mb: "?b\<lparr>mode := mode ?b\<rparr> = ?b" by simp
  obtain p a' r' b' where e: "encrypt_data_plain512_outer C ?a pt r = (Ok (next_header ?a 3, p), a', r')" "send_frame ?a a'"
      "send_wire_counter a' = send_wire_counter ?a + 1" "send_sym_idx a' = send_sym_idx ?a + 1"
    and d: "decrypt_data_outer C ?b (next_header ?a 3) p r2 = (Ok pt, b', r2)" "paired a' b'" "recv_frame ?b b'"
      "skipped_len (skipped b') + N \<le> MAX_SKIP"
    by (rule data_received [OF assms(1,2) tk(1) lp rm, of r])
      (use session_invD(2) [OF inv(2)] mb in metis)
  have "length p \<le> 1024" using d(1) strip_bound [of p DATA_LOGICAL] DATA_LOGICAL_small by (auto simp: decrypt_data_outer_def split: sum.splits)
  then have w: "over_the_wire (next_header ?a 3) p = Some \<lparr>rec_header = next_header ?a 3, payload = p\<rparr>"
    using wire_trip [OF inv(1), of 3] by simp
  have "paired b' a'" using paired_other_way [OF tk(2) e(2) d(3)] d(2) by (simp add: paired_def)
  then have "talk N a' b'" using d has_room_send [OF tk(3) e(2,3)] e(4) has_room_recv [OF tk(4) d(3,4)] by (simp add: talk_def)
  moreover have "exchange_data C f t text r r2 = Some (\<lparr>hnd_session = a'\<rparr>, \<lparr>hnd_session = b'\<rparr>, r')"
    using e(1) d(1) w pt
    by (cases f; cases t) (simp add: exchange_data_def send_data_plain512_outer_def recv_data_outer_def delegate_rng_def)
  ultimately show ?thesis by auto
qed


lemma recv_frame_mark: "recv_frame b (mark_received (b\<lparr>peer_ratchet_pub := p\<rparr>) c)"
  unfolding recv_frame_def mark_received_def prune_decrypted_cache_def Let_def by (cases b) simp

lemma exchange_rekey_ok:
  assumes "crypto_lens C" "aead_ok C" "talk (Suc N) (hnd_session f) (hnd_session t)" "length body = 4"
  shows "\<exists>f' t' r'. exchange_rekey C f t body r r2 = Some (f', t', r') \<and> talk N (hnd_session f') (hnd_session t')"
proof -
  let ?a = "hnd_session f" and ?b = "hnd_session t"
  have tk: "paired ?a ?b" "paired ?b ?a" "has_room (Suc N) ?a" "has_room (Suc N) ?b" using assms(3) by (simp_all add: talk_def)
  have inv: "session_inv ?a" "session_inv ?b" using tk(1) by (simp_all add: paired_def)
  have c: "unat (send_wire_counter ?a) + 1 < 2 ^ 64" using tk(3) by (simp add: has_room_def)
  obtain plain p a' r' l where e: "encrypt_rekey_ctrl_outer C ?a body r = (Ok (next_header ?a 5, p), a', r')"
      "ctrl_inner_padded256 C body = Ok plain" "send_frame ?a a'" "send_wire_counter a' = send_wire_counter ?a + 1"
      "send_ck a' = send_ck ?a" "send_sym_idx a' = send_sym_idx ?a" "strip_outer_pad p CTRL_LOGICAL = Ok l"
      "decrypt_ctrl_payload C (okm ?a) (next_header ?a 5) (drop 24 l) = Ok plain"
    using encrypt_rekey_outer_Ok [OF assms(1,2) _ c, of body r] assms(4) by auto
  define b' where "b' = mark_received (?b\<lparr>peer_ratchet_pub := Some (my_ratchet_pub ?a)\<rparr>) (send_wire_counter ?a)"
  have d: "decrypt_rekey_ctrl_outer C ?b (next_header ?a 5) p r2 = (Ok plain, b', r2)"
    unfolding b'_def using tk(1) by (intro rekey_opens [OF _ _ _ _ paired_precheck [OF tk(1)] e(7,8)]) (simp_all add: paired_def)
  have hwf: "wf_header (next_header ?a 5)" by (rule next_header_wf [OF session_invD(1) [OF inv(1)]])
  have ia: "session_inv a'" by (rule session_step_inv [OF assms(1) session_step.send_rekey_outer [OF e(1)] inv(1)])
  have ib: "session_inv b'" by (rule session_step_inv [OF assms(1) session_step.recv_rekey [OF hwf d] inv(2)])
  have fr: "recv_frame ?b b'" unfolding b'_def by (rule recv_frame_mark)
  have pr: "paired a' b'"
    by (rule paired_after_rekey [OF tk(1) c ia e(3-6) _ ib, of "mode ?b"]) (simp add: b'_def)
  have w: "over_the_wire (next_header ?a 5) p = Some \<lparr>rec_header = next_header ?a 5, payload = p\<rparr>"
    using wire_trip [OF inv(1), of 5 p] strip_bound [OF e(7) DATA_LOGICAL_small(2)] by simp
  have sk: "skipped b' = skipped ?b" by (simp add: b'_def mark_received_def prune_decrypted_cache_def Let_def)
  have "has_room N b'" using has_room_recv [OF tk(4) fr] tk(4) by (simp add: sk has_room_def)
  then have "talk N a' b'"
    using pr paired_other_way [OF tk(2) e(3) fr ia ib] has_room_send [OF tk(3) e(3,4)] e(6) by (simp add: talk_def)
  moreover have "take 4 plain = body" using ctrl_inner_padded256_layout [OF assms(1) e(2)] assms(4) by simp
  then have "exchange_rekey C f t body r r2 = Some (\<lparr>hnd_session = a'\<rparr>, \<lparr>hnd_session = b'\<rparr>, r')"
    using e(1) d w
    by (cases f; cases t) (simp add: exchange_rekey_def send_rekey_ctrl_outer_def recv_rekey_ctrl_outer_def delegate_rng_def)
  ultimately show ?thesis by auto
qed

section \<open>Saving, loading and establishing\<close>

lemma save_and_load_ok:
  assumes "crypto_lens C" "talk N (hnd_session f) (hnd_session t)" "exportable (hnd_session f)" "safe_path (envelope_path st)"
  shows "\<exists>f' fs'. save_and_load C st (hnd_recompute_anchor_commitment C f) fs = Some (f', fs')
    \<and> talk N (hnd_session f') (hnd_session (hnd_recompute_anchor_commitment C t)) \<and> epoch (hnd_session f') = epoch (hnd_session f)"
proof -
  let ?a = "hnd_session f" and ?b = "hnd_session t"
  have tk: "paired ?a ?b" "paired ?b ?a" "has_room N ?a" "has_room N ?b" using assms(2) by (simp_all add: talk_def)
  have inv: "session_inv ?a" using tk(1) by (simp add: paired_def)
  obtain fs' f2 where l: "save_session C (handle_wal_source C) NoFault st (hnd_recompute_anchor_commitment C f) fs = (Ok (), fs')"
      "load_session C False st fs' = Ok f2" "paired (hnd_session f2) ?b" "paired ?b (hnd_session f2)"
      "skipped_len (skipped (hnd_session f2)) = skipped_len (skipped ?a)"
      "send_sym_idx (hnd_session f2) = send_sym_idx ?a" "send_wire_counter (hnd_session f2) = send_wire_counter ?a"
      "mode (hnd_session f2) = Active (epoch (hnd_session f2))"
    using save_load [OF assms(1) inv assms(3,4), of fs] tk(1,2) by blast
  have "has_room N (hnd_session f2)" using tk(3) l(5-8) by (simp add: has_room_def)
  moreover have "has_room N (recompute_anchor_commitment C ?b)" using tk(4) by (simp add: has_room_def recompute_anchor_commitment_def)
  ultimately have "talk N (hnd_session f2) (recompute_anchor_commitment C ?b)"
    using paired_recompute [OF assms(1) l(3)] recompute_paired [OF assms(1) l(4)] by (simp add: talk_def)
  moreover have "epoch (hnd_session f2) = epoch ?a" using l(3) tk(1) by (simp add: paired_def)
  ultimately show ?thesis using l(1,2) by (simp add: save_and_load_def hnd_recompute_anchor_commitment_def)
qed

definition wf_leg :: "'r crypto \<Rightarrow> leg \<Rightarrow> bool" where
  "wf_leg C l \<longleftrightarrow> wf_init_body (leg_body l) \<and> wf_init_ack_core (leg_core l) \<and> length (leg_sid l) = 16
     \<and> length (leg_sk_a l) = 32 \<and> length (leg_sk_b l) = 32 \<and> wf_anchor (leg_anchor l)
     \<and> x25519_public C (leg_sk_b l) \<noteq> replicate 32 0"

lemma establish_ok:
  assumes "crypto_lens C" "aead_ok C" "wf_leg C l" "N \<le> MAX_SKIP"
  shows "\<exists>a b r'. establish C k l e r = Some (a, b, r') \<and> talk N (hnd_session a) (hnd_session b)
    \<and> exportable (hnd_session a) \<and> epoch (hnd_session a) = e \<and> epoch (hnd_session b) = e"
proof -
  let ?pa = "x25519_public C (leg_sk_a l)" and ?pb = "x25519_public C (leg_sk_b l)"
  note wf = assms(3) [unfolded wf_leg_def]
  obtain okm1 r' where run: "run_handshake C k (leg_km l) (leg_body l) (leg_core l) e (leg_sid l) ?pa ?pb r = Some (okm1, okm1, r')"
    and len: "length okm1 = 64"
    using handshake_completes [OF assms(1,2), of "leg_body l" "leg_core l" "leg_sid l" k "leg_km l" e "leg_sk_a l" "leg_sk_b l" r]
      wf by blast
  let ?a = "bootstrap_initiator C okm1 (leg_sid l) e (leg_sk_a l) (Some ?pb) (leg_anchor l)"
    and ?b = "bootstrap_responder C okm1 (leg_sid l) e (leg_sk_b l) (Some ?pa) (leg_anchor l)"
  have pr: "paired ?a ?b" "paired ?b ?a"
    using wf by (intro bootstrap_paired [OF assms(1) len]; simp)+
  have "has_room N ?a" "has_room N ?b"
    using assms(4) by (simp_all add: has_room_def bootstrap_initiator_def bootstrap_responder_def Let_def split_beta
        skipped_new_def skipped_len_def MAX_SKIP_def)
  moreover have "exportable ?a" "epoch ?a = e" "epoch ?b = e"
    using wf by (simp_all add: exportable_def bootstrap_initiator_def bootstrap_responder_def Let_def split_beta)
  ultimately show ?thesis
    using run pr by (simp add: establish_def talk_def handle_bootstrap_initiator_def handle_bootstrap_responder_def)
qed

lemma reset_lifecycle_talk:
  assumes "unat prior + 1 < 2 ^ 32" "epoch s = prior + 1" "has_room N s"
  shows "reset_lifecycle s prior = Some s"
  using reset_lifecycle_active [OF assms(1,2)] assms(3) by (simp add: has_room_def)

section \<open>Property\<close>

text \<open>C7: The whole transcript succeeds.  For any long-term and ephemeral keys, handshake bodies, session ids, epoch
  below the last, texts of at most 504 bytes, REKEY body and randomness, and any file system: the two
  handshakes complete, both saves can be loaded, and the three texts and the REKEY body arrive unchanged, the last text
  in the next epoch after the reset.  No step of the driver returns an error.\<close>

theorem full_transcript_succeeds:
  assumes "crypto_lens C" "aead_ok C" "wf_leg C leg1" "wf_leg C leg2" "safe_path (envelope_path st)"
    and "unat epoch_hs + 1 < 2 ^ 32" "length text_a \<le> 504" "length text_b \<le> 504" "length text_post \<le> 504" "length rekey_body = 4"
  shows "full_transcript C st fs leg1 leg2 epoch_hs text_a text_b rekey_body text_post pad_rng rng_b rng_a rng_ra rng_final = Some ()"
proof -
  note [simp] = Let_def MAX_SKIP_def
  let ?e = "epoch_hs + 1"
  have e: "saturating_add epoch_hs 1 = ?e" using assms(6) by (simp add: saturating_add_def)
  obtain a0 b0 r1 where s0: "establish C Initial leg1 epoch_hs pad_rng = Some (a0, b0, r1)"
      "talk 3 (hnd_session a0) (hnd_session b0)" "exportable (hnd_session a0)"
    using establish_ok [OF assms(1-3), of 3 Initial epoch_hs pad_rng] by auto
  let ?b1 = "hnd_recompute_anchor_commitment C b0"
  obtain a2 fs1 where s1: "save_and_load C st (hnd_recompute_anchor_commitment C a0) fs = Some (a2, fs1)"
      "talk (Suc 2) (hnd_session a2) (hnd_session ?b1)"
    using save_and_load_ok [OF assms(1) s0(2,3) assms(5), of fs] by (auto simp: numeral_3_eq_3)
  obtain a3 b2 r2 where s2: "exchange_data C a2 ?b1 text_a r1 rng_b = Some (a3, b2, r2)" "talk (Suc 1) (hnd_session b2) (hnd_session a3)"
    using exchange_data_ok [OF assms(1,2) s1(2) assms(7), of r1 rng_b] talk_sym by (auto simp: numeral_2_eq_2)
  obtain b3 a4 r3 where s3: "exchange_data C b2 a3 text_b r2 rng_a = Some (b3, a4, r3)" "talk (Suc 0) (hnd_session b3) (hnd_session a4)"
    using exchange_data_ok [OF assms(1,2) s2(2) assms(8), of r2 rng_a] by auto
  obtain b4 a5 r4 where s4: "exchange_rekey C b3 a4 rekey_body r3 rng_ra = Some (b4, a5, r4)"
    using exchange_rekey_ok [OF assms(1,2) s3(2) assms(10), of r3 rng_ra] by auto
  obtain a6 b5 r5 where s5: "establish C Reset leg2 ?e r4 = Some (a6, b5, r5)" "talk 1 (hnd_session a6) (hnd_session b5)"
      "exportable (hnd_session a6)" "epoch (hnd_session a6) = ?e" "epoch (hnd_session b5) = ?e"
    using establish_ok [OF assms(1,2,4), of 1 Reset ?e r4] by auto
  have rm: "has_room 1 (hnd_session a6)" "has_room 1 (hnd_session b5)" using s5(2) by (simp_all add: talk_def)
  have lc: "reset_lifecycle (hnd_session a6) epoch_hs = Some (hnd_session a6)"
    "reset_lifecycle (hnd_session b5) epoch_hs = Some (hnd_session b5)"
    using reset_lifecycle_talk [OF assms(6)] s5(4,5) rm by blast+
  have md: "mode (hnd_session a6) = Active ?e" "mode (hnd_session b5) = Active ?e" using rm s5(4,5) by (simp_all add: has_room_def)
  let ?b7 = "hnd_recompute_anchor_commitment C b5"
  obtain a9 fs2 where s6: "save_and_load C st (hnd_recompute_anchor_commitment C a6) fs1 = Some (a9, fs2)"
      "talk (Suc 0) (hnd_session a9) (hnd_session ?b7)" "epoch (hnd_session a9) = ?e"
    using save_and_load_ok [OF assms(1) s5(2,3) assms(5), of fs1] s5(4) by auto
  have "hnd_ingress_mode a9 = Active ?e" using s6(2,3) by (simp add: talk_def has_room_def hnd_ingress_mode_def)
  moreover obtain x where "exchange_data C a9 ?b7 text_post r5 rng_final = Some x"
    using exchange_data_ok [OF assms(1,2) s6(2) assms(9), of r5 rng_final] by auto
  ultimately show ?thesis by (simp add: full_transcript_def e s0(1) s1(1) s2(1) s3(1) s4 s5(1) lc md s6(1))
qed

text \<open>The values of the test, over the sample primitives.\<close>

definition sample_leg :: "byte \<Rightarrow> u64 \<Rightarrow> leg" where
  "sample_leg x n = \<lparr>leg_km = replicate 128 x,
     leg_body = \<lparr>initiator_sig_pk = replicate 32 1, initiator_dh_pk = replicate 32 2, ephemeral_ek_pub = replicate 32 x,
       otp_index_be = 1, reserved_be = 0\<rparr>,
     leg_core = \<lparr>responder_sig_pk = replicate 32 4, responder_dh_pk = replicate 32 5, ack_nonce_be = n\<rparr>,
     leg_sid = replicate 16 x, leg_sk_a = replicate 32 0xAA, leg_sk_b = replicate 32 0xBB, leg_anchor = anchor_new_v0 1\<rparr>"

theorem full_transcript_succeeds_witness:
  "full_transcript sample_crypto sample_store Map.empty (sample_leg 0x11 7) (sample_leg 0x22 0x42) 0 [104, 105] [111, 107]
     [0xde, 0xad, 0xbe, 0xef] [33] 0 1 2 3 4 = Some ()"
  by (rule full_transcript_succeeds [OF sample_lens sample_aead _ _ sample_store_safe])
    (simp_all add: sample_leg_def wf_leg_def wf_init_body_def wf_init_ack_core_def anchor_new_v0_def wf_anchor_def sample_crypto_def)

end
