(* ===== verification/Refinement.thy ===== *)
theory Refinement
  imports Gary_Prelude
begin

text \<open>
  Deterministic components and their specifications.  A component is a step function from a state and an
  operation to an output and the next state; \<open>run_ops\<close> runs a list of operations.  The locale
  \<open>forward_sim\<close> is the refinement interface: a relation between concrete and abstract states under which
  every permitted operation gives the same output and related states.  Its lemma carries that to whole
  runs.
\<close>

section \<open>Runs\<close>

primrec run_ops :: "('s \<Rightarrow> 'op \<Rightarrow> 'out \<times> 's) \<Rightarrow> 's \<Rightarrow> 'op list \<Rightarrow> 'out list \<times> 's" where
  "run_ops step s [] = ([], s)"
| "run_ops step s (op # ops) =
     (case step s op of (x, s1) \<Rightarrow> (case run_ops step s1 ops of (xs, s2) \<Rightarrow> (x # xs, s2)))"

text \<open>Every operation is permitted in the state the specification is in when it is issued.\<close>

primrec ops_ok :: "('s \<Rightarrow> 'op \<Rightarrow> 'out \<times> 's) \<Rightarrow> ('s \<Rightarrow> 'op \<Rightarrow> bool) \<Rightarrow> 's \<Rightarrow> 'op list \<Rightarrow> bool" where
  "ops_ok step ok s [] = True"
| "ops_ok step ok s (op # ops) = (ok s op \<and> ops_ok step ok (snd (step s op)) ops)"

lemma length_run_ops [simp]: "length (fst (run_ops step s ops)) = length ops"
  by (induction ops arbitrary: s) (auto split: prod.splits, metis fst_conv)

lemma run_ops_append:
  "run_ops step s (ops @ ops') =
     (case run_ops step s ops of (xs, s1) \<Rightarrow> (case run_ops step s1 ops' of (ys, s2) \<Rightarrow> (xs @ ys, s2)))"
  by (induction ops arbitrary: s) (auto split: prod.splits)

section \<open>Forward simulation\<close>

locale forward_sim =
  fixes cstep :: "'c \<Rightarrow> 'op \<Rightarrow> 'out \<times> 'c"
    and astep :: "'a \<Rightarrow> 'op \<Rightarrow> 'out \<times> 'a"
    and rel :: "'c \<Rightarrow> 'a \<Rightarrow> bool"
    and permitted :: "'a \<Rightarrow> 'op \<Rightarrow> bool"
  assumes simulates: "rel c a \<Longrightarrow> permitted a op
    \<Longrightarrow> fst (cstep c op) = fst (astep a op) \<and> rel (snd (cstep c op)) (snd (astep a op))"
begin

lemma run_refines:
  assumes "rel c a" "ops_ok astep permitted a ops"
  shows "fst (run_ops cstep c ops) = fst (run_ops astep a ops)
    \<and> rel (snd (run_ops cstep c ops)) (snd (run_ops astep a ops))"
  using assms
proof (induction ops arbitrary: c a)
  case (Cons op ops)
  have "fst (cstep c op) = fst (astep a op)" "rel (snd (cstep c op)) (snd (astep a op))"
    using simulates [of c a op] Cons.prems by simp_all
  with Cons.IH [of "snd (cstep c op)" "snd (astep a op)"] Cons.prems(2) show ?case by (simp add: split_beta)
qed simp

end

end
