(* ===== verification/Store_Register.thy ===== *)
theory Store_Register
  imports Storage Refinement
begin

text \<open>
  The session store as a register.  Sequences of saves, each with a fault at any file system call, and of
  loads, with or without a read error, behave like one cell that holds the export of the last committed
  session.  The commit point is \<open>rename\<close>: a failing directory sync reports an error after it.
\<close>

section \<open>The store and its specification\<close>

datatype store_op = StoreSave io_env session_handle | StoreCommit io_env session_handle | StoreLoad bool

datatype store_out = Saved "StorageError + unit" | Loaded "StorageError + session_export"

text \<open>The caller recomputes the commitment before saving, as \<open>load_session\<close> requires.\<close>

fun store_step :: "'r crypto \<Rightarrow> session_store \<Rightarrow> fs \<Rightarrow> store_op \<Rightarrow> store_out \<times> fs" where
  "store_step C st fs (StoreSave env h) =
     (case save_session C (handle_wal_source C) env st (hnd_recompute_anchor_commitment C h) fs of
        (x, fs') \<Rightarrow> (Saved x, fs'))"
| "store_step C st fs (StoreCommit env h) =
     (case commit_anchor C (handle_wal_source C) env st (hnd_recompute_anchor_commitment C h) fs of
        (x, fs') \<Rightarrow> (Saved x, fs'))"
| "store_step C st fs (StoreLoad fails) = (Loaded (map_ok hnd_export_state (load_session C fails st fs)), fs)"

text \<open>The register: a save commits before it can report a failed directory sync, and not otherwise.\<close>

definition register_save ::
  "'r crypto \<Rightarrow> session_export option \<Rightarrow> io_env \<Rightarrow> session_handle \<Rightarrow> store_out \<times> session_export option" where
  "register_save C reg env h =
     (Saved (if env = NoFault then Ok () else Err Io),
      if env \<in> {NoFault, SyncDirFails} then Some (hnd_export_state (hnd_recompute_anchor_commitment C h)) else reg)"

fun register_step :: "'r crypto \<Rightarrow> session_export option \<Rightarrow> store_op \<Rightarrow> store_out \<times> session_export option" where
  "register_step C reg (StoreSave env h) = register_save C reg env h"
| "register_step C reg (StoreCommit env h) = register_save C reg env h"
| "register_step C reg (StoreLoad fails) =
     (Loaded (if fails then Err Io else case reg of None \<Rightarrow> Err NoBundle | Some x \<Rightarrow> Ok x), reg)"

fun store_permitted :: "session_export option \<Rightarrow> store_op \<Rightarrow> bool" where
  "store_permitted reg (StoreLoad fails) = True"
| "store_permitted reg (StoreSave env h) = (session_inv (hnd_session h) \<and> exportable (hnd_session h))"
| "store_permitted reg (StoreCommit env h) = (session_inv (hnd_session h) \<and> exportable (hnd_session h))"

definition store_rel :: "'r crypto \<Rightarrow> session_store \<Rightarrow> fs \<Rightarrow> session_export option \<Rightarrow> bool" where
  "store_rel C st fs reg \<longleftrightarrow> crypto_lens C \<and> safe_path (envelope_path st) \<and>
     (case reg of
        None \<Rightarrow> fs (envelope_path st) = None
      | Some x \<Rightarrow> (\<exists>b h. fs (envelope_path st) = Some b \<and> load_bytes C b = Ok h \<and> hnd_export_state h = x))"

section \<open>Refinement\<close>

lemma atomic_write_commits:
  assumes "safe_path p" "atomic_write env p data fs = (x, fs')"
  shows "x = (if env = NoFault then Ok () else Err Io) \<and> fs' p = (if env \<in> {NoFault, SyncDirFails} then Some data else fs p)"
  using safe_path_tmp [OF assms(1)] assms(2)
  by (auto simp: atomic_write_def Let_def split: io_env.splits if_splits)

lemma saved_bytes_load:
  assumes "crypto_lens C" "session_inv (hnd_session h)" "exportable (hnd_session h)"
  shows "\<exists>h2. load_bytes C (session_wal_bytes C (handle_wal_source C) (hnd_recompute_anchor_commitment C h)) = Ok h2
    \<and> hnd_export_state h2 = hnd_export_state (hnd_recompute_anchor_commitment C h)"
proof -
  let ?st = "sample_store" and ?h1 = "hnd_recompute_anchor_commitment C h"
  obtain fs' h2 where "save_session C (handle_wal_source C) NoFault ?st ?h1 Map.empty = (Ok (), fs')"
    "load_session C False ?st fs' = Ok h2" "hnd_export_state h2 = hnd_export_state ?h1"
    using save_load [OF assms sample_store_safe, of Map.empty] by blast
  with load_after_write [OF sample_store_safe] show ?thesis by metis
qed

lemma save_refines:
  assumes "store_rel C st fs reg" "session_inv (hnd_session h)" "exportable (hnd_session h)"
    and "save_session C (handle_wal_source C) env st (hnd_recompute_anchor_commitment C h) fs = (x, fs')"
  shows "Saved x = fst (register_save C reg env h) \<and> store_rel C st fs' (snd (register_save C reg env h))"
proof -
  have st: "crypto_lens C" "safe_path (envelope_path st)" using assms(1) by (simp_all add: store_rel_def)
  note w = atomic_write_commits [OF st(2) assms(4) [unfolded save_session_def]]
  from saved_bytes_load [OF st(1) assms(2,3)] w assms(1) show ?thesis
    by (auto simp: register_save_def store_rel_def split: option.splits)
qed

interpretation reg: forward_sim "store_step C st" "register_step C" "store_rel C st" store_permitted for C st
proof
  fix fs reg op
  assume rel: "store_rel C st fs reg" and ok: "store_permitted reg op"
  show "fst (store_step C st fs op) = fst (register_step C reg op)
    \<and> store_rel C st (snd (store_step C st fs op)) (snd (register_step C reg op))"
  proof (cases op)
    case (StoreLoad fails)
    then show ?thesis using rel
      by (auto simp: store_rel_def load_session_def read_if_exists_def split: option.splits)
  qed (use save_refines [OF rel] ok in \<open>auto simp: commit_anchor_def split: prod.splits\<close>)
qed

section \<open>Properties\<close>

text \<open>C8: The store refines an atomic register.  For every sequence of saves and loads, whichever call of each
  save fails or is cut off and whichever reads fail, the results are those of a cell that a save overwrites
  exactly when it gets past its rename: every load returns the export of the last committed session, a failed save
  leaves the last one in place, and only a failed directory sync reports an error after committing.\<close>

theorem store_refines_register:
  assumes "crypto_lens C" "safe_path (envelope_path st)" "fs (envelope_path st) = None"
    and "ops_ok (register_step C) store_permitted None ops"
  shows "fst (run_ops (store_step C st) fs ops) = fst (run_ops (register_step C) None ops)"
  using reg.run_refines [of C st fs None ops] assms by (simp add: store_rel_def)

theorem store_refines_register_witness:
  "fst (run_ops (store_step sample_crypto sample_store) Map.empty
      [StoreLoad False, StoreSave (WriteFails 7) \<lparr>hnd_session = sample_b\<rparr>, StoreSave NoFault \<lparr>hnd_session = sample_b\<rparr>,
       StoreSave RenameFails \<lparr>hnd_session = sample_a\<rparr>, StoreLoad False])
   = [Loaded (Err NoBundle), Saved (Err Io), Saved (Ok ()), Saved (Err Io),
      Loaded (Ok (hnd_export_state (hnd_recompute_anchor_commitment sample_crypto \<lparr>hnd_session = sample_b\<rparr>)))]"
proof -
  have "session_inv sample_a" using sample_paired by (simp add: paired_def)
  moreover have "exportable sample_a"
    by (simp add: exportable_def sample_a_def bootstrap_initiator_def Let_def split_beta)
  ultimately show ?thesis
    by (subst store_refines_register [OF sample_lens sample_store_safe])
      (simp_all add: sample_b_ok register_save_def del: store_step.simps)
qed

end
