(* ===== verification/Session_Channel.thy ===== *)
theory Session_Channel
  imports Session_Reload Refinement
begin

text \<open>
  Two sessions over a network, and the channel they implement.  \<open>duplex_step\<close> is the implementation: either
  side sends DATA, the network hands any record ever sent to its receiver (late, early, again, or never), and
  either side restarts from its exported state.  \<open>channel_step\<close> is the specification: a sliding receive
  window per direction over the numbers of the messages, with no keys, no counters and no cache.
  \<open>duplex_rel\<close> relates the two.
\<close>

section \<open>The implementation: two sessions and a network\<close>

datatype side = SideA | SideB

fun peer :: "side \<Rightarrow> side" where
  "peer SideA = SideB"
| "peer SideB = SideA"

lemma peer_simps [simp]: "peer (peer x) = x" "peer x \<noteq> x" "x \<noteq> peer x"
  by (cases x; simp)+

lemma side_cases: "y = x \<or> y = peer x"
  by (cases x; cases y; simp)

text \<open>The sessions, every record each side has put on the wire, and the generator.\<close>

record 'r duplex =
  ends :: "side \<Rightarrow> session"
  wire :: "side \<Rightarrow> outer_record list"
  dx_rng :: 'r

datatype net_op = NetSend side bytes | NetDeliver side nat u64 | NetRestart side

datatype net_out =
  NetSent | NetReceived "SessionError + InboundInner" | NetFailed SessionError | NetNothing | NetRestarted

fun duplex_step :: "'r crypto \<Rightarrow> 'r duplex \<Rightarrow> net_op \<Rightarrow> net_out \<times> 'r duplex" where
  "duplex_step C d (NetSend x pt) =
     (case encrypt_data_plain512_outer C (ends d x) pt (dx_rng d) of
        (Inl e, s, r) \<Rightarrow> (NetFailed e, d\<lparr>ends := (ends d)(x := s), dx_rng := r\<rparr>)
      | (Inr (h, p), s, r) \<Rightarrow>
          (NetSent, d\<lparr>ends := (ends d)(x := s), dx_rng := r,
             wire := (wire d)(x := wire d x @ [\<lparr>rec_header = h, payload = p\<rparr>])\<rparr>))"
| "duplex_step C d (NetDeliver x k now) =
     (if k < length (wire d (peer x)) then
        (case handle_inbound_outer C (ends d x) (wire d (peer x) ! k) now (dx_rng d) of
           (res, s, r) \<Rightarrow> (NetReceived res, d\<lparr>ends := (ends d)(x := s), dx_rng := r\<rparr>))
      else (NetNothing, d))"
| "duplex_step C d (NetRestart x) =
     (case import_state (export_state (ends d x)) of
        Inl e \<Rightarrow> (NetFailed e, d)
      | Inr s \<Rightarrow> (NetRestarted, d\<lparr>ends := (ends d)(x := s)\<rparr>))"

section \<open>The specification: a sliding receive window\<close>

text \<open>
  Messages below \<open>win_top\<close> have been received or skipped; those in \<open>win_missing\<close> were skipped and may
  still arrive.  \<open>win_parked\<close> keys were in the cache before the window was opened.
\<close>

record window =
  win_top :: nat
  win_missing :: "nat set"
  win_parked :: nat

definition window_admit :: "window \<Rightarrow> nat \<Rightarrow> SessionError + window" where
  "window_admit w k =
     (if k + MAX_SKIP + 1 < win_top w then Err ReplayRejected
      else if k < win_top w then
        (if k \<in> win_missing w then Ok (w\<lparr>win_missing := win_missing w - {k}\<rparr>) else Err ReplayRejected)
      else if win_parked w + card (win_missing w) + (k - win_top w) > MAX_SKIP then Err MaxSkipExceeded
      else Ok (w\<lparr>win_top := Suc k, win_missing := win_missing w \<union> {win_top w..<k}\<rparr>))"

record channel =
  messages :: "side \<Rightarrow> bytes list"
  window_of :: "side \<Rightarrow> window"

fun channel_step :: "channel \<Rightarrow> net_op \<Rightarrow> net_out \<times> channel" where
  "channel_step a (NetSend x pt) = (NetSent, a\<lparr>messages := (messages a)(x := messages a x @ [pt])\<rparr>)"
| "channel_step a (NetDeliver x k now) =
     (if k < length (messages a (peer x)) then
        (case window_admit (window_of a x) k of
           Inl e \<Rightarrow> (NetReceived (Err e), a)
         | Inr w \<Rightarrow> (NetReceived (Ok (Data (messages a (peer x) ! k))), a\<lparr>window_of := (window_of a)(x := w)\<rparr>))
      else (NetNothing, a))"
| "channel_step a (NetRestart x) = (NetRestarted, a)"

text \<open>A message is 512 bytes, and each side sends at most \<open>N\<close> of them.\<close>

fun net_permitted :: "nat \<Rightarrow> channel \<Rightarrow> net_op \<Rightarrow> bool" where
  "net_permitted N a (NetSend x pt) = (length pt = 512 \<and> length (messages a x) < N)"
| "net_permitted N a _ = True"

section \<open>A receiver follows a window\<close>

definition follows :: "'r crypto \<Rightarrow> bytes \<Rightarrow> u64 \<Rightarrow> u64 \<Rightarrow> bytes \<Rightarrow> session \<Rightarrow> window \<Rightarrow> bool" where
  "follows C ck i c p t w \<longleftrightarrow>
     in_sync C ck i c p (win_top w) t ({..<win_top w} - win_missing w) (win_top w)
     \<and> win_missing w \<subseteq> {..<win_top w} \<and> skipped_len (skipped t) = win_parked w + card (win_missing w)
     \<and> session_inv t"

lemma follows_cong:
  assumes "follows C ck i c p t w" "session_inv t'" "recv_ck t' = recv_ck t" "recv_sym_idx t' = recv_sym_idx t"
    and "recv_high_water t' = recv_high_water t" "peer_ratchet_pub t' \<in> {peer_ratchet_pub t, Some p}"
    and "skipped_lookup (skipped t') = skipped_lookup (skipped t)" "skipped_len (skipped t') = skipped_len (skipped t)"
    and "decrypted_counters t' \<subseteq> decrypted_counters t"
  shows "follows C ck i c p t' w"
  using assms session_invD(1) [OF assms(2)] unfolding follows_def in_sync_def by auto

text \<open>Beyond the high water mark nothing has been remembered, so the receiver is ready for more.\<close>

lemma above_top_admitted:
  assumes "in_sync C ck i c p m t D m" "window_ok t" "m \<le> k" "unat c + k < 2 ^ 64"
  shows "replay_precheck t (c + of_nat k) = Ok ()"
proof (cases "recv_high_water t")
  case None
  with assms(2) show ?thesis by (simp add: replay_precheck_def window_ok_def)
next
  case (Some hw)
  then have hw: "unat hw + 1 = unat c + m" using assms(1) by (simp add: in_sync_def)
  then have lt: "hw < c + of_nat k" using assms(3) unat_ctr [OF assms(4)] by (simp add: word_less_nat_alt)
  moreover have "saturating_sub hw (of_nat MAX_SKIP) \<le> hw" by (rule saturating_sub_le)
  ultimately show ?thesis using Some assms(2) by (auto simp: replay_precheck_def window_ok_def)
qed

lemma in_sync_extend:
  assumes "in_sync C ck i c p m t D m" "window_ok t" "m \<le> n" "unat i + n < 2 ^ 64" "unat c + n < 2 ^ 64"
    and "skipped_len (skipped t) + (n - m) \<le> Suc MAX_SKIP"
  shows "in_sync C ck i c p n t D m"
proof -
  have "c + of_nat j \<notin> decrypted_counters t" if "m \<le> j" "j < n" for j
    using above_top_admitted [OF assms(1,2) that(1)] assms(5) that by (auto simp: replay_precheck_def split: if_splits)
  then show ?thesis using assms unfolding in_sync_def by (metis linorder_not_less)
qed

text \<open>What a DATA record made from message \<open>k\<close> of the chain carries.\<close>

definition data_record ::
  "'r crypto \<Rightarrow> bytes \<Rightarrow> u64 \<Rightarrow> u64 \<Rightarrow> session \<Rightarrow> nat \<Rightarrow> outer_record \<Rightarrow> bytes \<Rightarrow> bool" where
  "data_record C ck i c f k rec pt \<longleftrightarrow> wf_header (rec_header rec)
     \<and> rec_header rec = (next_header f 3)\<lparr>counter_be := c + of_nat k\<rparr>
     \<and> opens C (chain_mk C ck i k) (rec_header rec) (payload rec) pt \<and> length pt = 512"

lemma follows_ctr:
  assumes "follows C ck i c p t w" "unat c + k < 2 ^ 64"
  shows "unat (c + of_nat k) = unat c + k"
    and "k < win_top w \<Longrightarrow> \<exists>hw. recv_high_water t = Some hw \<and> unat hw + 1 = unat c + win_top w"
    and "k \<notin> win_missing w \<Longrightarrow> skipped_lookup (skipped t) p (c + of_nat k) = None"
  using assms unat_ctr [of c k] unfolding follows_def in_sync_def by (auto split: option.splits)

lemma gap_too_wide:
  assumes "follows C ck i c p t w" "win_top w \<le> k" "unat c + k + MAX_SKIP < 2 ^ 64"
    and "win_parked w + card (win_missing w) + (k - win_top w) > MAX_SKIP"
  shows "receive_key C t p (c + of_nat k) = (Err MaxSkipExceeded, t)"
proof -
  let ?m = "win_top w"
  have sync: "in_sync C ck i c p ?m t ({..<?m} - win_missing w) ?m"
    and len: "skipped_len (skipped t) = win_parked w + card (win_missing w)" using assms(1) by (simp_all add: follows_def)
  have cap: "skipped_len (skipped t) \<le> 2000"
    using sync skipped_inv_cap [OF wf_session_skippedD, of t] by (simp add: in_sync_def MAX_SKIP_def)
  have u: "unat (c + of_nat k) = unat c + k" "unat (c + of_nat ?m) = unat c + ?m"
    using assms(2,3) by (auto intro!: unat_ctr)
  have "k \<noteq> ?m" using assms(4) cap len by (auto simp: MAX_SKIP_def)
  then have lt: "\<not> c + of_nat ?m \<ge> c + of_nat k" using assms(2) by (simp add: word_le_nat_alt u)
  have d: "c + of_nat k - (c + of_nat ?m) = of_nat (k - ?m)" using assms(2) by (simp add: of_nat_diff)
  have "unat (of_nat (skipped_len (skipped t)) + of_nat (k - ?m) :: u64) = skipped_len (skipped t) + (k - ?m)"
    using cap assms(3) by (simp add: unat_of_nat MAX_SKIP_def flip: of_nat_add)
  then have "of_nat (skipped_len (skipped t)) + of_nat (k - ?m) > (of_nat MAX_SKIP :: u64)"
    using assms(4) len by (simp add: word_less_nat_alt MAX_SKIP_def del: of_nat_add)
  then have "gap_then_step C t p (c + of_nat ?m) (c + of_nat k) = (Err MaxSkipExceeded, t)"
    using lt by (simp only: gap_then_step_def fill_recv_gap_to_counter_def d Let_def if_True if_False prod.case sum.case)
  then show ?thesis using receive_key_enters_gap [OF sync assms(2)] assms(3) by simp
qed

lemma already_received:
  assumes "follows C ck i c p t w" "k < win_top w" "k \<notin> win_missing w"
  shows "receive_key C t p (c + of_nat k) = (Err ReplayRejected, t)"
proof -
  have b: "unat c + k < 2 ^ 64" using assms(1,2) unfolding follows_def in_sync_def by simp
  obtain hw where hw: "recv_high_water t = Some hw" "unat hw + 1 = unat c + win_top w"
    using follows_ctr(2) [OF assms(1) b assms(2)] by blast
  obtain M where tk: "skipped_take (skipped t) p (c + of_nat k) = (None, M)"
    using follows_ctr(3) [OF assms(1) b assms(3)] cache.pull_val [of "skipped t" p "c + of_nat k"] by (metis prod.collapse)
  have "c + of_nat k \<le> hw" using hw(2) assms(2) by (simp add: word_le_nat_alt follows_ctr(1) [OF assms(1) b])
  with tk hw(1) show ?thesis by (simp add: receive_key_def)
qed

text \<open>A record the window has no room for, or has seen, changes at most the bound peer key.\<close>

lemma follows_bind: "follows C ck i c p t w \<Longrightarrow> follows C ck i c p (t\<lparr>peer_ratchet_pub := Some p\<rparr>) w"
  by (rule follows_cong [where t = t]) (auto simp: follows_def in_sync_def intro: session_inv_bind)

lemma decrypt_data_outer_refused:
  assumes "follows C ck i c p t w" "window_admit w k = Err e" "unat c + k + MAX_SKIP < 2 ^ 64"
    and h: "hdr_session_id h = session_id t" "epoch_be h = epoch t" "version h = 1" "hdr_typ h = 3"
      "counter_be h = c + of_nat k" "ratchet_pub h = p"
    and "opens C mk h padded pt"
  shows "\<exists>q \<in> {peer_ratchet_pub t, Some p}. decrypt_data_outer C t h padded r = (Err e, t\<lparr>peer_ratchet_pub := q\<rparr>, r)"
proof -
  let ?c = "c + of_nat k" and ?t1 = "t\<lparr>peer_ratchet_pub := Some p\<rparr>"
  have b: "unat c + k < 2 ^ 64" using assms(3) by simp
  have sync: "in_sync C ck i c p (win_top w) t ({..<win_top w} - win_missing w) (win_top w)" "window_ok t"
    using assms(1) by (simp_all add: follows_def session_inv_def)
  obtain l where l: "strip_outer_pad padded DATA_LOGICAL = Ok l" using assms(10) by (auto simp: opens_def)
  have pre: ?thesis if "replay_precheck t ?c = Err e"
    using that l h by (intro bexI [of _ "peer_ratchet_pub t"]) (simp_all add: decrypt_data_outer_def decrypt_data_def)
  have key: ?thesis if "replay_precheck t ?c = Ok ()" "receive_key C ?t1 p ?c = (Err e, ?t1)"
    using that l h in_sync_bind(1) [OF sync(1)]
    by (intro bexI [of _ "Some p"]) (simp_all add: decrypt_data_outer_def decrypt_data_def)
  have two: "replay_precheck t ?c = Ok () \<or> replay_precheck t ?c = Err ReplayRejected"
    by (auto simp: replay_precheck_def split: option.splits)
  consider (old) "k + MAX_SKIP + 1 < win_top w" "e = ReplayRejected"
    | (seen) "k < win_top w" "k \<notin> win_missing w" "e = ReplayRejected"
    | (wide) "win_top w \<le> k" "win_parked w + card (win_missing w) + (k - win_top w) > MAX_SKIP" "e = MaxSkipExceeded"
    using assms(2) by (auto simp: window_admit_def split: if_splits)
  then show ?thesis
  proof cases
    case old
    then obtain hw where hw: "recv_high_water t = Some hw" "unat hw + 1 = unat c + win_top w"
      using follows_ctr(2) [OF assms(1) b] by auto
    have "?c < saturating_sub hw (of_nat MAX_SKIP)"
      using hw(2) old(1) by (simp add: word_less_nat_alt unat_saturating_sub follows_ctr(1) [OF assms(1) b] MAX_SKIP_def)
    with hw(1) old(2) show ?thesis by (intro pre) (simp add: replay_precheck_def)
  next
    case seen
    then show ?thesis using two pre key already_received [OF follows_bind [OF assms(1)]] by metis
  next
    case wide
    have "replay_precheck t ?c = Ok ()" by (rule above_top_admitted [OF sync wide(1) b])
    then show ?thesis using gap_too_wide [OF follows_bind [OF assms(1)] wide(1) assms(3) wide(2)] wide(3) by (intro key) simp_all
  qed
qed

text \<open>What admitting a message does to the window.\<close>

lemma window_admit_Ok:
  assumes "window_admit w k = Ok w'" "win_missing w \<subseteq> {..<win_top w}" "win_parked w + card (win_missing w) \<le> MAX_SKIP"
  shows "win_top w \<le> Suc (k + MAX_SKIP)" "k \<notin> {..<win_top w} - win_missing w"
    and "win_parked w + card (win_missing w) + (max (win_top w) (Suc k) - win_top w) \<le> Suc MAX_SKIP"
    and "win_top w' = max (win_top w) (Suc k)" "win_missing w' \<subseteq> {..<win_top w'}"
    and "{..<win_top w'} - win_missing w' = insert k ({..<win_top w} - win_missing w)"
    and "win_parked w' + card (win_missing w') = (if k < win_top w
           then win_parked w + card (win_missing w) - 1 else win_parked w + card (win_missing w) + (k - win_top w))"
proof -
  have fin: "finite (win_missing w)" using assms(2) finite_subset by blast
  have disj: "win_missing w \<inter> {win_top w..<k} = {}" using assms(2) by auto
  consider (late) "k < win_top w" "k \<in> win_missing w" "w' = w\<lparr>win_missing := win_missing w - {k}\<rparr>"
      "win_top w \<le> Suc (k + MAX_SKIP)"
    | (ahead) "win_top w \<le> k" "win_parked w + card (win_missing w) + (k - win_top w) \<le> MAX_SKIP"
      "w' = w\<lparr>win_top := Suc k, win_missing := win_missing w \<union> {win_top w..<k}\<rparr>"
    using assms(1) by (auto simp: window_admit_def split: if_splits)
  note two = this
  from two show "win_top w \<le> Suc (k + MAX_SKIP)" by cases auto
  from two show "k \<notin> {..<win_top w} - win_missing w" by cases auto
  from two show "win_parked w + card (win_missing w) + (max (win_top w) (Suc k) - win_top w) \<le> Suc MAX_SKIP"
    using assms(3) by cases (auto simp: max_def)
  from two show "win_top w' = max (win_top w) (Suc k)" by cases auto
  from two show "win_missing w' \<subseteq> {..<win_top w'}" using assms(2) by cases auto
  from two show "{..<win_top w'} - win_missing w' = insert k ({..<win_top w} - win_missing w)"
    using assms(2) by cases auto
  from two show "win_parked w' + card (win_missing w') = (if k < win_top w
      then win_parked w + card (win_missing w) - 1 else win_parked w + card (win_missing w) + (k - win_top w))"
  proof cases
    case late
    then have "card (win_missing w) > 0" using fin card_gt_0_iff by blast
    then show ?thesis using late fin by simp
  next
    case ahead
    then show ?thesis using fin disj by (simp add: card_Un_disjoint)
  qed
qed

text \<open>A record the window admits is decrypted, and the receiver follows the new window.\<close>

lemma decrypt_data_outer_admitted:
  assumes "crypto_lens C" "follows C ck i c p t w" "window_admit w k = Ok w'"
    and "unat i + Suc k < 2 ^ 64" "unat c + Suc k < 2 ^ 64"
    and h: "wf_header h" "version h = 1" "hdr_typ h = 3" "hdr_session_id h = session_id t" "epoch_be h = epoch t"
      "counter_be h = c + of_nat k" "ratchet_pub h = p"
    and "opens C (chain_mk C ck i k) h padded pt" "length pt = 512"
  shows "\<exists>t'. decrypt_data_outer C t h padded r = (Ok pt, t', r) \<and> recv_frame t t' \<and> follows C ck i c p t' w'"
proof -
  let ?m = "win_top w" and ?M = "win_missing w"
  have sync: "in_sync C ck i c p ?m t ({..<?m} - ?M) ?m" "window_ok t" "session_inv t" "?M \<subseteq> {..<?m}"
    and len: "skipped_len (skipped t) = win_parked w + card ?M"
    using assms(2) by (simp_all add: follows_def session_inv_def)
  have "win_parked w + card ?M \<le> MAX_SKIP"
    using skipped_inv_cap [OF wf_session_skippedD [OF session_invD(1) [OF sync(3)]]] len by simp
  note adm = window_admit_Ok [OF assms(3) sync(4) this, folded len]
  have sy: "in_sync C ck i c p (max ?m (Suc k)) t ({..<?m} - ?M) ?m"
    using in_sync_extend [OF sync(1,2) _ _ _ adm(3)] sync(1) assms(4,5) by (simp add: in_sync_def max_def)
  have kl: "k < max ?m (Suc k)" by simp
  obtain t' where t': "decrypt_data_outer C t h padded r = (Ok pt, t', r)"
    "in_sync C ck i c p (max ?m (Suc k)) t' (insert k ({..<?m} - ?M)) (max ?m (Suc k))" "recv_frame t t'"
    "skipped_len (skipped t') = (if k < ?m then skipped_len (skipped t) - 1 else skipped_len (skipped t) + (k - ?m))"
    using decrypt_data_outer_sync [OF assms(1) sy kl adm(2) h assms(13,14) adm(1), of r] by blast
  have "wf_session t'" using t'(2) by (simp add: in_sync_def)
  then have "session_inv t'" using decrypt_inv [OF sync(3) _ decrypt_data_outer_outcome [OF t'(1)]] by blast
  with t' adm(4-7) show ?thesis by (auto simp: follows_def)
qed

text \<open>Both outcomes at the dispatcher.\<close>

definition window_after :: "window \<Rightarrow> nat \<Rightarrow> window" where
  "window_after w k = (case window_admit w k of Inl _ \<Rightarrow> w | Inr w' \<Rightarrow> w')"

lemma handle_inbound_follows:
  assumes "crypto_lens C" "follows C ck i c (my_ratchet_pub f) t w" "data_record C ck i c f k rec pt"
    and "session_id t = session_id f" "epoch t = epoch f"
    and "unat i + Suc k < 2 ^ 64" "unat c + Suc k + MAX_SKIP < 2 ^ 64"
  shows "\<exists>t' m. handle_inbound_outer C t rec now r = (map_ok (\<lambda>_. Data pt) (window_admit w k), t', r)
    \<and> recv_frame (t\<lparr>mode := m\<rparr>) t' \<and> follows C ck i c (my_ratchet_pub f) t' (window_after w k)"
proof -
  let ?h = "rec_header rec" and ?p = "my_ratchet_pub f"
  have inv: "session_inv t" using assms(2) by (simp add: follows_def)
  have h: "wf_header ?h" "version ?h = 1" "hdr_typ ?h = 3" "flags ?h = 0" "hdr_session_id ?h = session_id t"
    "epoch_be ?h = epoch t" "counter_be ?h = c + of_nat k" "ratchet_pub ?h = ?p"
    and op: "opens C (chain_mk C ck i k) ?h (payload rec) pt" "length pt = 512"
    using assms(3-5) by (auto simp: data_record_def next_header_def)
  obtain m where m: "mode_ok (t\<lparr>mode := m\<rparr>)" "handle_inbound_outer C t rec now r =
      (case decrypt_data_outer C (t\<lparr>mode := m\<rparr>) ?h (payload rec) r of (res, s1, r1) \<Rightarrow> (map_ok Data res, s1, r1))"
    using handle_inbound_pass [OF session_invD(2) [OF inv] h(2) _ h(4-6) refl, of C now r] h(3) by auto
  have fm: "follows C ck i c ?p (t\<lparr>mode := m\<rparr>) w"
    by (rule follows_cong [OF assms(2) session_inv_mode [OF inv m(1)]]) simp_all
  show ?thesis
  proof (cases "window_admit w k")
    case (Inl e)
    have hm: "hdr_session_id ?h = session_id (t\<lparr>mode := m\<rparr>)" "epoch_be ?h = epoch (t\<lparr>mode := m\<rparr>)"
      "unat c + k + MAX_SKIP < 2 ^ 64" using h(5,6) assms(7) by simp_all
    obtain q where q: "q \<in> {peer_ratchet_pub (t\<lparr>mode := m\<rparr>), Some ?p}" "decrypt_data_outer C (t\<lparr>mode := m\<rparr>) ?h (payload rec) r
        = (Err e, t\<lparr>mode := m, peer_ratchet_pub := q\<rparr>, r)"
      using decrypt_data_outer_refused [OF fm Inl hm(3,1,2) h(2,3,7,8) op(1), of r] by blast
    then have "follows C ck i c ?p (t\<lparr>mode := m, peer_ratchet_pub := q\<rparr>) w"
      using fm follows_bind [OF fm] by (cases t) auto
    with q m(2) Inl show ?thesis
      by (intro exI [of _ "t\<lparr>mode := m, peer_ratchet_pub := q\<rparr>"] exI [of _ m]) (auto simp: recv_frame_def window_after_def)
  next
    case (Inr w')
    then obtain t' where "decrypt_data_outer C (t\<lparr>mode := m\<rparr>) ?h (payload rec) r = (Ok pt, t', r)"
      "recv_frame (t\<lparr>mode := m\<rparr>) t'" "follows C ck i c ?p t' w'"
      using decrypt_data_outer_admitted [OF assms(1) fm Inr assms(6) _ h(1-3) _ _ h(7,8) op, of r] h(5,6) assms(7) by auto
    with m(2) Inr show ?thesis by (intro exI [of _ t'] exI [of _ m]) (auto simp: window_after_def)
  qed
qed

section \<open>One direction\<close>

definition one_way ::
  "'r crypto \<Rightarrow> nat \<Rightarrow> session \<Rightarrow> session \<Rightarrow> outer_record list \<Rightarrow> bytes list \<Rightarrow> window \<Rightarrow> bool" where
  "one_way C N f t recs pts w \<longleftrightarrow> (\<exists>ck i c.
     follows C ck i c (my_ratchet_pub f) t w \<and> win_top w \<le> length pts
     \<and> session_id t = session_id f \<and> epoch t = epoch f \<and> my_ratchet_pub f \<noteq> replicate 32 0
     \<and> length recs = length pts \<and> length pts \<le> N \<and> unat i + N < 2 ^ 64 \<and> unat c + N + MAX_SKIP < 2 ^ 64
     \<and> send_ck f = chain_ck C ck i (length pts) \<and> send_sym_idx f = i + of_nat (length pts)
     \<and> send_wire_counter f = c + of_nat (length pts)
     \<and> (\<forall>k < length pts. data_record C ck i c f k (recs ! k) (pts ! k)))"

text \<open>A direction only depends on the send half of its sender and the receive half of its receiver.\<close>

definition same_send :: "session \<Rightarrow> session \<Rightarrow> bool" where
  "same_send f f' \<longleftrightarrow> send_ck f' = send_ck f \<and> send_sym_idx f' = send_sym_idx f
     \<and> send_wire_counter f' = send_wire_counter f \<and> my_ratchet_pub f' = my_ratchet_pub f
     \<and> session_id f' = session_id f \<and> epoch f' = epoch f"

definition same_recv :: "session \<Rightarrow> session \<Rightarrow> bool" where
  "same_recv t t' \<longleftrightarrow> recv_ck t' = recv_ck t \<and> recv_sym_idx t' = recv_sym_idx t \<and> recv_high_water t' = recv_high_water t
     \<and> peer_ratchet_pub t' = peer_ratchet_pub t \<and> skipped_lookup (skipped t') = skipped_lookup (skipped t)
     \<and> skipped_len (skipped t') = skipped_len (skipped t) \<and> decrypted_counters t' \<subseteq> decrypted_counters t
     \<and> session_id t' = session_id t \<and> epoch t' = epoch t"

lemma one_way_sender:
  assumes "one_way C N f t recs pts w" "same_send f f'"
  shows "one_way C N f' t recs pts w"
proof -
  have "data_record C ck i c f' k rec pt = data_record C ck i c f k rec pt" for ck i c k rec pt
    using assms(2) by (simp add: data_record_def next_header_def same_send_def)
  with assms show ?thesis unfolding one_way_def same_send_def by metis
qed

lemma one_way_receiver:
  assumes "one_way C N f t recs pts w" "same_recv t t'" "session_inv t'"
  shows "one_way C N f t' recs pts w"
proof -
  have "follows C ck i c p t w \<Longrightarrow> follows C ck i c p t' w" for ck i c p
    by (erule follows_cong [OF _ assms(3)]) (use assms(2) in \<open>simp_all add: same_recv_def\<close>)
  with assms show ?thesis unfolding one_way_def same_recv_def by metis
qed

lemma send_frame_recv: "send_frame s s' \<Longrightarrow> same_recv s s'"
  unfolding send_frame_def same_recv_def by (cases s; cases s') simp

lemma recv_frame_send: "recv_frame (s\<lparr>mode := m\<rparr>) s' \<Longrightarrow> same_send s s'"
  unfolding recv_frame_def same_send_def by (cases s; cases s') simp

lemma one_way_inv: "one_way C N f t recs pts w \<Longrightarrow> session_inv t"
  by (auto simp: one_way_def follows_def)

lemma data_record_send_frame:
  "send_frame f f' \<Longrightarrow> data_record C ck i c f' k rec pt = data_record C ck i c f k rec pt"
  using send_frame_simps [of f f'] by (simp add: data_record_def next_header_def)

lemma one_way_send:
  assumes "crypto_lens C" "aead_ok C" "one_way C N f t recs pts w" "session_inv f" "length pt = 512" "length pts < N"
  shows "\<exists>h p f' r'. encrypt_data_plain512_outer C f pt r = (Ok (h, p), f', r') \<and> same_recv f f' \<and> session_inv f'
    \<and> one_way C N f' t (recs @ [\<lparr>rec_header = h, payload = p\<rparr>]) (pts @ [pt]) w"
proof -
  let ?n = "length pts"
  obtain ck i c where d: "follows C ck i c (my_ratchet_pub f) t w" "win_top w \<le> ?n"
    "session_id t = session_id f" "epoch t = epoch f" "my_ratchet_pub f \<noteq> replicate 32 0"
    "length recs = ?n" "unat i + N < 2 ^ 64" "unat c + N + MAX_SKIP < 2 ^ 64"
    "send_ck f = chain_ck C ck i ?n" "send_sym_idx f = i + of_nat ?n" "send_wire_counter f = c + of_nat ?n"
    and recs: "\<And>k. k < ?n \<Longrightarrow> data_record C ck i c f k (recs ! k) (pts ! k)"
    using assms(3) unfolding one_way_def by blast
  have u: "unat (send_sym_idx f) = unat i + ?n" "unat (send_wire_counter f) = unat c + ?n"
    using d(7,8,10,11) assms(6) by (auto intro!: unat_ctr)
  obtain p f' r' where e: "encrypt_data_plain512_outer C f pt r = (Ok (next_header f 3, p), f', r')" "send_frame f f'"
    "send_wire_counter f' = send_wire_counter f + 1" "send_ck f' = chain_ck C (send_ck f) (send_sym_idx f) 1"
    "send_sym_idx f' = send_sym_idx f + 1" "opens C (chain_mk C (send_ck f) (send_sym_idx f) 0) (next_header f 3) p pt"
    using encrypt_data_outer_Ok [OF assms(1,2,5), of f r] u d(7,8) assms(6) by auto
  let ?rec = "\<lparr>rec_header = next_header f 3, payload = p\<rparr>"
  have inv: "session_inv f'" using session_step_inv [OF assms(1) session_step.send_data_outer [OF e(1)] assms(4)] .
  have "data_record C ck i c f ?n ?rec pt"
    using e(6) assms(5) d(9-11) next_header_wf [OF session_invD(1) [OF assms(4)], of 3]
    by (simp add: data_record_def next_header_def chain_mk_def)
  then have all: "data_record C ck i c f' k ((recs @ [?rec]) ! k) ((pts @ [pt]) ! k)" if "k < length (pts @ [pt])" for k
    using that recs d(6) by (auto simp: nth_append data_record_send_frame [OF e(2)] less_Suc_eq)
  have "one_way C N f' t (recs @ [?rec]) (pts @ [pt]) w"
    unfolding one_way_def using all d e assms(6) send_frame_simps [OF e(2)]
    by (intro exI [of _ ck] exI [of _ i] exI [of _ c]) (simp add: add.commute add.left_commute)
  with e(1) inv send_frame_recv [OF e(2)] show ?thesis by blast
qed

lemma window_after_top:
  "k < n \<Longrightarrow> win_top w \<le> n \<Longrightarrow> win_top (window_after w k) \<le> n"
  by (auto simp: window_after_def window_admit_def)

lemma one_way_deliver:
  assumes "crypto_lens C" "one_way C N f t recs pts w" "k < length pts"
  shows "\<exists>t'. handle_inbound_outer C t (recs ! k) now r = (map_ok (\<lambda>_. Data (pts ! k)) (window_admit w k), t', r)
    \<and> same_send t t' \<and> one_way C N f t' recs pts (window_after w k)"
proof -
  let ?n = "length pts"
  obtain ck i c where d: "follows C ck i c (my_ratchet_pub f) t w" "win_top w \<le> ?n"
    "session_id t = session_id f" "epoch t = epoch f" "my_ratchet_pub f \<noteq> replicate 32 0"
    "length recs = ?n" "?n \<le> N" "unat i + N < 2 ^ 64" "unat c + N + MAX_SKIP < 2 ^ 64"
    "send_ck f = chain_ck C ck i ?n" "send_sym_idx f = i + of_nat ?n" "send_wire_counter f = c + of_nat ?n"
    and recs: "\<And>k. k < ?n \<Longrightarrow> data_record C ck i c f k (recs ! k) (pts ! k)"
    using assms(2) unfolding one_way_def by blast
  obtain t' m where t': "handle_inbound_outer C t (recs ! k) now r = (map_ok (\<lambda>_. Data (pts ! k)) (window_admit w k), t', r)"
    "recv_frame (t\<lparr>mode := m\<rparr>) t'" "follows C ck i c (my_ratchet_pub f) t' (window_after w k)"
    using handle_inbound_follows [OF assms(1) d(1) recs [OF assms(3)] d(3,4), of now r] d(7-9) assms(3) by auto
  have "session_id t' = session_id t" "epoch t' = epoch t" using recv_frame_send [OF t'(2)] by (simp_all add: same_send_def)
  then have "one_way C N f t' recs pts (window_after w k)"
    unfolding one_way_def using d recs t'(3) window_after_top [OF assms(3) d(2)]
    by (intro exI [of _ ck] exI [of _ i] exI [of _ c]) simp
  with t'(1) recv_frame_send [OF t'(2)] show ?thesis by blast
qed

lemma one_way_restart:
  assumes "one_way C N f t recs pts w"
  shows "\<exists>t'. import_state (export_state t) = Ok t' \<and> same_send t t' \<and> same_recv t t' \<and> session_inv t'"
proof -
  obtain ck i c where d: "follows C ck i c (my_ratchet_pub f) t w" "my_ratchet_pub f \<noteq> replicate 32 0"
    "win_top w \<le> N" "unat c + N + MAX_SKIP < 2 ^ 64"
    using assms unfolding one_way_def by (meson order_trans)
  have inv: "session_inv t" using d(1) by (simp add: follows_def)
  have "exportable t"
    using d unfolding follows_def in_sync_def exportable_def
    by (auto simp: RECV_HIGH_WATER_NONE_SENTINEL_def unsigned_minus_1_eq_mask mask_eq_exp_minus_1)
  then obtain m where m: "import_state (export_state t) = Ok (reloaded t m)" "skipped_inv m"
    "skipped_lookup m = skipped_lookup (skipped t)" "skipped_len m = skipped_len (skipped t)"
    by (rule import_export [OF session_invD(1) [OF inv]])
  with reloaded_inv [OF inv m(2)] show ?thesis
    by (intro exI [of _ "reloaded t m"]) (simp add: same_send_def same_recv_def reloaded_def)
qed

section \<open>Refinement\<close>

definition duplex_rel :: "'r crypto \<Rightarrow> nat \<Rightarrow> 'r duplex \<Rightarrow> channel \<Rightarrow> bool" where
  "duplex_rel C N d a \<longleftrightarrow> crypto_lens C \<and> aead_ok C \<and>
     (\<forall>x. one_way C N (ends d x) (ends d (peer x)) (wire d x) (messages a x) (window_of a (peer x)))"

lemma duplex_relD:
  assumes "duplex_rel C N d a"
  shows "one_way C N (ends d x) (ends d (peer x)) (wire d x) (messages a x) (window_of a (peer x))"
    and "one_way C N (ends d (peer x)) (ends d x) (wire d (peer x)) (messages a (peer x)) (window_of a x)"
    and "session_inv (ends d x)" "length (wire d x) = length (messages a x)" "crypto_lens C" "aead_ok C"
proof -
  show d: "one_way C N (ends d x) (ends d (peer x)) (wire d x) (messages a x) (window_of a (peer x))" for x
    using assms by (simp add: duplex_rel_def)
  show "one_way C N (ends d (peer x)) (ends d x) (wire d (peer x)) (messages a (peer x)) (window_of a x)"
    "session_inv (ends d x)" using d [of "peer x"] one_way_inv by auto
  show "length (wire d x) = length (messages a x)" using d [of x] by (auto simp: one_way_def)
qed (use assms in \<open>simp_all add: duplex_rel_def\<close>)

text \<open>Replacing the session of one side: the direction out of it and the direction into it.\<close>

lemma duplex_relI:
  assumes "crypto_lens C" "aead_ok C"
    and "one_way C N (ends d x) (ends d (peer x)) (wire d x) (messages a x) (window_of a (peer x))"
    and "one_way C N (ends d (peer x)) (ends d x) (wire d (peer x)) (messages a (peer x)) (window_of a x)"
  shows "duplex_rel C N d a"
proof -
  have "one_way C N (ends d y) (ends d (peer y)) (wire d y) (messages a y) (window_of a (peer y))" for y
    using side_cases [of y x] assms(3,4) by (elim disjE) simp_all
  with assms(1,2) show ?thesis by (simp add: duplex_rel_def)
qed

interpretation chan: forward_sim "duplex_step C" channel_step "duplex_rel C N" "net_permitted N" for C N
proof
  fix d :: "'a duplex" and a op
  assume rel: "duplex_rel C N d a" and ok: "net_permitted N a op"
  note lens = duplex_relD(5,6) [OF rel]
  show "fst (duplex_step C d op) = fst (channel_step a op)
    \<and> duplex_rel C N (snd (duplex_step C d op)) (snd (channel_step a op))"
  proof (cases op)
    case (NetSend x pt)
    obtain h p s r where e: "encrypt_data_plain512_outer C (ends d x) pt (dx_rng d) = (Ok (h, p), s, r)"
      "same_recv (ends d x) s" "session_inv s"
      "one_way C N s (ends d (peer x)) (wire d x @ [\<lparr>rec_header = h, payload = p\<rparr>]) (messages a x @ [pt])
         (window_of a (peer x))"
      using one_way_send [OF lens duplex_relD(1,3) [OF rel], of pt x "dx_rng d"] ok NetSend by auto
    with one_way_receiver [OF duplex_relD(2) [OF rel] e(2,3)] NetSend lens show ?thesis
      by (auto intro!: duplex_relI [of _ _ _ x])
  next
    case (NetDeliver x k now)
    show ?thesis
    proof (cases "k < length (messages a (peer x))")
      case True
      obtain s where e: "handle_inbound_outer C (ends d x) (wire d (peer x) ! k) now (dx_rng d)
           = (map_ok (\<lambda>_. Data (messages a (peer x) ! k)) (window_admit (window_of a x) k), s, dx_rng d)"
        "same_send (ends d x) s"
        "one_way C N (ends d (peer x)) s (wire d (peer x)) (messages a (peer x)) (window_after (window_of a x) k)"
        using one_way_deliver [OF lens(1) duplex_relD(2) [OF rel] True, of now "dx_rng d"] by auto
      have "one_way C N s (ends d (peer x)) (wire d x) (messages a x) (window_of a (peer x))"
        by (rule one_way_sender [OF duplex_relD(1) [OF rel] e(2)])
      with e True NetDeliver lens duplex_relD(4) [OF rel] show ?thesis
        by (auto intro!: duplex_relI [of _ _ _ x] simp: window_after_def split: sum.splits)
    qed (use NetDeliver rel duplex_relD(4) [OF rel] in simp)
  next
    case (NetRestart x)
    obtain s where e: "import_state (export_state (ends d x)) = Ok s" "same_send (ends d x) s" "same_recv (ends d x) s"
      "session_inv s" using one_way_restart [OF duplex_relD(2) [OF rel]] by blast
    with one_way_receiver [OF duplex_relD(2) [OF rel] e(3,4)] one_way_sender [OF duplex_relD(1) [OF rel] e(2)]
      NetRestart lens show ?thesis by (auto intro!: duplex_relI [of _ _ _ x])
  qed
qed

text \<open>Two paired sessions start the channel with empty windows.\<close>

definition duplex_start :: "session \<Rightarrow> session \<Rightarrow> 'r \<Rightarrow> 'r duplex" where
  "duplex_start a b r = \<lparr>ends = case_side a b, wire = (\<lambda>_. []), dx_rng = r\<rparr>"

definition channel_start :: "session \<Rightarrow> session \<Rightarrow> channel" where
  "channel_start a b = \<lparr>messages = (\<lambda>_. []),
     window_of = (\<lambda>x. \<lparr>win_top = 0, win_missing = {}, win_parked = skipped_len (skipped (case_side a b x))\<rparr>)\<rparr>"

definition room_for :: "nat \<Rightarrow> session \<Rightarrow> bool" where
  "room_for N s \<longleftrightarrow> unat (send_sym_idx s) + N < 2 ^ 64 \<and> unat (send_wire_counter s) + N + MAX_SKIP < 2 ^ 64
     \<and> my_ratchet_pub s \<noteq> replicate 32 0"

lemma paired_one_way:
  assumes "paired f t" "room_for N f"
  shows "one_way C N f t [] [] \<lparr>win_top = 0, win_missing = {}, win_parked = skipped_len (skipped t)\<rparr>"
proof -
  have inv: "session_inv t" using assms(1) by (simp add: paired_def)
  then have "skipped_len (skipped t) + 0 \<le> MAX_SKIP"
    using skipped_inv_cap [OF wf_session_skippedD [OF session_invD(1)]] by simp
  then have "in_sync C (send_ck f) (send_sym_idx f) (send_wire_counter f) (my_ratchet_pub f) 0 t {} 0"
    using assms(2) by (intro paired_in_sync [OF assms(1)]) (auto simp: room_for_def)
  then show ?thesis using assms inv unfolding one_way_def follows_def room_for_def paired_def
    by (intro exI [of _ "send_ck f"] exI [of _ "send_sym_idx f"] exI [of _ "send_wire_counter f"]) auto
qed

lemma start_related:
  assumes "crypto_lens C" "aead_ok C" "paired a b" "paired b a" "room_for N a" "room_for N b"
  shows "duplex_rel C N (duplex_start a b r) (channel_start a b)"
  using assms(1,2) by (rule duplex_relI [of _ _ _ SideA])
    (auto simp: duplex_start_def channel_start_def intro: paired_one_way assms)

section \<open>Properties\<close>

text \<open>C2: Two paired sessions over a network that reorders, repeats and loses records, with either side
  restarting from its exported state at any moment, refine a pair of sliding receive windows: every run of sends,
  deliveries and restarts gives exactly the results the windows give.  A message is delivered once, with its
  plaintext; a second copy, or one more than 2000 behind the newest, is \<open>ReplayRejected\<close>; one that would need more
  than 2000 cached keys is \<open>MaxSkipExceeded\<close> and can be delivered later; restarts are invisible.\<close>

theorem duplex_channel_refinement:
  assumes "crypto_lens C" "aead_ok C" "paired a b" "paired b a" "room_for N a" "room_for N b"
    and "ops_ok channel_step (net_permitted N) (channel_start a b) ops"
  shows "fst (run_ops (duplex_step C) (duplex_start a b r) ops) = fst (run_ops channel_step (channel_start a b) ops)"
  using chan.run_refines [OF start_related [OF assms(1-6)] assms(7)] by blast

theorem duplex_channel_refinement_witness:
  "fst (run_ops (duplex_step sample_crypto) (duplex_start sample_a sample_b 0)
      [NetSend SideA (replicate 512 1), NetSend SideA (replicate 512 2), NetDeliver SideB 1 0, NetRestart SideB,
       NetDeliver SideB 1 0, NetDeliver SideB 0 0, NetSend SideB (replicate 512 3), NetDeliver SideA 0 0])
   = [NetSent, NetSent, NetReceived (Ok (Data (replicate 512 2))), NetRestarted, NetReceived (Err ReplayRejected),
      NetReceived (Ok (Data (replicate 512 1))), NetSent, NetReceived (Ok (Data (replicate 512 3)))]"
proof -
  have room: "room_for 10 sample_a" "room_for 10 sample_b"
    by (simp_all add: room_for_def MAX_SKIP_def sample_a_def sample_b_def bootstrap_initiator_def bootstrap_responder_def
        Let_def split_beta sample_crypto_def)
  have "skipped_len (skipped sample_a) = 0"
    by (simp add: sample_a_def bootstrap_initiator_def Let_def split_beta skipped_new_def skipped_len_def)
  then show ?thesis
    by (subst duplex_channel_refinement [OF sample_lens sample_aead sample_paired room])
      (simp_all add: channel_start_def window_admit_def MAX_SKIP_def sample_fresh del: duplex_step.simps)
qed

end
