(* ===== verification/Ffi.thy ===== *)
theory Ffi
  imports Storage Wire_Relay
begin

text \<open>
  \<^verbatim>\<open>crates/libgary-ffi/src/{lib,fixture}.rs\<close>: the C interface.  A \<open>SessionHandle\<close> pointer is an optional
  \<open>ffi_handle\<close> (null is \<open>None\<close>), a pointer with a length is a \<open>c_slice\<close>, and each call returns its code with
  the handle it leaves behind and what it wrote through its out pointers.  \<open>getrandom\<close> is an argument
  (the seed, or \<open>None\<close> when it fails) and \<open>ChaCha12Rng::from_seed\<close> the parameter \<open>from_seed\<close>.  The
  definitions have the semantics of a release build, where the modelled code does not panic, so that \<open>catch_unwind\<close> always
  sees a result; in a debug build the inbound path can overflow in one place, which the checked definitions of
  \<open>Session_Debug\<close> show.
\<close>

section \<open>Codes and messages\<close>

definition GARY_CODE_OK :: int where "GARY_CODE_OK = 0"
definition GARY_CODE_NULL_POINTER :: int where "GARY_CODE_NULL_POINTER = 1"
definition GARY_CODE_PANIC :: int where "GARY_CODE_PANIC = 2"
definition GARY_CODE_WIRE_TRUNCATED :: int where "GARY_CODE_WIRE_TRUNCATED = 10"
definition GARY_CODE_WIRE_RECORD_LENGTH_MISMATCH :: int where "GARY_CODE_WIRE_RECORD_LENGTH_MISMATCH = 11"
definition GARY_CODE_WIRE_RECORD_TOO_LARGE :: int where "GARY_CODE_WIRE_RECORD_TOO_LARGE = 12"
definition GARY_CODE_WIRE_INVALID_HEADER_VERSION :: int where "GARY_CODE_WIRE_INVALID_HEADER_VERSION = 13"
definition GARY_CODE_WIRE_INVALID_HEADER_TYPE :: int where "GARY_CODE_WIRE_INVALID_HEADER_TYPE = 14"
definition GARY_CODE_WIRE_INVALID_HEADER_FLAGS :: int where "GARY_CODE_WIRE_INVALID_HEADER_FLAGS = 15"
definition GARY_CODE_WIRE_OTHER :: int where "GARY_CODE_WIRE_OTHER = 19"
definition GARY_CODE_CONTENT_TOO_LARGE :: int where "GARY_CODE_CONTENT_TOO_LARGE = 20"
definition GARY_CODE_BUFFER_TOO_SMALL :: int where "GARY_CODE_BUFFER_TOO_SMALL = 21"
definition GARY_CODE_SESSION_REPLAY_REJECTED :: int where "GARY_CODE_SESSION_REPLAY_REJECTED = 100"
definition GARY_CODE_SESSION_STALE_EPOCH :: int where "GARY_CODE_SESSION_STALE_EPOCH = 101"
definition GARY_CODE_SESSION_DECRYPTION_FAILED :: int where "GARY_CODE_SESSION_DECRYPTION_FAILED = 102"
definition GARY_CODE_SESSION_MAX_SKIP_EXCEEDED :: int where "GARY_CODE_SESSION_MAX_SKIP_EXCEEDED = 103"
definition GARY_CODE_SESSION_INVALID_HEADER :: int where "GARY_CODE_SESSION_INVALID_HEADER = 104"
definition GARY_CODE_SESSION_UNKNOWN_SESSION :: int where "GARY_CODE_SESSION_UNKNOWN_SESSION = 105"
definition GARY_CODE_SESSION_STATE_INTEGRITY :: int where "GARY_CODE_SESSION_STATE_INTEGRITY = 106"
definition GARY_CODE_SESSION_RESET_REQUIRED :: int where "GARY_CODE_SESSION_RESET_REQUIRED = 107"
definition GARY_CODE_SESSION_LATE_DATA_AFTER_RESET :: int where "GARY_CODE_SESSION_LATE_DATA_AFTER_RESET = 108"
definition GARY_CODE_SESSION_FUTURE_EPOCH :: int where "GARY_CODE_SESSION_FUTURE_EPOCH = 109"

fun wire_error_code :: "WireError \<Rightarrow> int" where
  "wire_error_code Truncated = GARY_CODE_WIRE_TRUNCATED"
| "wire_error_code RecordLengthMismatch = GARY_CODE_WIRE_RECORD_LENGTH_MISMATCH"
| "wire_error_code RecordTooLarge = GARY_CODE_WIRE_RECORD_TOO_LARGE"
| "wire_error_code InvalidHeaderVersion = GARY_CODE_WIRE_INVALID_HEADER_VERSION"
| "wire_error_code InvalidHeaderType = GARY_CODE_WIRE_INVALID_HEADER_TYPE"
| "wire_error_code InvalidHeaderFlags = GARY_CODE_WIRE_INVALID_HEADER_FLAGS"
| "wire_error_code InitReservedNonZero = GARY_CODE_WIRE_OTHER"
| "wire_error_code LogicalTooLarge = GARY_CODE_WIRE_OTHER"
| "wire_error_code PaddingBucketMismatch = GARY_CODE_WIRE_OTHER"
| "wire_error_code PaddingLogicalMismatch = GARY_CODE_WIRE_OTHER"
| "wire_error_code InvalidRelayVersion = GARY_CODE_WIRE_OTHER"
| "wire_error_code RouteTokenTooLong = GARY_CODE_WIRE_OTHER"
| "wire_error_code OpaqueLengthMismatch = GARY_CODE_WIRE_OTHER"
| "wire_error_code OpaqueTooLarge = GARY_CODE_WIRE_OTHER"

fun wire_error_static_msg :: "WireError \<Rightarrow> string" where
  "wire_error_static_msg Truncated = ''wire: truncated''"
| "wire_error_static_msg RecordLengthMismatch = ''wire: record length mismatch''"
| "wire_error_static_msg RecordTooLarge = ''wire: record too large''"
| "wire_error_static_msg InvalidHeaderVersion = ''wire: invalid header version''"
| "wire_error_static_msg InvalidHeaderType = ''wire: invalid header type''"
| "wire_error_static_msg InvalidHeaderFlags = ''wire: invalid header flags''"
| "wire_error_static_msg InitReservedNonZero = ''wire: init reserved non-zero''"
| "wire_error_static_msg LogicalTooLarge = ''wire: logical too large''"
| "wire_error_static_msg PaddingBucketMismatch = ''wire: padding bucket mismatch''"
| "wire_error_static_msg PaddingLogicalMismatch = ''wire: padding logical mismatch''"
| "wire_error_static_msg InvalidRelayVersion = ''wire: invalid relay version''"
| "wire_error_static_msg RouteTokenTooLong = ''wire: route token too long''"
| "wire_error_static_msg OpaqueLengthMismatch = ''wire: opaque length mismatch''"
| "wire_error_static_msg OpaqueTooLarge = ''wire: opaque too large''"

fun session_error_code :: "SessionError \<Rightarrow> int" where
  "session_error_code ReplayRejected = GARY_CODE_SESSION_REPLAY_REJECTED"
| "session_error_code StaleEpochRejected = GARY_CODE_SESSION_STALE_EPOCH"
| "session_error_code DecryptionFailed = GARY_CODE_SESSION_DECRYPTION_FAILED"
| "session_error_code MaxSkipExceeded = GARY_CODE_SESSION_MAX_SKIP_EXCEEDED"
| "session_error_code InvalidHeader = GARY_CODE_SESSION_INVALID_HEADER"
| "session_error_code UnknownSession = GARY_CODE_SESSION_UNKNOWN_SESSION"
| "session_error_code StateIntegrity = GARY_CODE_SESSION_STATE_INTEGRITY"
| "session_error_code ResetRequired = GARY_CODE_SESSION_RESET_REQUIRED"
| "session_error_code LateDataAfterReset = GARY_CODE_SESSION_LATE_DATA_AFTER_RESET"
| "session_error_code FutureEpoch = GARY_CODE_SESSION_FUTURE_EPOCH"

fun session_error_msg :: "SessionError \<Rightarrow> string" where
  "session_error_msg ReplayRejected = ''session: replay rejected''"
| "session_error_msg StaleEpochRejected = ''session: stale epoch rejected''"
| "session_error_msg DecryptionFailed = ''session: decryption failed''"
| "session_error_msg MaxSkipExceeded = ''session: max skip exceeded''"
| "session_error_msg InvalidHeader = ''session: invalid header''"
| "session_error_msg UnknownSession = ''session: unknown session''"
| "session_error_msg StateIntegrity = ''session: state integrity''"
| "session_error_msg ResetRequired = ''session: reset required''"
| "session_error_msg LateDataAfterReset = ''session: late data after reset''"
| "session_error_msg FutureEpoch = ''session: future epoch''"

lemmas gary_codes = GARY_CODE_OK_def GARY_CODE_NULL_POINTER_def GARY_CODE_PANIC_def GARY_CODE_WIRE_TRUNCATED_def
  GARY_CODE_WIRE_RECORD_LENGTH_MISMATCH_def GARY_CODE_WIRE_RECORD_TOO_LARGE_def
  GARY_CODE_WIRE_INVALID_HEADER_VERSION_def GARY_CODE_WIRE_INVALID_HEADER_TYPE_def
  GARY_CODE_WIRE_INVALID_HEADER_FLAGS_def GARY_CODE_WIRE_OTHER_def GARY_CODE_CONTENT_TOO_LARGE_def
  GARY_CODE_BUFFER_TOO_SMALL_def GARY_CODE_SESSION_REPLAY_REJECTED_def GARY_CODE_SESSION_STALE_EPOCH_def
  GARY_CODE_SESSION_DECRYPTION_FAILED_def GARY_CODE_SESSION_MAX_SKIP_EXCEEDED_def
  GARY_CODE_SESSION_INVALID_HEADER_def GARY_CODE_SESSION_UNKNOWN_SESSION_def
  GARY_CODE_SESSION_STATE_INTEGRITY_def GARY_CODE_SESSION_RESET_REQUIRED_def
  GARY_CODE_SESSION_LATE_DATA_AFTER_RESET_def GARY_CODE_SESSION_FUTURE_EPOCH_def

section \<open>Handle\<close>

record ffi_handle =
  ffi_inner :: session_handle
  last_code :: int
  last_msg :: bytes
  last_inbound_utf8 :: bytes

definition ffi_new :: "session_handle \<Rightarrow> ffi_handle" where
  "ffi_new inner = \<lparr>ffi_inner = inner, last_code = GARY_CODE_OK, last_msg = replicate 256 0,
     last_inbound_utf8 = replicate 512 0\<rparr>"

text \<open>The buffer is overwritten: the message cut to one byte less than the buffer, then zeros to the end.\<close>

definition copy_static_msg :: "bytes \<Rightarrow> string \<Rightarrow> bytes" where
  "copy_static_msg buf msg =
     (let n = min (length msg) (length buf - 1) in ascii (take n msg) @ replicate (length buf - n) 0)"

definition clear_last_inbound :: "ffi_handle \<Rightarrow> ffi_handle" where
  "clear_last_inbound f = f\<lparr>last_inbound_utf8 := replicate (length (last_inbound_utf8 f)) 0\<rparr>"

text \<open>\<open>std::str::from_utf8\<close>: well-formed byte sequences (Unicode table 3-7).\<close>

definition utf8_cont :: "byte \<Rightarrow> bool" where
  "utf8_cont b \<longleftrightarrow> 0x80 \<le> b \<and> b \<le> 0xBF"

fun valid_utf8 :: "bytes \<Rightarrow> bool" where
  "valid_utf8 [] = True"
| "valid_utf8 (a # bs) =
     (if a \<le> 0x7F then valid_utf8 bs
      else if 0xC2 \<le> a \<and> a \<le> 0xDF then (case bs of b # r \<Rightarrow> utf8_cont b \<and> valid_utf8 r | _ \<Rightarrow> False)
      else if 0xE0 \<le> a \<and> a \<le> 0xEF then
        (case bs of b # c # r \<Rightarrow> utf8_cont b \<and> (a = 0xE0 \<longrightarrow> 0xA0 \<le> b) \<and> (a = 0xED \<longrightarrow> b \<le> 0x9F)
             \<and> utf8_cont c \<and> valid_utf8 r | _ \<Rightarrow> False)
      else if 0xF0 \<le> a \<and> a \<le> 0xF4 then
        (case bs of b # c # d # r \<Rightarrow> utf8_cont b \<and> (a = 0xF0 \<longrightarrow> 0x90 \<le> b) \<and> (a = 0xF4 \<longrightarrow> b \<le> 0x8F)
             \<and> utf8_cont c \<and> utf8_cont d \<and> valid_utf8 r | _ \<Rightarrow> False)
      else False)"

definition decode_inner_semantic_utf8 :: "bytes \<Rightarrow> bytes option" where
  "decode_inner_semantic_utf8 pt =
     (if length pt \<noteq> DATA_INNER_FIXED then None
      else let len = unat (from_be_bytes (bslice 4 8 pt) :: u32) in
        Option.bind (checked_add_usize 8 len) (\<lambda>end1.
          if end1 > DATA_INNER_FIXED then None
          else if valid_utf8 (bslice 8 end1 pt) then Some (bslice 8 end1 pt) else None))"

definition store_last_inbound_from_plain :: "ffi_handle \<Rightarrow> bytes \<Rightarrow> ffi_handle" where
  "store_last_inbound_from_plain f pt =
     (let f1 = clear_last_inbound f in
      case decode_inner_semantic_utf8 pt of
        None \<Rightarrow> f1
      | Some text \<Rightarrow>
          let n = min (length text) (length (last_inbound_utf8 f1) - 1)
          in f1\<lparr>last_inbound_utf8 := take n text @ [0] @ drop (n + 1) (last_inbound_utf8 f1)\<rparr>)"

definition latch_ok :: "ffi_handle \<Rightarrow> ffi_handle" where
  "latch_ok f = f\<lparr>last_code := GARY_CODE_OK, last_msg := (last_msg f)[0 := 0]\<rparr>"

definition latch_wire :: "ffi_handle \<Rightarrow> int \<Rightarrow> string \<Rightarrow> ffi_handle" where
  "latch_wire f code msg = f\<lparr>last_code := code, last_msg := copy_static_msg (last_msg f) msg\<rparr>"

definition latch_session_err :: "ffi_handle \<Rightarrow> SessionError \<Rightarrow> ffi_handle" where
  "latch_session_err f err =
     f\<lparr>last_code := session_error_code err, last_msg := copy_static_msg (last_msg f) (session_error_msg err)\<rparr>"

section \<open>Send and ingest\<close>

definition build_data_outer_record_bytes ::
  "'r crypto \<Rightarrow> (bytes \<Rightarrow> 'r) \<Rightarrow> bytes option \<Rightarrow> ffi_handle \<Rightarrow> bytes \<Rightarrow> (int + bytes) \<times> ffi_handle" where
  "build_data_outer_record_bytes C from_seed os_seed f utf8 =
     (case data_inner_plaintext C 1 1 utf8 of
        Inl _ \<Rightarrow> let f1 = latch_wire f GARY_CODE_CONTENT_TOO_LARGE ''session: DATA inner content too large''
                 in (Err (last_code f1), f1)
      | Inr plain \<Rightarrow>
          (case os_seed of
             None \<Rightarrow> let f1 = f\<lparr>last_code := GARY_CODE_PANIC, last_msg := copy_static_msg (last_msg f) ''rng: getrandom failed''\<rparr>
                     in (Err (last_code f1), f1)
           | Some seed \<Rightarrow>
               (case send_data_plain512_outer C (ffi_inner f) plain (from_seed seed) of
                  (Inl e, h, _) \<Rightarrow> let f1 = latch_session_err (f\<lparr>ffi_inner := h\<rparr>) e in (Err (last_code f1), f1)
                | (Inr (hdr, pay), h, _) \<Rightarrow>
                    let f1 = f\<lparr>ffi_inner := h\<rparr> in
                    (case outer_record_encode \<lparr>rec_header = hdr, payload = pay\<rparr> of
                       Inr wr \<Rightarrow> (Ok wr, f1)
                     | Inl e \<Rightarrow> let f2 = latch_wire f1 (wire_error_code e) (wire_error_static_msg e)
                               in (Err (last_code f2), f2)))))"

definition ingest_inner :: "'r crypto \<Rightarrow> (bytes \<Rightarrow> 'r) \<Rightarrow> ffi_handle \<Rightarrow> bytes \<Rightarrow> int \<times> ffi_handle" where
  "ingest_inner C from_seed f raw =
     (case outer_record_decode raw of
        Inl e \<Rightarrow> let c = wire_error_code e in (c, latch_wire f c (wire_error_static_msg e))
      | Inr rec \<Rightarrow>
          let f1 = clear_last_inbound f in
          (case hnd_handle_inbound_outer C (ffi_inner f1) rec 0 (from_seed (replicate 32 0x99)) of
             (Inr (Data pt), h, _) \<Rightarrow>
               (GARY_CODE_OK, latch_ok (store_last_inbound_from_plain (f1\<lparr>ffi_inner := h\<rparr>) pt))
           | (Inr (RekeyPlain _), h, _) \<Rightarrow> (GARY_CODE_OK, latch_ok (f1\<lparr>ffi_inner := h\<rparr>))
           | (Inl e, h, _) \<Rightarrow> let f2 = latch_session_err (f1\<lparr>ffi_inner := h\<rparr>) e in (last_code f2, f2)))"

section \<open>Fixture\<close>

definition DOC_HANDSHAKE_OKM :: bytes where
  "DOC_HANDSHAKE_OKM =
     [0x4b, 0xc4, 0x5c, 0xc7, 0xfd, 0xdf, 0x45, 0xd3, 0xe6, 0x24, 0xd7, 0x8e, 0x38, 0x05, 0xaa, 0x9f, 0x06, 0x30,
     0x95, 0x48, 0xb4, 0x8d, 0x7a, 0x6d, 0xc3, 0x82, 0xb9, 0x50, 0x54, 0x49, 0x30, 0xb0, 0xca, 0x94, 0xf8, 0x44,
     0xdd, 0xf8, 0x0d, 0x7c, 0x20, 0x8a, 0x9b, 0x8c, 0x03, 0x45, 0xc8, 0x7a, 0x63, 0xf9, 0xd5, 0xd4, 0x62, 0x79,
     0xdf, 0x66, 0x97, 0x2e, 0xd2, 0x24, 0x06, 0x99, 0x71, 0x30]"

definition DOC_ALICE_RATCHET_PUB :: bytes where
  "DOC_ALICE_RATCHET_PUB =
     [0xa7, 0x36, 0xbf, 0x0f, 0xdc, 0x88, 0x49, 0x46, 0x58, 0x77, 0x7e, 0x47, 0xd3, 0x21, 0x92, 0x69, 0x50, 0xd3,
     0x21, 0xc3, 0xc9, 0x8c, 0xbf, 0xa1, 0x08, 0xea, 0xd4, 0x6b, 0xa8, 0x4e, 0xd2, 0x5d]"

definition DOC_EK_A_SEED :: bytes where
  "DOC_EK_A_SEED =
     [0x78, 0xe2, 0xa3, 0xa5, 0x6e, 0x11, 0x79, 0xa9, 0x99, 0x46, 0xf2, 0xa1, 0xe2, 0x1e, 0x01, 0x50, 0x86, 0x31,
     0x53, 0xf4, 0x05, 0x1b, 0x3b, 0x34, 0xfc, 0xbe, 0x31, 0x7d, 0x88, 0x22, 0x1d, 0x07]"

definition fixture_bob_sk :: bytes where
  "fixture_bob_sk = map (\<lambda>i. of_nat (i + 3)) [0..<32]"

definition epoch_policy_vector_responder :: "'r crypto \<Rightarrow> session_handle" where
  "epoch_policy_vector_responder C =
     hnd_recompute_anchor_commitment C
       (handle_bootstrap_responder C DOC_HANDSHAKE_OKM (replicate 16 0x01) 7 fixture_bob_sk
          (Some DOC_ALICE_RATCHET_PUB) (anchor_new_v0 901))"

definition epoch_policy_vector_initiator :: "'r crypto \<Rightarrow> session_handle" where
  "epoch_policy_vector_initiator C =
     hnd_recompute_anchor_commitment C
       (handle_bootstrap_initiator C DOC_HANDSHAKE_OKM (replicate 16 0x01) 7 DOC_EK_A_SEED
          (Some (x25519_public C fixture_bob_sk)) (anchor_new_v0 901))"

section \<open>Exported functions\<close>

text \<open>A pointer and a length: null, or the bytes it points to.\<close>

datatype c_slice = CNull nat | CBuf bytes

fun c_len :: "c_slice \<Rightarrow> nat" where
  "c_len (CNull n) = n"
| "c_len (CBuf b) = length b"

fun c_is_null :: "c_slice \<Rightarrow> bool" where
  "c_is_null (CNull _) = True"
| "c_is_null (CBuf _) = False"

fun c_bytes :: "c_slice \<Rightarrow> bytes" where
  "c_bytes (CNull _) = []"
| "c_bytes (CBuf b) = b"

definition gary_session_new :: "'r crypto \<Rightarrow> ffi_handle" where
  "gary_session_new C = ffi_new (epoch_policy_vector_responder C)"

definition gary_session_new_initiator :: "'r crypto \<Rightarrow> ffi_handle" where
  "gary_session_new_initiator C = ffi_new (epoch_policy_vector_initiator C)"

text \<open>What a send call leaves: its code, the handle, \<open>*out_written\<close> and the bytes put into \<open>out_buf\<close>.\<close>

record ffi_send_result =
  sr_code :: int
  sr_session :: "ffi_handle option"
  sr_written :: "nat option"
  sr_out :: bytes

definition gary_send_utf8_data_outer ::
  "'r crypto \<Rightarrow> (bytes \<Rightarrow> 'r) \<Rightarrow> bytes option \<Rightarrow> ffi_handle option \<Rightarrow> c_slice \<Rightarrow> bool \<Rightarrow> nat \<Rightarrow> bool \<Rightarrow> ffi_send_result" where
  "gary_send_utf8_data_outer C from_seed os_seed session utf8 out_buf_null out_cap out_written_null =
     (case session of
        None \<Rightarrow> \<lparr>sr_code = GARY_CODE_NULL_POINTER, sr_session = None, sr_written = None, sr_out = []\<rparr>
      | Some sess \<Rightarrow>
          if out_written_null then \<lparr>sr_code = GARY_CODE_NULL_POINTER, sr_session = Some sess, sr_written = None, sr_out = []\<rparr>
          else if c_is_null utf8 \<and> c_len utf8 \<noteq> 0
          then \<lparr>sr_code = GARY_CODE_NULL_POINTER, sr_session = Some sess, sr_written = Some 0, sr_out = []\<rparr>
          else if out_buf_null \<or> out_cap = 0
          then \<lparr>sr_code = GARY_CODE_NULL_POINTER, sr_session = Some sess, sr_written = Some 0, sr_out = []\<rparr>
          else (case build_data_outer_record_bytes C from_seed os_seed sess (c_bytes utf8) of
                  (Inl code, s1) \<Rightarrow> \<lparr>sr_code = code, sr_session = Some s1, sr_written = Some 0, sr_out = []\<rparr>
                | (Inr wr, s1) \<Rightarrow>
                    if length wr > out_cap
                    then let s2 = latch_wire s1 GARY_CODE_BUFFER_TOO_SMALL ''session: output buffer too small''
                         in \<lparr>sr_code = last_code s2, sr_session = Some s2, sr_written = Some 0, sr_out = []\<rparr>
                    else \<lparr>sr_code = GARY_CODE_OK, sr_session = Some (latch_ok s1), sr_written = Some (length wr), sr_out = wr\<rparr>))"

definition gary_prepare_relay_outbound_utf8 ::
  "'r crypto \<Rightarrow> (bytes \<Rightarrow> 'r) \<Rightarrow> bytes option \<Rightarrow> bytes option \<Rightarrow> ffi_handle option \<Rightarrow> c_slice \<Rightarrow> c_slice \<Rightarrow> bool \<Rightarrow> nat
     \<Rightarrow> bool \<Rightarrow> ffi_send_result" where
  "gary_prepare_relay_outbound_utf8 C from_seed os_seed os_seed2 session rt utf8 out_buf_null out_cap out_written_null =
     (case session of
        None \<Rightarrow> \<lparr>sr_code = GARY_CODE_NULL_POINTER, sr_session = None, sr_written = None, sr_out = []\<rparr>
      | Some sess \<Rightarrow>
          if out_written_null then \<lparr>sr_code = GARY_CODE_NULL_POINTER, sr_session = Some sess, sr_written = None, sr_out = []\<rparr>
          else if c_is_null rt \<and> c_len rt \<noteq> 0
          then \<lparr>sr_code = GARY_CODE_NULL_POINTER, sr_session = Some sess, sr_written = Some 0, sr_out = []\<rparr>
          else if c_is_null utf8 \<and> c_len utf8 \<noteq> 0
          then \<lparr>sr_code = GARY_CODE_NULL_POINTER, sr_session = Some sess, sr_written = Some 0, sr_out = []\<rparr>
          else if out_buf_null \<or> out_cap = 0
          then \<lparr>sr_code = GARY_CODE_NULL_POINTER, sr_session = Some sess, sr_written = Some 0, sr_out = []\<rparr>
          else (case build_data_outer_record_bytes C from_seed os_seed sess (c_bytes utf8) of
                  (Inl code, s1) \<Rightarrow> \<lparr>sr_code = code, sr_session = Some s1, sr_written = Some 0, sr_out = []\<rparr>
                | (Inr opq, s1) \<Rightarrow>
                    (case os_seed2 of
                       None \<Rightarrow> \<lparr>sr_code = GARY_CODE_PANIC, sr_session = Some (s1\<lparr>last_code := GARY_CODE_PANIC,
                                 last_msg := copy_static_msg (last_msg s1) ''rng: getrandom failed''\<rparr>),
                               sr_written = Some 0, sr_out = []\<rparr>
                     | Some seed2 \<Rightarrow>
                         (case fst (encode_padded_wire (fill_bytes C) \<lparr>route_token = c_bytes rt, opaque_bytes = opq\<rparr> (from_seed seed2)) of
                            Inl e \<Rightarrow> \<lparr>sr_code = wire_error_code e,
                                     sr_session = Some (latch_wire s1 (wire_error_code e) (wire_error_static_msg e)),
                                     sr_written = Some 0, sr_out = []\<rparr>
                          | Inr wr \<Rightarrow>
                              if length wr > out_cap
                              then let s2 = latch_wire s1 GARY_CODE_BUFFER_TOO_SMALL ''session: relay output buffer too small''
                                   in \<lparr>sr_code = last_code s2, sr_session = Some s2, sr_written = Some 0, sr_out = []\<rparr>
                              else \<lparr>sr_code = GARY_CODE_OK, sr_session = Some (latch_ok s1),
                                    sr_written = Some (length wr), sr_out = wr\<rparr>))))"

definition gary_ingest_outer ::
  "'r crypto \<Rightarrow> (bytes \<Rightarrow> 'r) \<Rightarrow> ffi_handle option \<Rightarrow> c_slice \<Rightarrow> int \<times> ffi_handle option" where
  "gary_ingest_outer C from_seed session buf =
     (case session of
        None \<Rightarrow> (GARY_CODE_NULL_POINTER, None)
      | Some sess \<Rightarrow>
          if c_is_null buf \<and> c_len buf \<noteq> 0 then (GARY_CODE_NULL_POINTER, Some sess)
          else (case ingest_inner C from_seed sess (c_bytes buf) of (code, s1) \<Rightarrow> (code, Some s1)))"

definition gary_process_relay_inbound ::
  "'r crypto \<Rightarrow> (bytes \<Rightarrow> 'r) \<Rightarrow> ffi_handle option \<Rightarrow> c_slice \<Rightarrow> int \<times> ffi_handle option" where
  "gary_process_relay_inbound C from_seed session buf =
     (case session of
        None \<Rightarrow> (GARY_CODE_NULL_POINTER, None)
      | Some sess \<Rightarrow>
          if c_is_null buf \<and> c_len buf \<noteq> 0 then (GARY_CODE_NULL_POINTER, Some sess)
          else (case decode_padded_wire (c_bytes buf) of
                  Inl e \<Rightarrow> let c = wire_error_code e in (c, Some (latch_wire sess c (wire_error_static_msg e)))
                | Inr env \<Rightarrow> (case ingest_inner C from_seed sess (opaque_bytes env) of (code, s1) \<Rightarrow> (code, Some s1))))"

definition persistence_digest_copy :: "'r crypto \<Rightarrow> ffi_handle option \<Rightarrow> bool \<Rightarrow> int \<times> bytes option" where
  "persistence_digest_copy C session out32_null =
     (case session of
        None \<Rightarrow> (GARY_CODE_NULL_POINTER, None)
      | Some sess \<Rightarrow>
          if out32_null then (GARY_CODE_NULL_POINTER, None)
          else (GARY_CODE_OK, Some (hnd_persistence_equivalence_digest C (ffi_inner sess))))"

definition gary_get_digest :: "'r crypto \<Rightarrow> ffi_handle option \<Rightarrow> bool \<Rightarrow> bytes option" where
  "gary_get_digest C session out32_null = snd (persistence_digest_copy C session out32_null)"

definition gary_last_inbound_utf8 :: "ffi_handle option \<Rightarrow> bytes option" where
  "gary_last_inbound_utf8 session = map_option last_inbound_utf8 session"

text \<open>Freeing: the handle is gone; null is left alone.\<close>

definition gary_session_free :: "ffi_handle option \<Rightarrow> ffi_handle option" where
  "gary_session_free handle = (case handle of None \<Rightarrow> None | Some _ \<Rightarrow> None)"

definition gary_last_error :: "ffi_handle option \<Rightarrow> bytes option" where
  "gary_last_error session = map_option last_msg session"

end
