(* ===== verification/Ffi_Calls.thy ===== *)
theory Ffi_Calls
  imports Ffi
begin

text \<open>
  What the C interface of \<open>Ffi\<close> gives its callers: texts sent through the relay format arrive, codes and
  diagnostics agree with what happened, and what a refused send leaves behind.  \<open>relay_chat\<close> runs a
  conversation through the two relay calls.
\<close>

section \<open>Inner content\<close>

lemma decode_inner_of_plaintext:
  assumes "crypto_lens C" "data_inner_plaintext C v t c = Ok p"
  shows "decode_inner_semantic_utf8 p = (if valid_utf8 c then Some c else None)"
proof -
  obtain pad where p: "length p = 512" "length c \<le> 504"
    "p = to_be_bytes v @ to_be_bytes t @ to_be_bytes (of_nat (length c) :: u32) @ c @ pad"
    using data_inner_plaintext_layout [OF assms] by blast
  have f: "bslice 4 8 p = to_be_bytes (of_nat (length c) :: u32)" and g: "bslice 8 (8 + length c) p = c"
    by (simp_all add: p(3) bslice_def)
  have "unat (of_nat (length c) :: u32) = length c" using p(2) by (simp add: unat_of_nat)
  then show ?thesis
    using p(1,2) f g by (simp add: decode_inner_semantic_utf8_def Let_def DATA_INNER_FIXED_def checked_add_usize_def usize_bound_def)
qed

text \<open>The buffer after a text: the text if it is UTF-8, else nothing, and NUL up to its end.\<close>

definition shown :: "bytes \<Rightarrow> bytes" where
  "shown c = (if valid_utf8 c then c else []) @ replicate (512 - (if valid_utf8 c then length c else 0)) 0"

lemma length_shown: "length c \<le> 504 \<Longrightarrow> length (shown c) = 512"
  by (simp add: shown_def)

lemma store_plaintext:
  assumes "crypto_lens C" "data_inner_plaintext C v t c = Ok p" "length (last_inbound_utf8 f) = 512"
  shows "store_last_inbound_from_plain f p = f\<lparr>last_inbound_utf8 := shown c\<rparr>"
proof -
  have c: "length c \<le> 504" using data_inner_plaintext_layout [OF assms(1,2)] by blast
  have "c @ [0] @ replicate (512 - (length c + 1)) 0 = c @ replicate (512 - length c) (0 :: byte)"
    using c by (simp add: Suc_diff_Suc flip: replicate_Suc)
  then show ?thesis
    using c assms(3) decode_inner_of_plaintext [OF assms(1,2)]
    by (simp add: store_last_inbound_from_plain_def clear_last_inbound_def shown_def Let_def)
qed

lemma data_payload_1024:
  "handle_inbound_outer C s rec now r = (Ok (Data pt), s', r') \<Longrightarrow> length (payload rec) = 1024"
  by (auto simp: handle_inbound_outer_def decrypt_data_outer_def strip_outer_pad_def Let_def DATA_LOGICAL_def
      DATA_INNER_FIXED_def smallest_padding_bucket_def PADDING_BUCKETS_def split: if_splits sum.splits prod.splits)

section \<open>Sending to a peer\<close>

text \<open>
  What one call of \<open>build_data_outer_record_bytes\<close> produces between paired sessions, and what the peer's
  \<open>ingest_inner\<close> makes of it.
\<close>

lemma build_record:
  assumes "session_inv (hnd_session (ffi_inner f))" "data_inner_plaintext C 1 1 c = Ok pt" "length p = 1024"
    and "encrypt_data_plain512_outer C (hnd_session (ffi_inner f)) pt (fs seed)
           = (Ok (next_header (hnd_session (ffi_inner f)) 3, p), s', r')"
  shows "\<exists>wr. build_data_outer_record_bytes C fs (Some seed) f c = (Ok wr, f\<lparr>ffi_inner := \<lparr>hnd_session = s'\<rparr>\<rparr>)
    \<and> length wr = 1091 \<and> outer_record_decode wr = Ok \<lparr>rec_header = next_header (hnd_session (ffi_inner f)) 3, payload = p\<rparr>"
proof -
  let ?s = "hnd_session (ffi_inner f)"
  let ?rec = "\<lparr>rec_header = next_header ?s 3, payload = p\<rparr>"
  have wf: "wf_outer_record ?rec" using next_header_wf session_invD(1) [OF assms(1)] by (simp add: wf_outer_record_def)
  then have lh: "length (header_encode (rec_header ?rec)) = 63" using hdr.fenc_len by (simp add: wf_outer_record_def)
  have "validate_v0 (next_header ?s 3) = Ok ()" by (simp add: validate_v0_Ok_iff next_header_def)
  then obtain wr where wr: "outer_record_encode ?rec = Ok wr" "length wr = 1091"
    using assms(3) lh by (simp add: outer_record_encode_Ok_iff record_body_len_def MAX_RECORD_BODY_LEN_def)
  moreover have "build_data_outer_record_bytes C fs (Some seed) f c = (Ok wr, f\<lparr>ffi_inner := \<lparr>hnd_session = s'\<rparr>\<rparr>)"
    using assms(2,4) wr(1)
    by (cases "ffi_inner f") (simp add: build_data_outer_record_bytes_def send_data_plain512_outer_def delegate_rng_def Let_def)
  ultimately show ?thesis using outer_record_decode_encode [OF wf wr(1)] by blast
qed

lemma ingest_record:
  assumes "crypto_lens C" "outer_record_decode wr = Ok rec" "data_inner_plaintext C 1 1 c = Ok pt"
    and "length (last_inbound_utf8 f) = 512"
    and "handle_inbound_outer C (hnd_session (ffi_inner f)) rec 0 (fs (replicate 32 0x99)) = (Ok (Data pt), t', r)"
  shows "ingest_inner C fs f wr = (GARY_CODE_OK, latch_ok (f\<lparr>ffi_inner := \<lparr>hnd_session = t'\<rparr>,
       last_inbound_utf8 := shown c\<rparr>))"
  using assms(2,4,5) store_plaintext [OF assms(1,3)]
  by (cases "ffi_inner f") (simp add: ingest_inner_def clear_last_inbound_def hnd_handle_inbound_outer_def delegate_rng_def Let_def)

lemma build_and_ingest:
  assumes "crypto_lens C" "aead_ok C" "paired (hnd_session (ffi_inner fa)) (hnd_session (ffi_inner fb))"
    and "length c \<le> 504" "length (last_inbound_utf8 fb) = 512"
    and "skipped_len (skipped (hnd_session (ffi_inner fb))) + Suc N \<le> MAX_SKIP"
    and "unat (send_sym_idx (hnd_session (ffi_inner fa))) + Suc N < 2 ^ 64"
    and "unat (send_wire_counter (hnd_session (ffi_inner fa))) + Suc N < 2 ^ 64"
  obtains wr a' b' where
    "build_data_outer_record_bytes C fs (Some seed) fa c = (Ok wr, fa\<lparr>ffi_inner := \<lparr>hnd_session = a'\<rparr>\<rparr>)" "length wr = 1091"
    "ingest_inner C fs fb wr = (GARY_CODE_OK, latch_ok (fb\<lparr>ffi_inner := \<lparr>hnd_session = b'\<rparr>,
       last_inbound_utf8 := shown c\<rparr>))"
    "paired a' b'" "send_wire_counter a' = send_wire_counter (hnd_session (ffi_inner fa)) + 1"
    "send_sym_idx a' = send_sym_idx (hnd_session (ffi_inner fa)) + 1" "skipped_len (skipped b') + N \<le> MAX_SKIP"
proof -
  let ?a = "hnd_session (ffi_inner fa)" and ?b = "hnd_session (ffi_inner fb)"
  obtain pt where pt: "data_inner_plaintext C 1 1 c = Ok pt" using data_inner_plaintext_Ok_iff assms(4) by blast
  have l: "length pt = 512" using data_inner_plaintext_layout [OF assms(1) pt] by blast
  obtain p a' r' b' where e: "encrypt_data_plain512_outer C ?a pt (fs seed) = (Ok (next_header ?a 3, p), a', r')"
    and d: "handle_inbound_outer C ?b \<lparr>rec_header = next_header ?a 3, payload = p\<rparr> 0 (fs (replicate 32 0x99))
       = (Ok (Data pt), b', fs (replicate 32 0x99))"
    and ab: "paired a' b'" "send_wire_counter a' = send_wire_counter ?a + 1" "send_sym_idx a' = send_sym_idx ?a + 1"
      "skipped_len (skipped b') + N \<le> MAX_SKIP"
    by (rule data_in_order [OF assms(1,2,3) l assms(6-8), of "fs seed" 0 "fs (replicate 32 0x99)"])
  have p: "length p = 1024" using data_payload_1024 [OF d] by simp
  have inv: "session_inv ?a" using assms(3) by (simp add: paired_def)
  obtain wr where wr: "build_data_outer_record_bytes C fs (Some seed) fa c = (Ok wr, fa\<lparr>ffi_inner := \<lparr>hnd_session = a'\<rparr>\<rparr>)"
    "length wr = 1091" "outer_record_decode wr = Ok \<lparr>rec_header = next_header ?a 3, payload = p\<rparr>"
    using build_record [OF inv pt p, of fs seed a' r'] e by blast
  show thesis
    by (rule that [OF wr(1,2) ingest_record [OF assms(1) wr(3) pt assms(5), of fs, OF d] ab])
qed

section \<open>Codes and latched messages\<close>

text \<open>What a C caller reads at a pointer to a NUL-terminated string.\<close>

definition c_string :: "bytes \<Rightarrow> bytes" where
  "c_string b = takeWhile (\<lambda>x. x \<noteq> 0) b"

definition wf_ffi :: "ffi_handle \<Rightarrow> bool" where
  "wf_ffi f \<longleftrightarrow> length (last_msg f) = 256 \<and> length (last_inbound_utf8 f) = 512"

lemma error_codes_not_ok: "wire_error_code e \<noteq> GARY_CODE_OK" "session_error_code e' \<noteq> GARY_CODE_OK"
  by (cases e; simp add: gary_codes) (cases e'; simp add: gary_codes)

lemma c_string_copy:
  assumes "length buf = 256" "length msg < 256" "0 \<notin> set (ascii msg)"
  shows "length (copy_static_msg buf msg) = 256 \<and> c_string (copy_static_msg buf msg) = ascii msg"
proof -
  have "takeWhile (\<lambda>x. x \<noteq> 0) (ascii msg @ replicate (256 - length msg) 0) = ascii msg"
    using assms(2,3) by (subst takeWhile_append2) (auto simp: takeWhile_eq_Nil_iff)
  then show ?thesis using assms by (simp add: copy_static_msg_def c_string_def Let_def)
qed

lemma messages_fit:
  "length (wire_error_static_msg e) < 256 \<and> 0 \<notin> set (ascii (wire_error_static_msg e)) \<and> wire_error_static_msg e \<noteq> []"
  "length (session_error_msg e') < 256 \<and> 0 \<notin> set (ascii (session_error_msg e')) \<and> session_error_msg e' \<noteq> []"
  by (cases e; simp add: ascii_def) (cases e'; simp add: ascii_def)

text \<open>The code returned, the code latched in the handle and the message agree.\<close>

definition latched :: "ffi_handle \<Rightarrow> int \<Rightarrow> bool" where
  "latched f code \<longleftrightarrow> wf_ffi f \<and> last_code f = code \<and> (code = GARY_CODE_OK \<longleftrightarrow> c_string (last_msg f) = [])"

lemma last_code_latch [simp]:
  "last_code (latch_session_err f e) = session_error_code e" "last_code (latch_wire f c m) = c"
  by (simp_all add: latch_session_err_def latch_wire_def)

lemma latched_ok: "wf_ffi f \<Longrightarrow> latched (latch_ok f) GARY_CODE_OK"
  by (cases "last_msg f") (auto simp: latched_def wf_ffi_def latch_ok_def c_string_def)

lemma latched_wire: "wf_ffi f \<Longrightarrow> latched (latch_wire f (wire_error_code e) (wire_error_static_msg e)) (wire_error_code e)"
  using messages_fit(1) [of e] c_string_copy [of "last_msg f" "wire_error_static_msg e"] error_codes_not_ok(1) [of e]
  by (auto simp: latched_def wf_ffi_def latch_wire_def ascii_def)

lemma latched_session: "wf_ffi f \<Longrightarrow> latched (latch_session_err f e) (session_error_code e)"
  using messages_fit(2) [of e] c_string_copy [of "last_msg f" "session_error_msg e"] error_codes_not_ok(2) [of e]
  by (auto simp: latched_def wf_ffi_def latch_session_err_def ascii_def)

lemma wf_ffi_steps:
  assumes "wf_ffi f"
  shows "wf_ffi (f\<lparr>ffi_inner := h\<rparr>)" "wf_ffi (clear_last_inbound f)" "wf_ffi (store_last_inbound_from_plain f pt)"
  using assms
  by (auto simp: wf_ffi_def clear_last_inbound_def store_last_inbound_from_plain_def Let_def split: option.splits)

lemma ingest_inner_latched:
  assumes "wf_ffi f" "ingest_inner C fs f raw = (code, f')"
  shows "latched f' code"
proof (cases "outer_record_decode raw")
  case (Inl e)
  with assms show ?thesis by (auto simp: ingest_inner_def Let_def latched_wire)
next
  case (Inr rec)
  obtain x h r where "hnd_handle_inbound_outer C (ffi_inner (clear_last_inbound f)) rec 0 (fs (replicate 32 0x99)) = (x, h, r)"
    by (cases "hnd_handle_inbound_outer C (ffi_inner (clear_last_inbound f)) rec 0 (fs (replicate 32 0x99))")
  moreover note wf_ffi_steps [OF assms(1)]
  ultimately show ?thesis
    using assms(2) Inr
    by (auto simp: ingest_inner_def Let_def split: sum.splits InboundInner.splits
        intro!: latched_ok latched_session wf_ffi_steps)
qed

section \<open>Fixture sessions\<close>

text \<open>The fixture's peer key is the public key of the initiator's secret.\<close>

definition fixture_keys_match :: "'r crypto \<Rightarrow> bool" where
  "fixture_keys_match C \<longleftrightarrow> x25519_public C DOC_EK_A_SEED = DOC_ALICE_RATCHET_PUB"

lemma paired_recompute_both:
  "crypto_lens C \<Longrightarrow> paired a b \<Longrightarrow> paired (recompute_anchor_commitment C a) (recompute_anchor_commitment C b)"
  using paired_recompute recompute_paired by blast

lemma fixture_paired:
  assumes "crypto_lens C" "fixture_keys_match C"
  shows "paired (hnd_session (ffi_inner (gary_session_new_initiator C))) (hnd_session (ffi_inner (gary_session_new C)))"
    "paired (hnd_session (ffi_inner (gary_session_new C))) (hnd_session (ffi_inner (gary_session_new_initiator C)))"
proof -
  let ?ini = "bootstrap_initiator C DOC_HANDSHAKE_OKM (replicate 16 0x01) 7 DOC_EK_A_SEED
      (Some (x25519_public C fixture_bob_sk)) (anchor_new_v0 901)"
  let ?res = "bootstrap_responder C DOC_HANDSHAKE_OKM (replicate 16 0x01) 7 fixture_bob_sk
      (Some DOC_ALICE_RATCHET_PUB) (anchor_new_v0 901)"
  have "length DOC_HANDSHAKE_OKM = 64" "length DOC_EK_A_SEED = 32" "length fixture_bob_sk = 32"
    by (simp_all add: DOC_HANDSHAKE_OKM_def DOC_EK_A_SEED_def fixture_bob_sk_def)
  then have "paired ?ini ?res" "paired ?res ?ini"
    using assms by (auto intro!: bootstrap_paired simp: fixture_keys_match_def anchor_new_v0_def wf_anchor_def)
  with paired_recompute_both [OF assms(1)]
  show "paired (hnd_session (ffi_inner (gary_session_new_initiator C))) (hnd_session (ffi_inner (gary_session_new C)))"
    "paired (hnd_session (ffi_inner (gary_session_new C))) (hnd_session (ffi_inner (gary_session_new_initiator C)))"
    by (simp_all add: gary_session_new_def gary_session_new_initiator_def ffi_new_def epoch_policy_vector_responder_def
        epoch_policy_vector_initiator_def hnd_recompute_anchor_commitment_def handle_bootstrap_initiator_def
        handle_bootstrap_responder_def)
qed

lemma fixture_fresh:
  "send_sym_idx (hnd_session (ffi_inner (gary_session_new C))) = 0" "send_wire_counter (hnd_session (ffi_inner (gary_session_new C))) = 0"
  "send_sym_idx (hnd_session (ffi_inner (gary_session_new_initiator C))) = 0"
  "send_wire_counter (hnd_session (ffi_inner (gary_session_new_initiator C))) = 0"
  "skipped_len (skipped (hnd_session (ffi_inner (gary_session_new C)))) = 0"
  "skipped_len (skipped (hnd_session (ffi_inner (gary_session_new_initiator C)))) = 0"
  "wf_ffi (gary_session_new C)" "wf_ffi (gary_session_new_initiator C)"
  by (simp_all add: gary_session_new_def gary_session_new_initiator_def ffi_new_def epoch_policy_vector_responder_def
      epoch_policy_vector_initiator_def hnd_recompute_anchor_commitment_def handle_bootstrap_initiator_def
      handle_bootstrap_responder_def recompute_anchor_commitment_def bootstrap_initiator_def bootstrap_responder_def
      skipped_new_def skipped_len_def Let_def split_beta wf_ffi_def)

text \<open>\<open>sample_crypto\<close> with the fixture's public key.\<close>

definition fixture_crypto :: "nat crypto" where
  "fixture_crypto = sample_crypto\<lparr>x25519_public := (\<lambda>k. if k = DOC_EK_A_SEED then DOC_ALICE_RATCHET_PUB
     else replicate 32 (hd (k @ [0])))\<rparr>"

lemma fixture_crypto_ok: "crypto_lens fixture_crypto" "aead_ok fixture_crypto" "fixture_keys_match fixture_crypto"
  using sample_lens sample_aead
  by (simp_all add: fixture_crypto_def crypto_lens_def aead_ok_def fixture_keys_match_def DOC_ALICE_RATCHET_PUB_def)

section \<open>Through the relay\<close>

text \<open>A DATA record of 1091 bytes always becomes a relay frame of 2048 bytes.\<close>

lemma relay_frame:
  assumes "crypto_lens C" "length rt \<le> 512" "length op = 1091"
  shows "\<exists>wr. fst (encode_padded_wire (fill_bytes C) \<lparr>route_token = rt, opaque_bytes = op\<rparr> r) = Ok wr \<and> length wr = 2048
    \<and> decode_padded_wire wr = Ok \<lparr>route_token = rt, opaque_bytes = op\<rparr>"
proof -
  let ?e = "\<lparr>route_token = rt, opaque_bytes = op\<rparr>"
  have "relay_limits ?e" using assms(2,3) by (simp add: relay_limits_def relay_bounds)
  moreover have "smallest_padding_bucket (length (relay_layout ?e)) = Some 2048"
    using assms(2,3) by (simp add: length_relay_layout bucket_defs)
  ultimately show ?thesis by (rule padded_wire_trip [OF crypto_lensD(7) [OF assms(1)]])
qed

lemma relay_delivery:
  assumes "crypto_lens C" "aead_ok C" "paired (hnd_session (ffi_inner fa)) (hnd_session (ffi_inner fb))" "wf_ffi fb"
    and "length c \<le> 504" "length rt \<le> 512" "2048 \<le> cap"
    and "skipped_len (skipped (hnd_session (ffi_inner fb))) + Suc N \<le> MAX_SKIP"
    and "unat (send_sym_idx (hnd_session (ffi_inner fa))) + Suc N < 2 ^ 64"
    and "unat (send_wire_counter (hnd_session (ffi_inner fa))) + Suc N < 2 ^ 64"
  obtains wr fa' fb' where
    "gary_prepare_relay_outbound_utf8 C fs (Some seed) (Some seed2) (Some fa) (CBuf rt) (CBuf c) False cap False
        = \<lparr>sr_code = GARY_CODE_OK, sr_session = Some fa', sr_written = Some (length wr), sr_out = wr\<rparr>"
    "length wr = 2048" "gary_process_relay_inbound C fs (Some fb) (CBuf wr) = (GARY_CODE_OK, Some fb')"
    "last_inbound_utf8 fb' = shown c" "wf_ffi fb'"
    "paired (hnd_session (ffi_inner fa')) (hnd_session (ffi_inner fb'))"
    "skipped_len (skipped (hnd_session (ffi_inner fb'))) + N \<le> MAX_SKIP"
    "send_sym_idx (hnd_session (ffi_inner fa')) = send_sym_idx (hnd_session (ffi_inner fa)) + 1"
    "send_wire_counter (hnd_session (ffi_inner fa')) = send_wire_counter (hnd_session (ffi_inner fa)) + 1"
proof -
  have l: "length (last_inbound_utf8 fb) = 512" using assms(4) by (simp add: wf_ffi_def)
  obtain op a' b' where b: "build_data_outer_record_bytes C fs (Some seed) fa c = (Ok op, fa\<lparr>ffi_inner := \<lparr>hnd_session = a'\<rparr>\<rparr>)"
      "length op = 1091"
    and i: "ingest_inner C fs fb op = (GARY_CODE_OK, latch_ok (fb\<lparr>ffi_inner := \<lparr>hnd_session = b'\<rparr>, last_inbound_utf8 := shown c\<rparr>))"
    and ab: "paired a' b'" "send_wire_counter a' = send_wire_counter (hnd_session (ffi_inner fa)) + 1"
      "send_sym_idx a' = send_sym_idx (hnd_session (ffi_inner fa)) + 1" "skipped_len (skipped b') + N \<le> MAX_SKIP"
    by (rule build_and_ingest [OF assms(1-3,5) l assms(8-10), of fs seed])
  obtain wr where wr: "fst (encode_padded_wire (fill_bytes C) \<lparr>route_token = rt, opaque_bytes = op\<rparr> (fs seed2)) = Ok wr"
    and lw: "length wr = 2048" and dec: "decode_padded_wire wr = Ok \<lparr>route_token = rt, opaque_bytes = op\<rparr>"
    using relay_frame [OF assms(1,6) b(2), of "fs seed2"] by blast
  have snd: "gary_prepare_relay_outbound_utf8 C fs (Some seed) (Some seed2) (Some fa) (CBuf rt) (CBuf c) False cap False
      = \<lparr>sr_code = GARY_CODE_OK, sr_session = Some (latch_ok (fa\<lparr>ffi_inner := \<lparr>hnd_session = a'\<rparr>\<rparr>)),
         sr_written = Some (length wr), sr_out = wr\<rparr>"
    using b(1) wr lw assms(7) by (simp add: gary_prepare_relay_outbound_utf8_def Let_def)
  have rcv: "gary_process_relay_inbound C fs (Some fb) (CBuf wr)
      = (GARY_CODE_OK, Some (latch_ok (fb\<lparr>ffi_inner := \<lparr>hnd_session = b'\<rparr>, last_inbound_utf8 := shown c\<rparr>)))"
    using dec i by (simp add: gary_process_relay_inbound_def)
  show thesis
    by (rule that [OF snd lw rcv]) (use ab assms(4,5) in \<open>simp_all add: latch_ok_def wf_ffi_def length_shown\<close>)
qed

text \<open>A conversation: the texts are sent by one side, each wire message carried to the other side before the
  next is sent; the result lists the codes of the two calls and the string the receiver then reads.\<close>

primrec relay_chat ::
  "'r crypto \<Rightarrow> (bytes \<Rightarrow> 'r) \<Rightarrow> bytes \<Rightarrow> nat \<Rightarrow> ffi_handle \<Rightarrow> ffi_handle \<Rightarrow> (bytes \<times> bytes \<times> bytes) list \<Rightarrow> (int \<times> int \<times> bytes) list" where
  "relay_chat C fs rt cap fa fb [] = []"
| "relay_chat C fs rt cap fa fb (m # ms) =
     (case m of (c, seed, seed2) \<Rightarrow>
        let sr = gary_prepare_relay_outbound_utf8 C fs (Some seed) (Some seed2) (Some fa) (CBuf rt) (CBuf c) False cap False;
            (code, fb1) = gary_process_relay_inbound C fs (Some fb) (CBuf (sr_out sr))
        in (sr_code sr, code, c_string (the (gary_last_inbound_utf8 fb1)))
           # relay_chat C fs rt cap (the (sr_session sr)) (the fb1) ms)"

lemma c_string_padded: "0 \<notin> set c \<Longrightarrow> c_string (c @ replicate n 0) = c"
  by (auto simp: c_string_def takeWhile_append takeWhile_eq_Nil_iff)

text \<open>What the receiver reads of the bytes \<open>c\<close>: the text up to its first NUL, nothing if it is not UTF-8.\<close>

lemma c_string_shown: "c_string (shown c) = (if valid_utf8 c then c_string c else [])"
  by (induction c rule: rev_induct; auto simp: c_string_def shown_def takeWhile_append takeWhile_eq_Nil_iff)

lemma relay_chat_shows:
  assumes "crypto_lens C" "aead_ok C" "length rt \<le> 512" "2048 \<le> cap"
    and "\<forall>(c, s1, s2) \<in> set ms. length c \<le> 504"
    and "paired (hnd_session (ffi_inner fa)) (hnd_session (ffi_inner fb))" "wf_ffi fb"
    and "skipped_len (skipped (hnd_session (ffi_inner fb))) + length ms \<le> MAX_SKIP"
    and "unat (send_sym_idx (hnd_session (ffi_inner fa))) + length ms < 2 ^ 64"
    and "unat (send_wire_counter (hnd_session (ffi_inner fa))) + length ms < 2 ^ 64"
  shows "relay_chat C fs rt cap fa fb ms = map (\<lambda>m. (GARY_CODE_OK, GARY_CODE_OK, c_string (shown (fst m)))) ms"
  using assms(5-)
proof (induction ms arbitrary: fa fb)
  case (Cons m ms)
  obtain c s1 s2 where m: "m = (c, s1, s2)" by (cases m)
  have c: "length c \<le> 504" using Cons.prems(1) m by auto
  have k: "skipped_len (skipped (hnd_session (ffi_inner fb))) + Suc (length ms) \<le> MAX_SKIP"
    "unat (send_sym_idx (hnd_session (ffi_inner fa))) + Suc (length ms) < 2 ^ 64"
    "unat (send_wire_counter (hnd_session (ffi_inner fa))) + Suc (length ms) < 2 ^ 64" using Cons.prems by simp_all
  obtain wr fa' fb' where d:
    "gary_prepare_relay_outbound_utf8 C fs (Some s1) (Some s2) (Some fa) (CBuf rt) (CBuf c) False cap False
        = \<lparr>sr_code = GARY_CODE_OK, sr_session = Some fa', sr_written = Some (length wr), sr_out = wr\<rparr>"
    "gary_process_relay_inbound C fs (Some fb) (CBuf wr) = (GARY_CODE_OK, Some fb')"
    "last_inbound_utf8 fb' = shown c" "wf_ffi fb'"
    "paired (hnd_session (ffi_inner fa')) (hnd_session (ffi_inner fb'))"
    "skipped_len (skipped (hnd_session (ffi_inner fb'))) + length ms \<le> MAX_SKIP"
    "send_sym_idx (hnd_session (ffi_inner fa')) = send_sym_idx (hnd_session (ffi_inner fa)) + 1"
    "send_wire_counter (hnd_session (ffi_inner fa')) = send_wire_counter (hnd_session (ffi_inner fa)) + 1"
    using relay_delivery [OF assms(1,2) Cons.prems(2,3) c assms(3,4) k, of fs s1 s2] by metis
  have "relay_chat C fs rt cap fa' fb' ms = map (\<lambda>m. (GARY_CODE_OK, GARY_CODE_OK, c_string (shown (fst m)))) ms"
  proof (rule Cons.IH)
    show "unat (send_sym_idx (hnd_session (ffi_inner fa'))) + length ms < 2 ^ 64"
      "unat (send_wire_counter (hnd_session (ffi_inner fa'))) + length ms < 2 ^ 64"
      using k unat_ctr [of _ 1] by (simp_all add: d(7,8))
  qed (use Cons.prems(1) d in auto)
  with d(1-3) m show ?case by (simp add: gary_last_inbound_utf8_def)
qed simp

lemma relay_chat_delivers:
  assumes "crypto_lens C" "aead_ok C" "length rt \<le> 512" "2048 \<le> cap"
    and "\<forall>(c, s1, s2) \<in> set ms. length c \<le> 504 \<and> valid_utf8 c \<and> 0 \<notin> set c"
    and "paired (hnd_session (ffi_inner fa)) (hnd_session (ffi_inner fb))" "wf_ffi fb"
    and "skipped_len (skipped (hnd_session (ffi_inner fb))) + length ms \<le> MAX_SKIP"
    and "unat (send_sym_idx (hnd_session (ffi_inner fa))) + length ms < 2 ^ 64"
    and "unat (send_wire_counter (hnd_session (ffi_inner fa))) + length ms < 2 ^ 64"
  shows "relay_chat C fs rt cap fa fb ms = map (\<lambda>m. (GARY_CODE_OK, GARY_CODE_OK, fst m)) ms"
proof -
  have "\<forall>(c, s1, s2) \<in> set ms. length c \<le> 504" using assms(5) by auto
  moreover have "c_string (shown (fst m)) = fst m" if "m \<in> set ms" for m
    using that assms(5) c_string_padded [of "fst m" 0] by (auto simp: c_string_shown)
  ultimately show ?thesis using relay_chat_shows [OF assms(1-4) _ assms(6-10), of fs] by simp
qed

section \<open>Properties\<close>

text \<open>A conversation through the C interface.  Between handles whose sessions are paired, every text of at
  most 504 bytes of valid UTF-8 without NUL that one side prepares for the relay is accepted by the other
  side: both calls return OK and the receiver reads back exactly the text, for each text in turn, with an
  output buffer of 2048 bytes and a route token of at most 512.\<close>

lemma ffi_conversation:
  assumes "crypto_lens C" "aead_ok C" "length rt \<le> 512" "2048 \<le> cap"
    and "\<forall>(c, s1, s2) \<in> set ms. length c \<le> 504 \<and> valid_utf8 c \<and> 0 \<notin> set c"
    and "paired (hnd_session (ffi_inner fa)) (hnd_session (ffi_inner fb))" "wf_ffi fb"
    and "skipped_len (skipped (hnd_session (ffi_inner fb))) + length ms \<le> MAX_SKIP"
    and "unat (send_sym_idx (hnd_session (ffi_inner fa))) + length ms < 2 ^ 64"
    and "unat (send_wire_counter (hnd_session (ffi_inner fa))) + length ms < 2 ^ 64"
  shows "relay_chat C from_seed rt cap fa fb ms = map (\<lambda>m. (GARY_CODE_OK, GARY_CODE_OK, fst m)) ms"
  by (rule relay_chat_delivers [OF assms])

lemma ffi_conversation_witness:
  "relay_chat fixture_crypto (\<lambda>s. 5) [1, 2, 3] 4096 (gary_session_new_initiator fixture_crypto) (gary_session_new fixture_crypto)
     [([0x68, 0x69], [], []), ([0xC3, 0xA9], [], [])]
   = [(0, 0, [0x68, 0x69]), (0, 0, [0xC3, 0xA9])]"
proof -
  let ?ms = "[([0x68, 0x69], [], []), ([0xC3, 0xA9], [], [])] :: (bytes \<times> bytes \<times> bytes) list"
  have "relay_chat fixture_crypto (\<lambda>s. 5) [1, 2, 3] 4096 (gary_session_new_initiator fixture_crypto)
      (gary_session_new fixture_crypto) ?ms = map (\<lambda>m. (GARY_CODE_OK, GARY_CODE_OK, fst m)) ?ms"
    by (rule ffi_conversation [OF fixture_crypto_ok(1,2) _ _ _ fixture_paired(1) [OF fixture_crypto_ok(1,3)]])
      (simp_all add: fixture_fresh MAX_SKIP_def utf8_cont_def)
  then show ?thesis by (simp add: gary_codes del: relay_chat.simps)
qed

text \<open>The two fixture sessions the C interface hands out can talk to each other in both directions, when the
  fixture's recorded peer key is the public key of the initiator's secret: the first conversation from
  either side is delivered completely.\<close>

lemma fixture_sessions_talk:
  assumes "crypto_lens C" "aead_ok C" "x25519_public C DOC_EK_A_SEED = DOC_ALICE_RATCHET_PUB"
    and "length rt \<le> 512" "length ms \<le> 2000"
    and "\<forall>(c, s1, s2) \<in> set ms. length c \<le> 504 \<and> valid_utf8 c \<and> 0 \<notin> set c"
  shows "relay_chat C from_seed rt 2048 (gary_session_new_initiator C) (gary_session_new C) ms
      = map (\<lambda>m. (GARY_CODE_OK, GARY_CODE_OK, fst m)) ms
    \<and> relay_chat C from_seed rt 2048 (gary_session_new C) (gary_session_new_initiator C) ms
      = map (\<lambda>m. (GARY_CODE_OK, GARY_CODE_OK, fst m)) ms"
proof -
  have k: "fixture_keys_match C" using assms(3) by (simp add: fixture_keys_match_def)
  have n: "0 + length ms \<le> MAX_SKIP" "0 + length ms < 2 ^ 64" using assms(5) by (simp_all add: MAX_SKIP_def)
  show ?thesis
    by (intro conjI relay_chat_delivers [OF assms(1,2,4) _ assms(6)] fixture_paired [OF assms(1) k])
      (use n in \<open>simp_all add: fixture_fresh\<close>)
qed

lemma fixture_sessions_talk_witness:
  "relay_chat fixture_crypto (\<lambda>s. 5) [] 2048 (gary_session_new fixture_crypto) (gary_session_new_initiator fixture_crypto)
     [([0x6f, 0x6b], [], [])] = [(0, 0, [0x6f, 0x6b])]"
proof -
  let ?ms = "[([0x6f, 0x6b], [], [])] :: (bytes \<times> bytes \<times> bytes) list"
  have "relay_chat fixture_crypto (\<lambda>s. 5) [] 2048 (gary_session_new fixture_crypto) (gary_session_new_initiator fixture_crypto) ?ms
      = map (\<lambda>m. (GARY_CODE_OK, GARY_CODE_OK, fst m)) ?ms"
    by (rule fixture_sessions_talk [OF fixture_crypto_ok(1,2), THEN conjunct2])
      (use fixture_crypto_ok(3) in \<open>simp_all add: fixture_keys_match_def\<close>)
  then show ?thesis by (simp add: gary_codes del: relay_chat.simps)
qed

text \<open>The outcome of a call on bytes that do not decode: the code and the message of the wire error, the session and the last
  inbound text as they were.\<close>

definition wire_refused :: "ffi_handle \<Rightarrow> WireError \<Rightarrow> int \<Rightarrow> ffi_handle \<Rightarrow> bool" where
  "wire_refused f e code f' \<longleftrightarrow> code = wire_error_code e \<and> c_string (last_msg f') = ascii (wire_error_static_msg e)
     \<and> ffi_inner f' = ffi_inner f \<and> last_inbound_utf8 f' = last_inbound_utf8 f"

lemma latch_wire_refused:
  "wf_ffi f \<Longrightarrow> wire_refused f e (wire_error_code e) (latch_wire f (wire_error_code e) (wire_error_static_msg e))"
  using c_string_copy [of "last_msg f" "wire_error_static_msg e"] messages_fit(1) [of e]
  by (simp add: wire_refused_def latch_wire_def wf_ffi_def)

text \<open>C30: Inbound calls report faithfully.  With a null session, or a null buffer of nonzero length, nothing
  changes and the code is NULL_POINTER; otherwise the returned code is the code latched in the handle and the
  diagnostic string is empty exactly on OK; and bytes that do not decode (for the relay call, that are no padded relay
  envelope; for the other, no outer record) are reported with the code and message of the wire error and leave session
  and last inbound text alone.\<close>

theorem inbound_codes_latched:
  assumes "wf_ffi f"
  shows "gary_process_relay_inbound C from_seed None buf = (GARY_CODE_NULL_POINTER, None)
    \<and> gary_ingest_outer C from_seed None buf = (GARY_CODE_NULL_POINTER, None)
    \<and> (c_is_null buf \<and> c_len buf \<noteq> 0 \<longrightarrow> gary_process_relay_inbound C from_seed (Some f) buf = (GARY_CODE_NULL_POINTER, Some f)
         \<and> gary_ingest_outer C from_seed (Some f) buf = (GARY_CODE_NULL_POINTER, Some f))
    \<and> (\<not> (c_is_null buf \<and> c_len buf \<noteq> 0) \<longrightarrow>
         (\<exists>f1 f2 code1 code2. gary_process_relay_inbound C from_seed (Some f) buf = (code1, Some f1)
            \<and> gary_ingest_outer C from_seed (Some f) buf = (code2, Some f2)
            \<and> latched f1 code1 \<and> latched f2 code2
            \<and> (\<forall>e. decode_padded_wire (c_bytes buf) = Err e \<longrightarrow> wire_refused f e code1 f1)
            \<and> (\<forall>e. outer_record_decode (c_bytes buf) = Err e \<longrightarrow> wire_refused f e code2 f2)))"
proof -
  have ing: "\<exists>f2 code2. gary_ingest_outer C from_seed (Some f) buf = (code2, Some f2) \<and> latched f2 code2
      \<and> (\<forall>e. outer_record_decode (c_bytes buf) = Err e \<longrightarrow> wire_refused f e code2 f2)"
    if "\<not> (c_is_null buf \<and> c_len buf \<noteq> 0)"
    using that ingest_inner_latched [OF assms, of C from_seed "c_bytes buf"] latch_wire_refused [OF assms]
    by (cases "ingest_inner C from_seed f (c_bytes buf)") (auto simp: gary_ingest_outer_def ingest_inner_def Let_def)
  have prc: "\<exists>f1 code1. gary_process_relay_inbound C from_seed (Some f) buf = (code1, Some f1) \<and> latched f1 code1
      \<and> (\<forall>e. decode_padded_wire (c_bytes buf) = Err e \<longrightarrow> wire_refused f e code1 f1)"
    if nn: "\<not> (c_is_null buf \<and> c_len buf \<noteq> 0)"
  proof (cases "decode_padded_wire (c_bytes buf)")
    case (Inl e)
    with nn latched_wire [OF assms, of e] latch_wire_refused [OF assms, of e] show ?thesis
      by (auto simp: gary_process_relay_inbound_def Let_def)
  next
    case (Inr env)
    with nn ingest_inner_latched [OF assms, of C from_seed "opaque_bytes env"] show ?thesis
      by (cases "ingest_inner C from_seed f (opaque_bytes env)") (auto simp: gary_process_relay_inbound_def)
  qed
  show ?thesis using ing prc by (auto simp: gary_process_relay_inbound_def gary_ingest_outer_def)
qed

theorem inbound_codes_latched_witness:
  "gary_process_relay_inbound sample_crypto (\<lambda>s. 0) (Some (gary_session_new sample_crypto)) (CNull 3)
     = (1, Some (gary_session_new sample_crypto))
   \<and> fst (gary_process_relay_inbound sample_crypto (\<lambda>s. 0) (Some (gary_session_new sample_crypto)) (CBuf [1, 2])) = 10"
proof -
  note p = inbound_codes_latched [OF fixture_fresh(7) [of sample_crypto], of sample_crypto "\<lambda>s. 0"]
  have "decode_padded_wire (c_bytes (CBuf [1, 2])) = Err Truncated"
    by (simp add: decode_padded_wire_def logical_len_from_prefix_def)
  with p [of "CNull 3"] p [of "CBuf [1, 2]"] show ?thesis by (auto simp: gary_codes wire_refused_def)
qed

text \<open>A refused send leaves the session alone.  With usable pointers, text longer than 504 bytes is refused
  as too large and a failing system generator is reported, by both send calls, without consuming a counter,
  a chain step or touching the output.\<close>

lemma refused_send_keeps_session:
  assumes "cap \<noteq> 0" "length c > 504 \<or> os_seed = None"
  shows "let sr = gary_send_utf8_data_outer C from_seed os_seed (Some f) (CBuf c) False cap False;
             sr2 = gary_prepare_relay_outbound_utf8 C from_seed os_seed os_seed2 (Some f) (CBuf rt) (CBuf c) False cap False
         in sr_code sr = (if length c > 504 then GARY_CODE_CONTENT_TOO_LARGE else GARY_CODE_PANIC)
            \<and> map_option ffi_inner (sr_session sr) = Some (ffi_inner f) \<and> sr_written sr = Some 0 \<and> sr_out sr = [] \<and> sr2 = sr"
proof (cases "length c > 504")
  case True
  then obtain e where "data_inner_plaintext C 1 1 c = Err e"
    by (metis data_inner_plaintext_Ok_iff leD old.sum.exhaust)
  with True assms(1) show ?thesis
    by (simp add: gary_send_utf8_data_outer_def gary_prepare_relay_outbound_utf8_def build_data_outer_record_bytes_def
        Let_def latch_wire_def)
next
  case False
  then obtain p where "data_inner_plaintext C 1 1 c = Ok p" by (metis data_inner_plaintext_Ok_iff leI)
  with False assms show ?thesis
    by (simp add: gary_send_utf8_data_outer_def gary_prepare_relay_outbound_utf8_def build_data_outer_record_bytes_def
        Let_def gary_codes)
qed

lemma refused_send_keeps_session_witness:
  "sr_code (gary_send_utf8_data_outer sample_crypto (\<lambda>s. 0) None (Some (gary_session_new sample_crypto)) (CBuf [0x61]) False 10 False) = 2"
  using refused_send_keeps_session [of 10 "[0x61]" None sample_crypto "\<lambda>s. 0" "gary_session_new sample_crypto"]
  by (simp add: Let_def gary_codes)

text \<open>A send into a buffer that is too small is not refused before the record is made: the call reports
  BUFFER_TOO_SMALL and writes nothing, but the wire counter has advanced, and the peer is no longer level
  with the sender.\<close>

lemma small_buffer_consumes_counter:
  assumes "crypto_lens C" "aead_ok C" "paired (hnd_session (ffi_inner fa)) (hnd_session (ffi_inner fb))" "wf_ffi fb"
    and "length c \<le> 504" "valid_utf8 c" "0 < cap" "cap < 1091"
    and "skipped_len (skipped (hnd_session (ffi_inner fb))) < MAX_SKIP"
    and "unat (send_sym_idx (hnd_session (ffi_inner fa))) + 1 < 2 ^ 64"
    and "unat (send_wire_counter (hnd_session (ffi_inner fa))) + 1 < 2 ^ 64"
  shows "\<exists>fa'. gary_send_utf8_data_outer C from_seed (Some seed) (Some fa) (CBuf c) False cap False
      = \<lparr>sr_code = GARY_CODE_BUFFER_TOO_SMALL, sr_session = Some fa', sr_written = Some 0, sr_out = []\<rparr>
    \<and> send_wire_counter (hnd_session (ffi_inner fa')) = send_wire_counter (hnd_session (ffi_inner fa)) + 1
    \<and> \<not> paired (hnd_session (ffi_inner fa')) (hnd_session (ffi_inner fb))"
proof -
  have l: "length (last_inbound_utf8 fb) = 512" using assms(4) by (simp add: wf_ffi_def)
  have k: "skipped_len (skipped (hnd_session (ffi_inner fb))) + Suc 0 \<le> MAX_SKIP"
    "unat (send_sym_idx (hnd_session (ffi_inner fa))) + Suc 0 < 2 ^ 64"
    "unat (send_wire_counter (hnd_session (ffi_inner fa))) + Suc 0 < 2 ^ 64" using assms(9-11) by simp_all
  obtain wr a' b' where b: "build_data_outer_record_bytes C from_seed (Some seed) fa c
      = (Ok wr, fa\<lparr>ffi_inner := \<lparr>hnd_session = a'\<rparr>\<rparr>)" "length wr = 1091"
    "send_wire_counter a' = send_wire_counter (hnd_session (ffi_inner fa)) + 1"
    by (rule build_and_ingest [OF assms(1-3,5) l k, of from_seed seed])
  have "unat (send_wire_counter a') = unat (send_wire_counter (hnd_session (ffi_inner fa))) + 1"
    using unat_ctr [of "send_wire_counter (hnd_session (ffi_inner fa))" 1] assms(11) by (simp add: b(3))
  then have "\<not> paired a' (hnd_session (ffi_inner fb))" using assms(3) by (auto simp: paired_def split: option.splits)
  with b assms(7,8) show ?thesis by (simp add: gary_send_utf8_data_outer_def Let_def latch_wire_def)
qed

lemma small_buffer_consumes_counter_witness:
  "\<exists>fa'. gary_send_utf8_data_outer fixture_crypto (\<lambda>s. 5) (Some []) (Some (gary_session_new fixture_crypto)) (CBuf [0x61]) False 100 False
      = \<lparr>sr_code = 21, sr_session = Some fa', sr_written = Some 0, sr_out = []\<rparr>
    \<and> send_wire_counter (hnd_session (ffi_inner fa')) = 1"
  using small_buffer_consumes_counter [OF fixture_crypto_ok(1,2) fixture_paired(2) [OF fixture_crypto_ok(1,3)] fixture_fresh(8),
      of "[0x61]" 100 "\<lambda>s. 5" "[]"]
  by (auto simp: fixture_fresh MAX_SKIP_def gary_codes)

end
