(* ===== verification/Relay_Server.thy ===== *)
theory Relay_Server
  imports Gary_Prelude
begin

text \<open>
  \<^verbatim>\<open>crates/libgary-relay/src/main.rs\<close>: the relay server.  A connection is named by a number, which also names
  its socket and the \<open>Notify\<close> it creates.  The server is a step relation: each step is one critical section
  of one connection's task (the first message up to the end of the first lock section, the second lock section,
  one turn of the forwarding loop), so that its runs are the interleavings of the tasks.  What arrives on a
  socket and whether a send succeeds are arguments of a step.

  JSON and UUIDs are third-party crates (\<open>serde_json\<close>, \<open>uuid\<close>): the fields of the parameter \<open>relay_env\<close>.
  A Rust string is the list of its Unicode scalar values.
\<close>

section \<open>Strings\<close>

type_synonym rstr = "nat list"

definition lit :: "string \<Rightarrow> rstr" where
  "lit s = map of_char s"

text \<open>\<open>char::is_whitespace\<close> (the Unicode property White_Space) and \<open>str::trim\<close>.\<close>

definition is_whitespace :: "nat \<Rightarrow> bool" where
  "is_whitespace c \<longleftrightarrow> 9 \<le> c \<and> c \<le> 13 \<or> c \<in> {0x20, 0x85, 0xA0, 0x1680, 0x2028, 0x2029, 0x202F, 0x205F, 0x3000}
     \<or> 0x2000 \<le> c \<and> c \<le> 0x200A"

definition trim :: "rstr \<Rightarrow> rstr" where
  "trim s = rev (dropWhile is_whitespace (rev (dropWhile is_whitespace s)))"

definition to_ascii_lowercase :: "rstr \<Rightarrow> rstr" where
  "to_ascii_lowercase s = map (\<lambda>c. if 65 \<le> c \<and> c \<le> 90 then c + 32 else c) s"

text \<open>The UTF-8 bytes of a string, of which \<open>str::len\<close> counts the number.\<close>

definition utf8_bytes :: "rstr \<Rightarrow> nat list" where
  "utf8_bytes s = concat (map (\<lambda>c.
     if c < 0x80 then [c]
     else if c < 0x800 then [0xC0 + c div 64, 0x80 + c mod 64]
     else if c < 0x10000 then [0xE0 + c div 4096, 0x80 + c div 64 mod 64, 0x80 + c mod 64]
     else [0xF0 + c div 262144, 0x80 + c div 4096 mod 64, 0x80 + c div 64 mod 64, 0x80 + c mod 64]) s)"

definition hex_lower :: "nat \<Rightarrow> bool" where
  "hex_lower b \<longleftrightarrow> 48 \<le> b \<and> b \<le> 57 \<or> 97 \<le> b \<and> b \<le> 102"

definition validate_pin_tag :: "rstr \<Rightarrow> rstr option" where
  "validate_pin_tag raw =
     (let s = to_ascii_lowercase (trim raw) in
      if length (utf8_bytes s) \<noteq> 16 then None
      else if \<not> list_all hex_lower (utf8_bytes s) then None
      else Some s)"

section \<open>Messages\<close>

datatype JoinRole = Host | Guest

record join_body =
  jb_room :: rstr
  jb_pin_tag :: rstr
  jb_role :: JoinRole

record join_ack =
  ja_ok :: bool
  ja_waiting :: "bool option"
  ja_error :: "rstr option"

record 'u relay_env =
  from_json :: "rstr \<Rightarrow> join_body option"
  to_json :: "join_ack \<Rightarrow> rstr"
  uuid_parse_str :: "rstr \<Rightarrow> 'u option"
  uuid_as_hyphenated :: "'u \<Rightarrow> rstr"

datatype 'f ws_message = Text rstr | Binary bytes | Ping bytes | Pong bytes | Close "'f option"

text \<open>What \<open>next().await\<close> yields: a message, an error, or the end of the stream.\<close>

datatype 'f ws_next = Msg "'f ws_message" | WsError | WsEnd

text \<open>The WebSocket limits that \<open>ws_upgrade\<close> sets, in bytes, and the answer of the health route.\<close>

definition ws_max_frame_size :: nat where
  "ws_max_frame_size = 1024 * 1024"

definition ws_max_message_size :: nat where
  "ws_max_message_size = 1024 * 1024"

text \<open>The port from the environment variable \<open>PORT\<close> (\<open>None\<close> when it is unset or not Unicode): \<open>u16::from_str\<close> takes decimal
  digits, after an optional plus sign.\<close>

definition parse_u16 :: "rstr \<Rightarrow> nat option" where
  "parse_u16 s =
     (let d = (case s of c # r \<Rightarrow> if c = 43 then r else s | [] \<Rightarrow> []);
          n = foldl (\<lambda>a c. a * 10 + (c - 48)) 0 d
      in if d = [] \<or> \<not> list_all (\<lambda>c. 48 \<le> c \<and> c \<le> 57) d \<or> 65535 < n then None else Some n)"

definition listen_port :: "rstr option \<Rightarrow> nat" where
  "listen_port var = (case Option.bind var parse_u16 of Some p \<Rightarrow> p | None \<Rightarrow> 8080)"

definition health :: string where
  "health = ''ok''"

definition room_key :: "'u relay_env \<Rightarrow> 'u \<Rightarrow> rstr \<Rightarrow> rstr" where
  "room_key E room pin_tag = uuid_as_hyphenated E room @ lit ''|'' @ pin_tag"

section \<open>Rooms\<close>

datatype RoomEntry = HostWaiting nat nat | GuestWaiting nat nat

fun entry_ws :: "RoomEntry \<Rightarrow> nat" where
  "entry_ws (HostWaiting ws _) = ws"
| "entry_ws (GuestWaiting ws _) = ws"

type_synonym rooms = "rstr \<Rightarrow> RoomEntry option"

text \<open>How the first message of a connection is read: refused with an error code, dropped, or a join.\<close>

datatype join_request = JoinErr rstr | Dropped | Join rstr bool

definition handle_socket_join :: "'u relay_env \<Rightarrow> 'f ws_next \<Rightarrow> join_request" where
  "handle_socket_join E first =
     (case first of
        Msg (Text t) \<Rightarrow>
          (case from_json E t of
             None \<Rightarrow> JoinErr (lit ''invalid_join_json'')
           | Some join \<Rightarrow>
               (case uuid_parse_str E (trim (jb_room join)) of
                  None \<Rightarrow> JoinErr (lit ''invalid_room_uuid'')
                | Some room \<Rightarrow>
                    (case validate_pin_tag (jb_pin_tag join) of
                       None \<Rightarrow> JoinErr (lit ''invalid_pin_tag'')
                     | Some pin_tag \<Rightarrow>
                         let key = room_key E room pin_tag in
                         (case jb_role join of Host \<Rightarrow> Join key True | Guest \<Rightarrow> Join key False))))
      | Msg (Binary _) \<Rightarrow> JoinErr (lit ''expected_text_join_first'')
      | Msg (Close _) \<Rightarrow> Dropped
      | WsEnd \<Rightarrow> Dropped
      | WsError \<Rightarrow> Dropped
      | Msg (Ping _) \<Rightarrow> JoinErr (lit ''expected_text_join_first'')
      | Msg (Pong _) \<Rightarrow> JoinErr (lit ''expected_text_join_first''))"

text \<open>The first lock section of \<open>handle_role\<close>: refused, paired (host socket, guest socket, the notify of the
  waiting side), or stored to wait.\<close>

datatype role_result = Duplicate rstr | Paired nat nat nat | Waiting nat

definition handle_role_lock :: "nat \<Rightarrow> rooms \<Rightarrow> rstr \<Rightarrow> bool \<Rightarrow> role_result \<times> rooms" where
  "handle_role_lock socket map1 key is_host =
     (let notify_wait = socket in
      if is_host then
        (case map1 key of
           Some (HostWaiting _ _) \<Rightarrow> (Duplicate (lit ''duplicate_host''), map1)
         | Some (GuestWaiting peer notify) \<Rightarrow> (Paired socket peer notify, map1(key := None))
         | None \<Rightarrow> (Waiting notify_wait, map1(key \<mapsto> HostWaiting socket notify_wait)))
      else
        (case map1 key of
           Some (GuestWaiting _ _) \<Rightarrow> (Duplicate (lit ''duplicate_guest''), map1)
         | Some (HostWaiting peer notify) \<Rightarrow> (Paired peer socket notify, map1(key := None))
         | None \<Rightarrow> (Waiting notify_wait, map1(key \<mapsto> GuestWaiting socket notify_wait))))"

text \<open>The second lock section: the waiting ack goes to the socket stored under the key, if any; a failed send
  removes the entry.  The result is the socket written to and whether the task goes on to wait.\<close>

definition handle_role_ack :: "rooms \<Rightarrow> rstr \<Rightarrow> bool \<Rightarrow> nat option \<times> bool \<times> rooms" where
  "handle_role_ack guard key send_ok =
     (case guard key of
        None \<Rightarrow> (None, False, guard)
      | Some entry \<Rightarrow>
          let ws_mut = entry_ws entry in
          if \<not> send_ok then (Some ws_mut, False, guard(key := None)) else (Some ws_mut, True, guard))"

section \<open>Forwarding\<close>

text \<open>One turn of the loop of \<open>relay_pair\<close>: which side was ready, what it yielded, whether the send it causes
  succeeds.  The result is what is sent to which side (\<open>True\<close> is \<open>a\<close>) and whether the loop goes on.\<close>

definition relay_turn :: "bool \<Rightarrow> 'f ws_next \<Rightarrow> bool \<Rightarrow> (bool \<times> 'f ws_message) option \<times> bool" where
  "relay_turn from_a msg send_ok =
     (case msg of
        Msg (Binary d) \<Rightarrow> (Some (\<not> from_a, Binary d), send_ok)
      | Msg (Ping v) \<Rightarrow> (Some (from_a, Pong v), True)
      | Msg (Pong _) \<Rightarrow> (None, True)
      | Msg (Close frame) \<Rightarrow> (Some (\<not> from_a, Close frame), False)
      | Msg (Text _) \<Rightarrow> (None, False)
      | WsError \<Rightarrow> (None, False)
      | WsEnd \<Rightarrow> (None, False))"

text \<open>The loop on a schedule of turns: what was sent, and whether the loop has ended (and both sockets were
  closed) by the end of the schedule.\<close>

primrec relay_pair :: "(bool \<times> 'f ws_next \<times> bool) list \<Rightarrow> (bool \<times> 'f ws_message) list \<times> bool" where
  "relay_pair [] = ([], False)"
| "relay_pair (t # ts) =
     (case t of (from_a, msg, send_ok) \<Rightarrow>
        (case relay_turn from_a msg send_ok of
           (out, True) \<Rightarrow> (case relay_pair ts of (outs, ended) \<Rightarrow> (case_option [] (\<lambda>x. [x]) out @ outs, ended))
         | (out, False) \<Rightarrow> (case_option [] (\<lambda>x. [x]) out, True)))"

section \<open>Server\<close>

text \<open>Where a connection's task stands.  After \<open>notified().await\<close> it only logs and returns.\<close>

datatype task = AckPending rstr nat | AwaitNotified rstr nat | Relaying nat nat | Ended

text \<open>\<open>srv_notified\<close>: the notifies on which \<open>notify_waiters\<close> has been called; \<open>srv_sent\<close>: the messages sent
  (or tried), in order; \<open>srv_joins\<close>: the key and role each connection asked for; \<open>srv_closed\<close>: the sockets on which
  \<open>close\<close> has been called.\<close>

record 'f server =
  srv_rooms :: rooms
  srv_tasks :: "nat \<Rightarrow> task option"
  srv_notified :: "nat set"
  srv_sent :: "(nat \<times> 'f ws_message) list"
  srv_joins :: "nat \<Rightarrow> (rstr \<times> bool) option"
  srv_closed :: "nat set"

definition server_init :: "'f server" where
  "server_init = \<lparr>srv_rooms = Map.empty, srv_tasks = Map.empty, srv_notified = {}, srv_sent = [], srv_joins = Map.empty,
     srv_closed = {}\<rparr>"

lemma server_init_simps [simp]:
  "srv_rooms server_init = Map.empty" "srv_tasks server_init = Map.empty" "srv_notified server_init = {}"
  "srv_sent server_init = []" "srv_joins server_init = Map.empty"
  by (simp_all add: server_init_def)

definition send_join_err :: "'u relay_env \<Rightarrow> nat \<Rightarrow> rstr \<Rightarrow> bool \<Rightarrow> (nat \<times> 'f ws_message) list" where
  "send_join_err E socket code send_ok =
     [(socket, Text (to_json E \<lparr>ja_ok = False, ja_waiting = None, ja_error = Some code\<rparr>))] @ (if send_ok then [(socket, Close None)] else [])"

definition ack_text :: "'u relay_env \<Rightarrow> bool \<Rightarrow> 'f ws_message" where
  "ack_text E waiting = Text (to_json E \<lparr>ja_ok = True, ja_waiting = Some waiting, ja_error = None\<rparr>)"

text \<open>\<open>handle_socket\<close> on a new connection, up to the end of the first lock section of \<open>handle_role\<close>.  A connection that
  pairs drops the lock, notifies the waiting one and sends its ack before it relays; by then it has the entry and
  both sockets to itself, so these belong to the same step here.\<close>

definition server_join :: "'u relay_env \<Rightarrow> nat \<Rightarrow> 'f ws_next \<Rightarrow> bool \<Rightarrow> 'f server \<Rightarrow> 'f server" where
  "server_join E i first send_ok s =
     (case handle_socket_join E first of
        JoinErr code \<Rightarrow> s\<lparr>srv_tasks := (srv_tasks s)(i \<mapsto> Ended), srv_sent := srv_sent s @ send_join_err E i code send_ok\<rparr>
      | Dropped \<Rightarrow> s\<lparr>srv_tasks := (srv_tasks s)(i \<mapsto> Ended)\<rparr>
      | Join key is_host \<Rightarrow>
          let s1 = s\<lparr>srv_joins := (srv_joins s)(i \<mapsto> (key, is_host))\<rparr> in
          (case handle_role_lock i (srv_rooms s1) key is_host of
             (Duplicate code, m) \<Rightarrow>
               s1\<lparr>srv_tasks := (srv_tasks s1)(i \<mapsto> Ended), srv_sent := srv_sent s1 @ send_join_err E i code send_ok\<rparr>
           | (Paired h g n, m) \<Rightarrow>
               s1\<lparr>srv_rooms := m, srv_notified := insert n (srv_notified s1), srv_sent := srv_sent s1 @ [(i, ack_text E False)],
                  srv_tasks := (srv_tasks s1)(i \<mapsto> Relaying h g)\<rparr>
           | (Waiting n, m) \<Rightarrow> s1\<lparr>srv_rooms := m, srv_tasks := (srv_tasks s1)(i \<mapsto> AckPending key n)\<rparr>))"

definition server_ack :: "'u relay_env \<Rightarrow> nat \<Rightarrow> rstr \<Rightarrow> nat \<Rightarrow> bool \<Rightarrow> 'f server \<Rightarrow> 'f server" where
  "server_ack E i key n send_ok s =
     (case handle_role_ack (srv_rooms s) key send_ok of
        (out, waits, m) \<Rightarrow>
          s\<lparr>srv_rooms := m, srv_sent := srv_sent s @ case_option [] (\<lambda>w. [(w, ack_text E True)]) out,
            srv_tasks := (srv_tasks s)(i \<mapsto> (if waits then AwaitNotified key n else Ended))\<rparr>)"

definition server_turn :: "nat \<Rightarrow> nat \<Rightarrow> nat \<Rightarrow> bool \<Rightarrow> 'f ws_next \<Rightarrow> bool \<Rightarrow> 'f server \<Rightarrow> 'f server" where
  "server_turn i a b from_a msg send_ok s =
     (case relay_turn from_a msg send_ok of
        (out, go_on) \<Rightarrow>
          let s1 = s\<lparr>srv_sent := srv_sent s @ case_option [] (\<lambda>(to_a, x). [(if to_a then a else b, x)]) out\<rparr>
          in if go_on then s1
             else s1\<lparr>srv_closed := srv_closed s1 \<union> {a, b}, srv_tasks := (srv_tasks s1)(i \<mapsto> Ended)\<rparr>)"

inductive server_step :: "'u relay_env \<Rightarrow> 'f server \<Rightarrow> 'f server \<Rightarrow> bool" for E where
  join: "srv_tasks s i = None \<Longrightarrow> server_step E s (server_join E i first send_ok s)"
| ack: "srv_tasks s i = Some (AckPending key n) \<Longrightarrow> server_step E s (server_ack E i key n send_ok s)"
| turn: "srv_tasks s i = Some (Relaying a b) \<Longrightarrow> server_step E s (server_turn i a b from_a msg send_ok s)"

inductive server_reach :: "'u relay_env \<Rightarrow> 'f server \<Rightarrow> bool" for E where
  init: "server_reach E server_init"
| step: "server_reach E s \<Longrightarrow> server_step E s s' \<Longrightarrow> server_reach E s'"

section \<open>Ownership of sockets\<close>

text \<open>An entry holds the socket of a connection that asked for this key in this role, still has to be
  notified, and whose task waits.\<close>

fun entry_role :: "RoomEntry \<Rightarrow> bool" where
  "entry_role (HostWaiting _ _) = True"
| "entry_role (GuestWaiting _ _) = False"

fun entry_notify :: "RoomEntry \<Rightarrow> nat" where
  "entry_notify (HostWaiting _ n) = n"
| "entry_notify (GuestWaiting _ n) = n"

definition entry_owned :: "'f server \<Rightarrow> rstr \<Rightarrow> RoomEntry \<Rightarrow> bool" where
  "entry_owned s k e \<longleftrightarrow> entry_notify e = entry_ws e \<and> srv_joins s (entry_ws e) = Some (k, entry_role e)
     \<and> entry_ws e \<notin> srv_notified s
     \<and> srv_tasks s (entry_ws e) \<in> {Some (AckPending k (entry_ws e)), Some (AwaitNotified k (entry_ws e))}"

text \<open>A forwarding task runs on its own socket and on that of a connection \<open>x\<close> that was waiting.\<close>

definition relay_other :: "nat \<Rightarrow> nat \<Rightarrow> nat \<Rightarrow> nat" where
  "relay_other r h g = (if r = h then g else h)"

definition relay_owned :: "'f server \<Rightarrow> nat \<Rightarrow> nat \<Rightarrow> nat \<Rightarrow> bool" where
  "relay_owned s r h g \<longleftrightarrow> h \<noteq> g \<and> r \<in> {h, g}
     \<and> (\<exists>k. srv_joins s h = Some (k, True) \<and> srv_joins s g = Some (k, False))
     \<and> relay_other r h g \<in> srv_notified s
     \<and> srv_tasks s (relay_other r h g) \<noteq> None \<and> (\<forall>a b. srv_tasks s (relay_other r h g) \<noteq> Some (Relaying a b))"

definition server_inv :: "'f server \<Rightarrow> bool" where
  "server_inv s \<longleftrightarrow>
     (\<forall>k e. srv_rooms s k = Some e \<longrightarrow> entry_owned s k e)
     \<and> (\<forall>i k n. srv_tasks s i = Some (AckPending k n) \<or> srv_tasks s i = Some (AwaitNotified k n) \<longrightarrow> n = i)
     \<and> (\<forall>r h g. srv_tasks s r = Some (Relaying h g) \<longrightarrow> relay_owned s r h g)
     \<and> (\<forall>r r' h g h' g'. srv_tasks s r = Some (Relaying h g) \<longrightarrow> srv_tasks s r' = Some (Relaying h' g') \<longrightarrow> r \<noteq> r'
          \<longrightarrow> relay_other r h g \<noteq> relay_other r' h' g')
     \<and> (\<forall>i. srv_tasks s i = None \<longrightarrow> srv_joins s i = None) \<and> (\<forall>i \<in> srv_notified s. srv_tasks s i \<noteq> None)"

lemma server_invD:
  assumes "server_inv s"
  shows "srv_rooms s k = Some e \<Longrightarrow> entry_owned s k e"
    "srv_tasks s i = Some (AckPending k n) \<Longrightarrow> n = i"
    "srv_tasks s r = Some (Relaying h g) \<Longrightarrow> relay_owned s r h g"
    "srv_tasks s r = Some (Relaying h g) \<Longrightarrow> srv_tasks s r' = Some (Relaying h' g') \<Longrightarrow> r \<noteq> r' \<Longrightarrow>
       relay_other r h g \<noteq> relay_other r' h' g'"
  using assms unfolding server_inv_def by blast+

text \<open>Two forwarding tasks never share a socket.\<close>

lemma relays_disjoint:
  assumes "server_inv s" "srv_tasks s r = Some (Relaying h g)" "srv_tasks s r' = Some (Relaying h' g')" "r \<noteq> r'"
  shows "{h, g} \<inter> {h', g'} = {}"
proof -
  have o: "relay_owned s r h g" "relay_owned s r' h' g'" and d: "relay_other r h g \<noteq> relay_other r' h' g'"
    using server_invD [OF assms(1)] assms(2-4) by blast+
  have "{h, g} = {r, relay_other r h g}" "{h', g'} = {r', relay_other r' h' g'}"
    using o by (auto simp: relay_owned_def relay_other_def)
  moreover have "relay_other r h g \<noteq> r'" "relay_other r' h' g' \<noteq> r"
    using o assms(2,3) by (auto simp: relay_owned_def)
  ultimately show ?thesis using d assms(4) by auto
qed

text \<open>What a step may do to another connection's task: nothing.\<close>

lemma relay_owned_mono:
  assumes "relay_owned s r h g" "srv_joins s' h = srv_joins s h" "srv_joins s' g = srv_joins s g"
    and "srv_notified s \<subseteq> srv_notified s'"
    and "srv_tasks s' (relay_other r h g) = srv_tasks s (relay_other r h g)
      \<or> (\<exists>k n. srv_tasks s' (relay_other r h g) = Some (AwaitNotified k n)) \<or> srv_tasks s' (relay_other r h g) = Some Ended"
  shows "relay_owned s' r h g"
  using assms unfolding relay_owned_def by auto

text \<open>A step of connection \<open>i\<close> that moves its own task to \<open>t\<close>, drops or keeps entries, notifies nobody.\<close>

lemma inv_move_task:
  assumes inv: "server_inv s" and s': "srv_tasks s' = (srv_tasks s)(i \<mapsto> t)" "srv_notified s' = srv_notified s"
      "srv_rooms s' \<subseteq>\<^sub>m srv_rooms s"
    and j: "\<And>x. srv_tasks s x \<noteq> None \<Longrightarrow> srv_joins s' x = srv_joins s x" "\<And>x. srv_tasks s' x = None \<Longrightarrow> srv_joins s' x = None"
    and t: "t = Ended \<or> (\<exists>k. srv_tasks s i = Some (AckPending k i) \<and> t = AwaitNotified k i)"
    and e: "\<And>k e. srv_rooms s' k = Some e \<Longrightarrow> entry_ws e = i \<Longrightarrow> t = AwaitNotified k i"
  shows "server_inv s'"
proof -
  have t': "t \<noteq> Relaying a b" "t \<noteq> AckPending k n" "t = AwaitNotified k n \<Longrightarrow> n = i" for a b k n using t by auto
  have "entry_owned s' k x" if x: "srv_rooms s' k = Some x" for k x
  proof -
    have ow: "entry_owned s k x" using x s'(3) server_invD(1) [OF inv] by (metis map_le_def domI)
    then have "srv_joins s' (entry_ws x) = srv_joins s (entry_ws x)" by (intro j) (auto simp: entry_owned_def)
    with ow e [OF x] show ?thesis by (auto simp: entry_owned_def s'(1,2))
  qed
  moreover have "relay_owned s' r h g" if r: "srv_tasks s' r = Some (Relaying h g)" for r h g
  proof -
    have "srv_tasks s r = Some (Relaying h g)" using r t'(1) by (auto simp: s'(1) split: if_splits)
    then have ow: "relay_owned s r h g" "srv_tasks s r \<noteq> None" using server_invD(3) [OF inv] by auto
    then have "srv_tasks s h \<noteq> None" "srv_tasks s g \<noteq> None" by (auto simp: relay_owned_def relay_other_def split: if_splits)
    then show ?thesis using t by (intro relay_owned_mono [OF ow(1)] j) (auto simp: s')
  qed
  moreover have "relay_other r h g \<noteq> relay_other r' h' g'"
    if "srv_tasks s' r = Some (Relaying h g)" "srv_tasks s' r' = Some (Relaying h' g')" "r \<noteq> r'" for r h g r' h' g'
    using that t'(1) server_invD(4) [OF inv] by (auto simp: s'(1) split: if_splits)
  moreover have "n = x" if "srv_tasks s' x = Some (AckPending k n) \<or> srv_tasks s' x = Some (AwaitNotified k n)" for x k n
    using that t'(2,3) inv unfolding server_inv_def by (auto simp: s'(1) split: if_splits)
  moreover have "srv_tasks s' x \<noteq> None" if "x \<in> srv_notified s'" for x
    using that inv unfolding server_inv_def by (auto simp: s'(1,2))
  ultimately show ?thesis using j(2) unfolding server_inv_def by blast
qed

lemma server_ack_inv:
  assumes inv: "server_inv s" and i: "srv_tasks s i = Some (AckPending k n)"
  shows "server_inv (server_ack E i k n send_ok s)"
proof -
  have n: "n = i" using server_invD(2) [OF inv i] .
  obtain out waits m where r: "handle_role_ack (srv_rooms s) k send_ok = (out, waits, m)" by (cases "handle_role_ack (srv_rooms s) k send_ok")
  have m: "m \<subseteq>\<^sub>m srv_rooms s" "\<not> waits \<Longrightarrow> m k = None"
    using r by (auto simp: handle_role_ack_def Let_def map_le_def split: option.splits if_splits)
  show ?thesis
  proof (rule inv_move_task [OF inv, where i = i and t = "if waits then AwaitNotified k n else Ended"])
    fix k' e assume e: "srv_rooms (server_ack E i k n send_ok s) k' = Some e" "entry_ws e = i"
    then have mk: "m k' = Some e" using r by (simp add: server_ack_def)
    then have "entry_owned s k' e" using m(1) server_invD(1) [OF inv] by (metis map_le_def domI)
    then have "k' = k" using e(2) i by (auto simp: entry_owned_def)
    with mk m(2) n show "(if waits then AwaitNotified k n else Ended) = AwaitNotified k' i" by auto
  qed (use r m n i inv in \<open>auto simp: server_ack_def server_inv_def split: if_splits\<close>)
qed

lemma server_turn_inv:
  assumes inv: "server_inv s" and i: "srv_tasks s i = Some (Relaying a b)"
  shows "server_inv (server_turn i a b from_a msg send_ok s)"
proof (cases "snd (relay_turn from_a msg send_ok)")
  case True
  then show ?thesis
    using inv by (auto simp: server_turn_def server_inv_def entry_owned_def relay_owned_def Let_def split: prod.splits)
next
  case False
  show ?thesis
  proof (rule inv_move_task [OF inv, where i = i and t = Ended])
    fix k e assume "srv_rooms (server_turn i a b from_a msg send_ok s) k = Some e" "entry_ws e = i"
    then show "Ended = AwaitNotified k i"
      using i server_invD(1) [OF inv, of k e] by (auto simp: server_turn_def entry_owned_def Let_def split: prod.splits if_splits)
  qed (use False inv in \<open>auto simp: server_turn_def server_inv_def Let_def split: prod.splits if_splits\<close>)
qed

lemma inv_fresh:
  assumes "server_inv s" "srv_tasks s i = None"
  shows "srv_rooms s k = Some e \<Longrightarrow> entry_ws e \<noteq> i" "srv_tasks s r = Some (Relaying h g) \<Longrightarrow> h \<noteq> i \<and> g \<noteq> i"
    "i \<notin> srv_notified s" "srv_joins s i = None"
proof -
  show "entry_ws e \<noteq> i" if e: "srv_rooms s k = Some e"
    using server_invD(1) [OF assms(1) e] assms(2) by (auto simp: entry_owned_def)
  show "h \<noteq> i \<and> g \<noteq> i" if r: "srv_tasks s r = Some (Relaying h g)"
    using server_invD(3) [OF assms(1) r] assms(2) r by (auto simp: relay_owned_def relay_other_def split: if_splits)
  show "i \<notin> srv_notified s" "srv_joins s i = None" using assms unfolding server_inv_def by blast+
qed

text \<open>A new connection that waits.\<close>

lemma inv_wait:
  assumes inv: "server_inv s" and i: "srv_tasks s i = None" and k: "srv_rooms s k = None" and e: "entry_ws e = i" "entry_notify e = i"
    and s': "srv_tasks s' = (srv_tasks s)(i \<mapsto> AckPending k i)" "srv_notified s' = srv_notified s"
      "srv_rooms s' = (srv_rooms s)(k \<mapsto> e)" "srv_joins s' = (srv_joins s)(i \<mapsto> (k, entry_role e))"
  shows "server_inv s'"
proof -
  note fr = inv_fresh [OF inv i]
  have "entry_owned s' k' x" if "srv_rooms s' k' = Some x" for k' x
    using that fr(1,3) e server_invD(1) [OF inv, of k' x] by (auto simp: s' entry_owned_def split: if_splits)
  moreover have "relay_owned s' r h g" if r: "srv_tasks s' r = Some (Relaying h g)" for r h g
  proof -
    have r': "srv_tasks s r = Some (Relaying h g)" using r by (auto simp: s'(1) split: if_splits)
    show ?thesis
      using fr(2) [OF r'] by (intro relay_owned_mono [OF server_invD(3) [OF inv r']]) (auto simp: s' relay_other_def)
  qed
  moreover have "relay_other r h g \<noteq> relay_other r' h' g'"
    if "srv_tasks s' r = Some (Relaying h g)" "srv_tasks s' r' = Some (Relaying h' g')" "r \<noteq> r'" for r h g r' h' g'
    using that server_invD(4) [OF inv] by (auto simp: s'(1) split: if_splits)
  moreover have "\<forall>i k n. srv_tasks s' i = Some (AckPending k n) \<or> srv_tasks s' i = Some (AwaitNotified k n) \<longrightarrow> n = i"
    "\<forall>i. srv_tasks s' i = None \<longrightarrow> srv_joins s' i = None" "\<forall>i \<in> srv_notified s'. srv_tasks s' i \<noteq> None"
    using inv unfolding server_inv_def s' by auto
  ultimately show ?thesis unfolding server_inv_def by blast
qed

text \<open>A new connection that meets a waiting one of the other role.\<close>

lemma inv_pair:
  assumes inv: "server_inv s" and i: "srv_tasks s i = None" and k: "srv_rooms s k = Some e"
    and hg: "(h, g) = (if entry_role e then (entry_ws e, i) else (i, entry_ws e))"
    and s': "srv_tasks s' = (srv_tasks s)(i \<mapsto> Relaying h g)" "srv_notified s' = insert (entry_ws e) (srv_notified s)"
      "srv_rooms s' = (srv_rooms s)(k := None)" "srv_joins s' = (srv_joins s)(i \<mapsto> (k, \<not> entry_role e))"
  shows "server_inv s'"
proof -
  note fr = inv_fresh [OF inv i]
  let ?w = "entry_ws e"
  have ow: "entry_owned s k e" using server_invD(1) [OF inv k] .
  have wi: "?w \<noteq> i" using fr(1) [OF k] .
  then have oth: "relay_other i h g = ?w" "h \<noteq> g" "i \<in> {h, g}" using hg by (auto simp: relay_other_def split: if_splits)
  have "entry_owned s' k' x" if x: "srv_rooms s' k' = Some x" for k' x
  proof -
    have k': "k' \<noteq> k" "srv_rooms s k' = Some x" using x by (auto simp: s' split: if_splits)
    then have "entry_owned s k' x" using server_invD(1) [OF inv] by blast
    moreover from this have "entry_ws x \<noteq> ?w" using ow k'(1) by (auto simp: entry_owned_def)
    ultimately show ?thesis using fr(1) [OF k'(2)] by (auto simp: s' entry_owned_def)
  qed
  moreover have "relay_owned s' r h' g'" if r: "srv_tasks s' r = Some (Relaying h' g')" for r h' g'
  proof (cases "r = i")
    case True
    with r have "h' = h" "g' = g" by (simp_all add: s')
    with True oth ow hg wi show ?thesis by (auto simp: relay_owned_def s' entry_owned_def split: if_splits)
  next
    case False
    with r have r': "srv_tasks s r = Some (Relaying h' g')" by (simp add: s')
    show ?thesis
      using fr(2) [OF r'] by (intro relay_owned_mono [OF server_invD(3) [OF inv r']]) (auto simp: s' relay_other_def)
  qed
  moreover have new: "relay_other r h' g' \<noteq> ?w" if "srv_tasks s r = Some (Relaying h' g')" for r h' g'
    using server_invD(3) [OF inv that] ow by (auto simp: relay_owned_def entry_owned_def)
  have "relay_other r h1 g1 \<noteq> relay_other r' h2 g2"
    if "srv_tasks s' r = Some (Relaying h1 g1)" "srv_tasks s' r' = Some (Relaying h2 g2)" "r \<noteq> r'" for r h1 g1 r' h2 g2
    using that server_invD(4) [OF inv] new oth(1) by (auto simp: s'(1) split: if_splits) metis+
  moreover have "\<forall>i k n. srv_tasks s' i = Some (AckPending k n) \<or> srv_tasks s' i = Some (AwaitNotified k n) \<longrightarrow> n = i"
    "\<forall>i. srv_tasks s' i = None \<longrightarrow> srv_joins s' i = None" "\<forall>i \<in> srv_notified s'. srv_tasks s' i \<noteq> None"
    using inv ow unfolding server_inv_def s' entry_owned_def by auto
  ultimately show ?thesis unfolding server_inv_def by blast
qed

lemma server_join_inv:
  assumes inv: "server_inv s" and i: "srv_tasks s i = None"
  shows "server_inv (server_join E i first send_ok s)" (is "server_inv ?s'")
proof -
  note fr = inv_fresh [OF inv i]
  have ended: "server_inv t" if "srv_tasks t = (srv_tasks s)(i \<mapsto> Ended)" "srv_notified t = srv_notified s" "srv_rooms t = srv_rooms s"
      and jt: "\<And>x. x \<noteq> i \<Longrightarrow> srv_joins t x = srv_joins s x" for t
  proof (rule inv_move_task [OF inv that(1,2)])
    show "srv_joins t x = srv_joins s x" if "srv_tasks s x \<noteq> None" for x using that i jt [of x] by (cases "x = i") auto
    show "srv_joins t x = None" if "srv_tasks t x = None" for x
      using that jt [of x] inv \<open>srv_tasks t = _\<close> unfolding server_inv_def by (auto split: if_splits)
  qed (use that(3) fr(1) in auto)
  show ?thesis
  proof (cases "handle_socket_join E first")
    case (Join k host)
    show ?thesis
    proof (cases "srv_rooms s k")
      case None
      then show ?thesis
        using Join by (intro inv_wait [OF inv i None, of "if host then HostWaiting i i else GuestWaiting i i"])
          (auto simp: server_join_def handle_role_lock_def Let_def)
    next
      case (Some e)
      show ?thesis
      proof (cases "entry_role e = host")
        case True
        with Some Join show ?thesis
          by (intro ended) (cases e; auto simp: server_join_def handle_role_lock_def Let_def split: if_splits)+
      next
        case False
        have "entry_notify e = entry_ws e" using server_invD(1) [OF inv Some] by (simp add: entry_owned_def)
        with False Some Join show ?thesis
          by (intro inv_pair [OF inv i Some, of "if entry_role e then entry_ws e else i" "if entry_role e then i else entry_ws e"])
            (cases e; auto simp: server_join_def handle_role_lock_def Let_def)+
      qed
    qed
  qed (auto intro!: ended simp: server_join_def)
qed

lemma server_step_inv: "server_step E s s' \<Longrightarrow> server_inv s \<Longrightarrow> server_inv s'"
  by (induction rule: server_step.induct) (simp_all add: server_join_inv server_ack_inv server_turn_inv)

lemma server_reach_inv: "server_reach E s \<Longrightarrow> server_inv s"
proof (induction rule: server_reach.induct)
  case init
  show ?case by (simp add: server_init_def server_inv_def)
qed (rule server_step_inv)

section \<open>Join keys\<close>

lemma utf8_hex: "list_all hex_lower (utf8_bytes s) \<longleftrightarrow> list_all hex_lower s"
  by (induction s) (auto simp: utf8_bytes_def hex_lower_def)

lemma utf8_ascii: "list_all hex_lower s \<Longrightarrow> utf8_bytes s = s"
  by (induction s) (auto simp: utf8_bytes_def hex_lower_def)

lemma validate_pin_tag_Some:
  "validate_pin_tag raw = Some p \<longleftrightarrow> p = to_ascii_lowercase (trim raw) \<and> length p = 16 \<and> list_all hex_lower p"
  by (auto simp: validate_pin_tag_def Let_def utf8_hex utf8_ascii)

lemma hex_trim: "list_all hex_lower p \<Longrightarrow> trim p = p"
proof -
  have h: "\<not> is_whitespace c" if "hex_lower c" for c using that by (auto simp: hex_lower_def is_whitespace_def)
  have "dropWhile is_whitespace q = q" if "list_all hex_lower q" for q
    using that h by (cases q) auto
  then show "list_all hex_lower p \<Longrightarrow> trim p = p" by (simp add: trim_def)
qed

lemma hex_lowercase: "list_all hex_lower p \<Longrightarrow> to_ascii_lowercase p = p"
  by (induction p) (auto simp: to_ascii_lowercase_def hex_lower_def)

section \<open>The three outcomes of a join\<close>

definition waiting_entry :: "nat \<Rightarrow> bool \<Rightarrow> RoomEntry" where
  "waiting_entry i host = (if host then HostWaiting i i else GuestWaiting i i)"

lemma waiting_entry_simps [simp]:
  "entry_ws (waiting_entry i host) = i" "entry_notify (waiting_entry i host) = i" "entry_role (waiting_entry i host) = host"
  by (simp_all add: waiting_entry_def)

lemma server_join_waits:
  assumes "handle_socket_join E m = Join k host" "srv_rooms s k = None"
  shows "server_join E i m ok s = s\<lparr>srv_joins := (srv_joins s)(i \<mapsto> (k, host)),
     srv_rooms := (srv_rooms s)(k \<mapsto> waiting_entry i host), srv_tasks := (srv_tasks s)(i \<mapsto> AckPending k i)\<rparr>"
  using assms by (simp add: server_join_def handle_role_lock_def waiting_entry_def Let_def)

lemma server_join_pairs:
  assumes "handle_socket_join E m = Join k host" "srv_rooms s k = Some (waiting_entry w (\<not> host))"
  shows "server_join E i m ok s = s\<lparr>srv_joins := (srv_joins s)(i \<mapsto> (k, host)),
     srv_rooms := (srv_rooms s)(k := None), srv_notified := insert w (srv_notified s),
     srv_sent := srv_sent s @ [(i, ack_text E False)],
     srv_tasks := (srv_tasks s)(i \<mapsto> (if host then Relaying i w else Relaying w i))\<rparr>"
  using assms by (simp add: server_join_def handle_role_lock_def waiting_entry_def Let_def)

lemma server_join_duplicate:
  assumes "handle_socket_join E m = Join k host" "srv_rooms s k = Some (waiting_entry w host)"
  shows "server_join E i m ok s = s\<lparr>srv_joins := (srv_joins s)(i \<mapsto> (k, host)), srv_tasks := (srv_tasks s)(i \<mapsto> Ended),
     srv_sent := srv_sent s @ send_join_err E i (lit (if host then ''duplicate_host'' else ''duplicate_guest'')) ok\<rparr>"
  using assms by (simp add: server_join_def handle_role_lock_def waiting_entry_def Let_def)

lemma entry_is_waiting:
  assumes "server_inv s" "srv_rooms s k = Some e"
  shows "e = waiting_entry (entry_ws e) (entry_role e)"
  using server_invD(1) [OF assms] by (cases e) (auto simp: entry_owned_def waiting_entry_def)

lemma reach_join: "server_reach E s \<Longrightarrow> srv_tasks s i = None \<Longrightarrow> server_reach E (server_join E i m ok s)"
  by (rule server_reach.step, assumption, rule server_step.join)

section \<open>Forwarded traffic\<close>

text \<open>The binary messages one side yields in a schedule, and those sent to one side.\<close>

fun binaries_from :: "bool \<Rightarrow> (bool \<times> 'f ws_next \<times> bool) list \<Rightarrow> bytes list" where
  "binaries_from side [] = []"
| "binaries_from side ((fa, Msg (Binary d), ok) # ts) = (if fa = side then d # binaries_from side ts else binaries_from side ts)"
| "binaries_from side (_ # ts) = binaries_from side ts"

fun binaries_to :: "bool \<Rightarrow> (bool \<times> 'f ws_message) list \<Rightarrow> bytes list" where
  "binaries_to side [] = []"
| "binaries_to side ((ta, Binary d) # ms) = (if ta = side then d # binaries_to side ms else binaries_to side ms)"
| "binaries_to side (_ # ms) = binaries_to side ms"

text \<open>The turns that end the loop: a failed forward, a close, text, an error or the end of a stream.\<close>

fun ends_loop :: "bool \<times> 'f ws_next \<times> bool \<Rightarrow> bool" where
  "ends_loop (_, Msg (Binary _), ok) = (\<not> ok)"
| "ends_loop (_, Msg (Ping _), _) = False"
| "ends_loop (_, Msg (Pong _), _) = False"
| "ends_loop _ = True"

text \<open>The turns up to and with the one that ends the loop.\<close>

definition live_turns :: "(bool \<times> 'f ws_next \<times> bool) list \<Rightarrow> (bool \<times> 'f ws_next \<times> bool) list" where
  "live_turns ts = take (Suc (length (takeWhile (\<lambda>t. \<not> ends_loop t) ts))) ts"

section \<open>A sample environment\<close>

text \<open>Two fixed texts stand for the JSON of a host join and of a guest join; a UUID is a number, written in front of 35 hyphens.\<close>

definition sample_pin :: rstr where
  "sample_pin = lit ''0123456789ABCDEF''"

definition sample_env :: "nat relay_env" where
  "sample_env = \<lparr>from_json = (\<lambda>t. if t = [7] then Some \<lparr>jb_room = [5], jb_pin_tag = sample_pin, jb_role = Host\<rparr>
       else if t = [8] then Some \<lparr>jb_room = [5], jb_pin_tag = sample_pin @ [32], jb_role = Guest\<rparr> else None),
     to_json = (\<lambda>a. [if ja_ok a then 1 else 0, if ja_waiting a = Some True then 1 else 0]),
     uuid_parse_str = (\<lambda>t. if t = [] then None else Some (hd t)),
     uuid_as_hyphenated = (\<lambda>u. u # replicate 35 45)\<rparr>"

definition sample_key :: rstr where
  "sample_key = 5 # replicate 35 45 @ lit ''|'' @ to_ascii_lowercase sample_pin"

lemma sample_joins:
  "handle_socket_join sample_env (Msg (Text [7])) = Join sample_key True"
  "handle_socket_join sample_env (Msg (Text [8])) = Join sample_key False"
  by (simp_all add: handle_socket_join_def sample_env_def sample_pin_def sample_key_def validate_pin_tag_def room_key_def
      to_ascii_lowercase_def trim_def lit_def is_whitespace_def utf8_bytes_def hex_lower_def Let_def)

section \<open>Port\<close>

fun decimal :: "nat \<Rightarrow> rstr" where
  "decimal n = (if n < 10 then [48 + n] else decimal (n div 10) @ [48 + n mod 10])"

lemma decimal_digits: "list_all (\<lambda>c. 48 \<le> c \<and> c \<le> 57) (decimal n) \<and> decimal n \<noteq> [] \<and> foldl (\<lambda>a c. a * 10 + (c - 48)) 0 (decimal n) = n"
proof (induction n rule: decimal.induct)
  case (1 n)
  show ?case
  proof (cases "n < 10")
    case False
    with 1 have "foldl (\<lambda>a c. a * 10 + (c - 48)) 0 (decimal (n div 10)) = n div 10" by blast
    moreover have "n mod 10 \<le> 9" using mod_less_divisor [of 10 n] by simp
    ultimately show ?thesis using 1 False by (subst decimal.simps, simp del: decimal.simps)+
  qed simp
qed

text \<open>A port in decimal is listened on; unset, empty, signed, too large or with anything else in it, it is 8080.\<close>

lemma listen_port_decimal: "listen_port None = 8080" "listen_port (Some (decimal n)) = (if n \<le> 65535 then n else 8080)"
proof -
  have "hd (decimal n) \<noteq> 43" using decimal_digits [of n] by (cases "decimal n") auto
  then have "parse_u16 (decimal n) = (if n \<le> 65535 then Some n else None)"
    using decimal_digits [of n] by (cases "decimal n") (auto simp: parse_u16_def Let_def simp del: decimal.simps)
  then show "listen_port (Some (decimal n)) = (if n \<le> 65535 then n else 8080)" by (simp add: listen_port_def del: decimal.simps)
qed (simp add: listen_port_def)

section \<open>Properties\<close>

text \<open>C23: The relay only ever connects a host with a guest of the same room and PIN tag.  In every reachable
  state, whatever the interleaving of joins, acks and forwarding turns, a forwarding task connects two different
  sockets, one that joined as host and one that joined as guest under the same key, no socket is forwarded by
  two tasks, and no forwarded socket is still offered in a room.\<close>

theorem relay_pairing_safe:
  assumes "server_reach E s" "srv_tasks s r = Some (Relaying h g)"
  shows "(\<exists>k. srv_joins s h = Some (k, True) \<and> srv_joins s g = Some (k, False)) \<and> h \<noteq> g
    \<and> (\<forall>r' h' g'. srv_tasks s r' = Some (Relaying h' g') \<and> r' \<noteq> r \<longrightarrow> {h, g} \<inter> {h', g'} = {})
    \<and> (\<forall>k e. srv_rooms s k = Some e \<longrightarrow> entry_ws e \<notin> {h, g})"
proof -
  note inv = server_reach_inv [OF assms(1)]
  have ow: "relay_owned s r h g" using server_invD(3) [OF inv assms(2)] .
  have "entry_ws e \<notin> {h, g}" if "srv_rooms s k = Some e" for k e
    using server_invD(1) [OF inv that] ow assms(2) by (auto simp: entry_owned_def relay_owned_def relay_other_def split: if_splits)
  with ow relays_disjoint [OF inv assms(2)] show ?thesis by (auto simp: relay_owned_def)
qed

theorem relay_pairing_safe_witness:
  "\<exists>s :: unit server. server_reach sample_env s \<and> srv_tasks s 1 = Some (Relaying 0 1)
     \<and> (\<exists>k. srv_joins s 0 = Some (k, True) \<and> srv_joins s 1 = Some (k, False))"
proof -
  let ?s1 = "server_join sample_env 0 (Msg (Text [7])) True (server_init :: unit server)"
  let ?s2 = "server_join sample_env 1 (Msg (Text [8])) True ?s1"
  have s1: "srv_tasks ?s1 = [0 \<mapsto> AckPending sample_key 0]" "srv_rooms ?s1 sample_key = Some (waiting_entry 0 (\<not> False))"
    by (simp_all add: server_join_waits [OF sample_joins(1)] server_init_def)
  have s2: "srv_tasks ?s2 1 = Some (Relaying 0 1)" using server_join_pairs [OF sample_joins(2) s1(2), of 1 True] by simp
  have "server_reach sample_env ?s2" using s1(1) by (intro reach_join server_reach.init) (simp_all add: server_init_def)
  with relay_pairing_safe [OF this s2] s2 show ?thesis by blast
qed

text \<open>What a join does in every reachable state.  The first connection under a key waits in the room; one of
  the other role is connected with it at once, the waiting side is notified and the room is free again; one of
  the same role is refused and the room keeps its first occupant.\<close>

lemma join_outcomes:
  assumes "server_reach E s" "srv_tasks s i = None" "handle_socket_join E m = Join k host"
  shows "let s' = server_join E i m ok s in
    (case srv_rooms s k of
       None \<Rightarrow> srv_rooms s' = (srv_rooms s)(k \<mapsto> waiting_entry i host) \<and> srv_tasks s' i = Some (AckPending k i)
     | Some e \<Rightarrow>
         if entry_role e = host then srv_rooms s' = srv_rooms s \<and> srv_tasks s' i = Some Ended
         else srv_rooms s' = (srv_rooms s)(k := None) \<and> entry_ws e \<in> srv_notified s' \<and> entry_ws e \<notin> srv_notified s
            \<and> srv_tasks s' i = Some (if host then Relaying i (entry_ws e) else Relaying (entry_ws e) i))"
proof (cases "srv_rooms s k")
  case None
  with server_join_waits [OF assms(3), of s i ok] show ?thesis by simp
next
  case (Some e)
  note inv = server_reach_inv [OF assms(1)]
  have w: "srv_rooms s k = Some (waiting_entry (entry_ws e) (entry_role e))" using Some entry_is_waiting [OF inv Some] by simp
  have "entry_ws e \<notin> srv_notified s" using server_invD(1) [OF inv Some] by (simp add: entry_owned_def)
  with Some w server_join_duplicate [OF assms(3), of s "entry_ws e" i ok] server_join_pairs [OF assms(3), of s "entry_ws e" i ok]
  show ?thesis by (cases "entry_role e = host") (simp_all add: Let_def)
qed

lemma join_outcomes_witness:
  "srv_tasks (server_join sample_env 0 (Msg (Text [7])) True (server_init :: unit server)) 0 = Some (AckPending sample_key 0)"
  using join_outcomes [where s = "server_init :: unit server" and i = 0 and ok = True, OF server_reach.init _ sample_joins(1)]
  by (simp add: server_init_def Let_def)

text \<open>C29: The relay is opaque and keeps the order: in any schedule of the forwarding loop, what reaches each side is
  exactly the sequence of binary messages the other side sent up to the turn that ended the loop, unchanged;
  text is never forwarded.  The loop goes on as long as no turn ends it.\<close>

theorem relay_forwards_unchanged:
  "binaries_to True (fst (relay_pair ts)) = binaries_from False (live_turns ts)
   \<and> binaries_to False (fst (relay_pair ts)) = binaries_from True (live_turns ts)
   \<and> (snd (relay_pair ts) \<longleftrightarrow> list_ex ends_loop ts)
   \<and> (\<forall>to_a t. (to_a, Text t) \<notin> set (fst (relay_pair ts)))"
proof (induction ts)
  case (Cons t ts)
  obtain fa msg ok where t: "t = (fa, msg, ok)" by (cases t)
  obtain outs ended where r: "relay_pair ts = (outs, ended)" by (cases "relay_pair ts")
  show ?case
  proof (cases "ends_loop t")
    case True
    then show ?thesis by (auto simp: t live_turns_def relay_turn_def split: ws_next.splits ws_message.splits)
  next
    case False
    then have l: "live_turns (t # ts) = t # live_turns ts" by (simp add: live_turns_def)
    from False Cons r show ?thesis
      unfolding l by (auto simp: t relay_turn_def split: ws_next.splits ws_message.splits)
  qed
qed (simp add: live_turns_def)

text \<open>Two valid joins meet in the same room exactly when they name the same UUID and PIN tags that agree up to
  surrounding white space and ASCII case: the separator and the normalised tag keep different rooms apart.
  It relies on the hyphenated form of a UUID having 36 characters and determining the UUID.\<close>

lemma room_key_agreement:
  assumes "inj (uuid_as_hyphenated E)" "\<forall>u. length (uuid_as_hyphenated E u) = 36"
    and "validate_pin_tag p1 = Some q1" "validate_pin_tag p2 = Some q2"
  shows "(room_key E u1 q1 = room_key E u2 q2 \<longleftrightarrow>
       u1 = u2 \<and> to_ascii_lowercase (trim p1) = to_ascii_lowercase (trim p2))
    \<and> validate_pin_tag q1 = Some q1 \<and> length q1 = 16"
proof -
  have q: "q1 = to_ascii_lowercase (trim p1)" "q2 = to_ascii_lowercase (trim p2)" "length q1 = 16" "list_all hex_lower q1"
    using assms(3,4) unfolding validate_pin_tag_Some by blast+
  have "room_key E u1 q1 = room_key E u2 q2 \<longleftrightarrow> u1 = u2 \<and> q1 = q2"
    using assms(1,2) by (auto simp: room_key_def inj_eq)
  with q show ?thesis by (auto simp: validate_pin_tag_Some hex_trim hex_lowercase)
qed

lemma room_key_agreement_witness:
  "room_key sample_env 5 (to_ascii_lowercase sample_pin) \<noteq> room_key sample_env 6 (to_ascii_lowercase sample_pin)
   \<and> validate_pin_tag (to_ascii_lowercase sample_pin) = Some (to_ascii_lowercase sample_pin)"
proof -
  have "inj (uuid_as_hyphenated sample_env)" "\<forall>u. length (uuid_as_hyphenated sample_env u) = 36"
    by (auto simp: sample_env_def inj_def)
  moreover have "validate_pin_tag sample_pin = Some (to_ascii_lowercase sample_pin)"
    by (simp add: sample_pin_def validate_pin_tag_def to_ascii_lowercase_def trim_def lit_def is_whitespace_def utf8_bytes_def
        hex_lower_def Let_def)
  ultimately show ?thesis
    using room_key_agreement [of sample_env sample_pin "to_ascii_lowercase sample_pin" sample_pin
        "to_ascii_lowercase sample_pin" 5 6] by simp
qed

text \<open>C40: The two lock sections of a waiting connection are not one.  When a host's peer and then another host
  join between them, the first host's waiting ack goes to the second host's socket, the first host starts to
  wait only after its notification has been given, and no entry will notify it again: its task stays behind.\<close>

theorem late_ack_and_missed_notification:
  assumes "handle_socket_join E (mh :: 'f ws_next) = Join k True" "handle_socket_join E (mg :: 'f ws_next) = Join k False"
  shows "\<exists>s :: 'f server. server_reach E s \<and> srv_tasks s 0 = Some (AwaitNotified k 0) \<and> 0 \<in> srv_notified s
    \<and> (\<forall>k' e. srv_rooms s k' = Some e \<longrightarrow> entry_notify e \<noteq> 0)
    \<and> srv_sent s = [(1, ack_text E False), (2, ack_text E True)] \<and> srv_tasks s 2 = Some (AckPending k 2)"
proof -
  let ?s0 = "server_init :: 'f server"
  let ?s1 = "server_join E 0 mh True ?s0"
  let ?s2 = "server_join E 1 mg True ?s1"
  let ?s3 = "server_join E 2 mh True ?s2"
  let ?s4 = "server_ack E 0 k 0 True ?s3"
  have s1: "srv_rooms ?s1 = [k \<mapsto> waiting_entry 0 (\<not> False)]" "srv_tasks ?s1 = [0 \<mapsto> AckPending k 0]"
      "srv_notified ?s1 = {}" "srv_sent ?s1 = []"
    by (simp_all add: server_join_waits [OF assms(1)])
  have s2: "srv_tasks ?s2 = [0 \<mapsto> AckPending k 0, 1 \<mapsto> Relaying 0 1]" "srv_rooms ?s2 = Map.empty"
      "srv_notified ?s2 = {0}" "srv_sent ?s2 = [(1, ack_text E False)]"
    using server_join_pairs [OF assms(2), of ?s1 0 1 True] s1 by simp_all
  have s3: "srv_tasks ?s3 = [0 \<mapsto> AckPending k 0, 1 \<mapsto> Relaying 0 1, 2 \<mapsto> AckPending k 2]"
      "srv_rooms ?s3 = [k \<mapsto> waiting_entry 2 True]" "srv_notified ?s3 = {0}" "srv_sent ?s3 = [(1, ack_text E False)]"
    by (simp_all add: server_join_waits [OF assms(1), of ?s2] s2 del: One_nat_def)
  have "server_reach E ?s1" by (intro reach_join server_reach.init) simp
  then have "server_reach E ?s2" by (rule reach_join) (simp add: s1)
  then have "server_reach E ?s3" by (rule reach_join) (simp add: s2 del: One_nat_def)
  then have "server_reach E ?s4" by (rule server_reach.step) (rule server_step.ack, simp add: s3 del: One_nat_def)
  moreover have "srv_tasks ?s4 0 = Some (AwaitNotified k 0)" "0 \<in> srv_notified ?s4" "srv_tasks ?s4 2 = Some (AckPending k 2)"
      "srv_sent ?s4 = [(1, ack_text E False), (2, ack_text E True)]" "srv_rooms ?s4 = [k \<mapsto> waiting_entry 2 True]"
    by (simp_all add: server_ack_def handle_role_ack_def Let_def s3 del: One_nat_def)
  ultimately show ?thesis by (intro exI [of _ ?s4]) (auto split: if_splits)
qed

theorem late_ack_and_missed_notification_witness:
  "\<exists>s :: unit server. server_reach sample_env s \<and> srv_tasks s 0 = Some (AwaitNotified sample_key 0) \<and> 0 \<in> srv_notified s"
  using late_ack_and_missed_notification [OF sample_joins] by blast

end
