(* ===== verification/End_To_End.thy ===== *)
theory End_To_End
  imports Session_Channel Ffi_Calls Relay_Server
begin

text \<open>
  Two applications, the C interface, the session engine, the wire formats and the relay put together.  Each
  client sends texts with \<open>gary_prepare_relay_outbound_utf8\<close> and reads them with
  \<open>gary_process_relay_inbound\<close>; the relay takes one WebSocket message at a time from either side and forwards
  it (\<open>relay_turn\<close>).  Sends, forwards and receives of both sides interleave freely.  The specification is two
  FIFO queues of texts per direction, one on either side of the relay.
\<close>

section \<open>The system\<close>

record 'f e2e =
  client :: "side \<Rightarrow> ffi_handle"
  up :: "side \<Rightarrow> 'f ws_message list"
  down :: "side \<Rightarrow> 'f ws_message list"

datatype e2e_op = ClientSend side bytes bytes bytes | RelayTurn side | ClientRecv side

datatype e2e_out = SendCode int | RecvText int bytes | Forwarded | Idle

fun is_a :: "side \<Rightarrow> bool" where
  "is_a SideA = True"
| "is_a SideB = False"

definition side_of :: "bool \<Rightarrow> side" where
  "side_of b = (if b then SideA else SideB)"

lemma side_of_is_a [simp]: "side_of (is_a x) = x" "side_of (\<not> is_a x) = peer x"
  by (cases x; simp add: side_of_def)+

text \<open>A send that fails puts nothing on the wire; a client that reads a message that is not binary skips it.\<close>

fun e2e_step :: "'r crypto \<Rightarrow> (bytes \<Rightarrow> 'r) \<Rightarrow> bytes \<Rightarrow> nat \<Rightarrow> 'f e2e \<Rightarrow> e2e_op \<Rightarrow> e2e_out \<times> 'f e2e" where
  "e2e_step C fs rt cap d (ClientSend x c seed seed2) =
     (let sr = gary_prepare_relay_outbound_utf8 C fs (Some seed) (Some seed2) (Some (client d x)) (CBuf rt) (CBuf c) False cap False;
          d1 = d\<lparr>client := (client d)(x := the (sr_session sr))\<rparr>
      in (SendCode (sr_code sr),
          if sr_code sr = GARY_CODE_OK then d1\<lparr>up := (up d)(x := up d x @ [Binary (sr_out sr)])\<rparr> else d1))"
| "e2e_step C fs rt cap d (RelayTurn x) =
     (case up d x of
        [] \<Rightarrow> (Idle, d)
      | m # ms \<Rightarrow>
          let d1 = d\<lparr>up := (up d)(x := ms)\<rparr> in
          (case relay_turn (is_a x) (Msg m) True of
             (Some (to_a, m'), _) \<Rightarrow> (Forwarded, d1\<lparr>down := (down d)(side_of to_a := down d (side_of to_a) @ [m'])\<rparr>)
           | (None, _) \<Rightarrow> (Forwarded, d1)))"
| "e2e_step C fs rt cap d (ClientRecv x) =
     (case down d x of
        [] \<Rightarrow> (Idle, d)
      | m # ms \<Rightarrow>
          let d1 = d\<lparr>down := (down d)(x := ms)\<rparr> in
          (case m of
             Binary wr \<Rightarrow>
               (case gary_process_relay_inbound C fs (Some (client d x)) (CBuf wr) of
                  (code, f) \<Rightarrow> (RecvText code (c_string (the (gary_last_inbound_utf8 f))), d1\<lparr>client := (client d)(x := the f)\<rparr>))
           | _ \<Rightarrow> (Idle, d1)))"

section \<open>The specification\<close>

record queues =
  q_up :: "side \<Rightarrow> bytes list"
  q_down :: "side \<Rightarrow> bytes list"
  q_sent :: "side \<Rightarrow> nat"

fun queue_step :: "queues \<Rightarrow> e2e_op \<Rightarrow> e2e_out \<times> queues" where
  "queue_step a (ClientSend x c seed seed2) =
     (SendCode GARY_CODE_OK, a\<lparr>q_up := (q_up a)(x := q_up a x @ [c]), q_sent := (q_sent a)(x := Suc (q_sent a x))\<rparr>)"
| "queue_step a (RelayTurn x) =
     (case q_up a x of
        [] \<Rightarrow> (Idle, a)
      | c # cs \<Rightarrow> (Forwarded, a\<lparr>q_up := (q_up a)(x := cs), q_down := (q_down a)(peer x := q_down a (peer x) @ [c])\<rparr>))"
| "queue_step a (ClientRecv x) =
     (case q_down a x of
        [] \<Rightarrow> (Idle, a)
      | c # cs \<Rightarrow> (RecvText GARY_CODE_OK c, a\<lparr>q_down := (q_down a)(x := cs)\<rparr>))"

definition text_ok :: "bytes \<Rightarrow> bool" where
  "text_ok c \<longleftrightarrow> length c \<le> 504 \<and> valid_utf8 c \<and> 0 \<notin> set c"

fun e2e_permitted :: "nat \<Rightarrow> queues \<Rightarrow> e2e_op \<Rightarrow> bool" where
  "e2e_permitted N a (ClientSend x c seed seed2) = (text_ok c \<and> q_sent a x < N)"
| "e2e_permitted N a _ = True"

section \<open>Frames\<close>

text \<open>The bytes of one DATA record on the relay wire.\<close>

definition frame_of :: "bytes \<Rightarrow> outer_record \<Rightarrow> bool" where
  "frame_of wr rec \<longleftrightarrow> (\<exists>e. decode_padded_wire wr = Ok e \<and> outer_record_decode (opaque_bytes e) = Ok rec)"

lemma prepare_frame:
  assumes "crypto_lens C" "session_inv (hnd_session (ffi_inner f))" "length rt \<le> 512" "2048 \<le> cap"
    and "data_inner_plaintext C 1 1 c = Ok pt"
    and "encrypt_data_plain512_outer C (hnd_session (ffi_inner f)) pt (fs seed)
           = (Ok (next_header (hnd_session (ffi_inner f)) 3, p), s', r')" "length p = 1024"
  shows "\<exists>wr. gary_prepare_relay_outbound_utf8 C fs (Some seed) (Some seed2) (Some f) (CBuf rt) (CBuf c) False cap False
      = \<lparr>sr_code = GARY_CODE_OK, sr_session = Some (latch_ok (f\<lparr>ffi_inner := \<lparr>hnd_session = s'\<rparr>\<rparr>)),
         sr_written = Some 2048, sr_out = wr\<rparr>
    \<and> length wr = 2048 \<and> frame_of wr \<lparr>rec_header = next_header (hnd_session (ffi_inner f)) 3, payload = p\<rparr>"
proof -
  obtain op where op: "build_data_outer_record_bytes C fs (Some seed) f c = (Ok op, f\<lparr>ffi_inner := \<lparr>hnd_session = s'\<rparr>\<rparr>)"
    "length op = 1091" "outer_record_decode op = Ok \<lparr>rec_header = next_header (hnd_session (ffi_inner f)) 3, payload = p\<rparr>"
    using build_record [where fs = fs and seed = seed, OF assms(2,5,7,6)] by blast
  obtain wr where wr: "fst (encode_padded_wire (fill_bytes C) \<lparr>route_token = rt, opaque_bytes = op\<rparr> (fs seed2)) = Ok wr"
    "length wr = 2048" "decode_padded_wire wr = Ok \<lparr>route_token = rt, opaque_bytes = op\<rparr>"
    using relay_frame [OF assms(1,3) op(2), of "fs seed2"] by blast
  have "gary_prepare_relay_outbound_utf8 C fs (Some seed) (Some seed2) (Some f) (CBuf rt) (CBuf c) False cap False
      = \<lparr>sr_code = GARY_CODE_OK, sr_session = Some (latch_ok (f\<lparr>ffi_inner := \<lparr>hnd_session = s'\<rparr>\<rparr>)),
         sr_written = Some 2048, sr_out = wr\<rparr>"
    using op(1) wr(1,2) assms(4) by (simp add: gary_prepare_relay_outbound_utf8_def Let_def)
  with wr op(3) show ?thesis by (auto simp: frame_of_def)
qed

lemma process_frame:
  assumes "crypto_lens C" "frame_of wr rec" "wf_ffi f" "data_inner_plaintext C 1 1 c = Ok pt" "text_ok c"
    and "handle_inbound_outer C (hnd_session (ffi_inner f)) rec 0 (fs (replicate 32 0x99)) = (Ok (Data pt), t', r)"
  shows "\<exists>f'. gary_process_relay_inbound C fs (Some f) (CBuf wr) = (GARY_CODE_OK, Some f')
    \<and> c_string (last_inbound_utf8 f') = c \<and> wf_ffi f' \<and> hnd_session (ffi_inner f') = t'"
proof -
  obtain e where e: "decode_padded_wire wr = Ok e" "outer_record_decode (opaque_bytes e) = Ok rec"
    using assms(2) by (auto simp: frame_of_def)
  have c: "valid_utf8 c" "length c \<le> 504" "0 \<notin> set c" using assms(5) by (simp_all add: text_ok_def)
  let ?f = "latch_ok (f\<lparr>ffi_inner := \<lparr>hnd_session = t'\<rparr>, last_inbound_utf8 := shown c\<rparr>)"
  have "length (last_inbound_utf8 f) = 512" using assms(3) by (simp add: wf_ffi_def)
  then have "ingest_inner C fs f (opaque_bytes e) = (GARY_CODE_OK, ?f)"
    using ingest_record [where fs = fs, OF assms(1) e(2) assms(4) _ assms(6)] by blast
  then have "gary_process_relay_inbound C fs (Some f) (CBuf wr) = (GARY_CODE_OK, Some ?f)"
    using e(1) by (simp add: gary_process_relay_inbound_def)
  moreover have "c_string (last_inbound_utf8 ?f) = c" using c_string_padded [OF c(3), of 0] c(1) by (simp add: latch_ok_def c_string_shown)
  moreover have "wf_ffi ?f" using assms(3) c(2) by (simp add: wf_ffi_def latch_ok_def length_shown)
  ultimately show ?thesis by (auto simp: latch_ok_def)
qed

section \<open>One direction of the link\<close>

definition in_flight :: "'f ws_message \<Rightarrow> outer_record \<Rightarrow> bool" where
  "in_flight m rec \<longleftrightarrow> (\<exists>wr. m = Binary wr \<and> frame_of wr rec)"

definition text_of :: "'r crypto \<Rightarrow> bytes \<Rightarrow> bytes \<Rightarrow> bool" where
  "text_of C c pt \<longleftrightarrow> data_inner_plaintext C 1 1 c = Ok pt \<and> text_ok c"

text \<open>
  The messages \<open>q\<close> on their way from \<open>f\<close> to \<open>t\<close>, oldest first, carry the texts \<open>ts\<close>: they are the records of
  the chain that the receive window has not passed yet.
\<close>

definition link ::
  "'r crypto \<Rightarrow> nat \<Rightarrow> session \<Rightarrow> session \<Rightarrow> 'f ws_message list \<Rightarrow> bytes list \<Rightarrow> nat \<Rightarrow> bool" where
  "link C N f t q ts n \<longleftrightarrow> (\<exists>recs pts w. one_way C N f t recs pts w \<and> win_missing w = {} \<and> win_parked w \<le> MAX_SKIP
     \<and> length pts = n \<and> list_all2 in_flight q (drop (win_top w) recs) \<and> list_all2 (text_of C) ts (drop (win_top w) pts))"

lemma link_ends:
  assumes "link C N f t q ts n"
  shows "same_send f f' \<Longrightarrow> link C N f' t q ts n"
    and "same_recv t t' \<Longrightarrow> session_inv t' \<Longrightarrow> link C N f t' q ts n"
    and "session_inv t" "length q = length ts"
proof -
  obtain recs pts w where l: "one_way C N f t recs pts w" "win_missing w = {}" "win_parked w \<le> MAX_SKIP" "length pts = n"
    "list_all2 in_flight q (drop (win_top w) recs)" "list_all2 (text_of C) ts (drop (win_top w) pts)"
    using assms unfolding link_def by blast
  show "same_send f f' \<Longrightarrow> link C N f' t q ts n" unfolding link_def using l one_way_sender [OF l(1)] by blast
  show "same_recv t t' \<Longrightarrow> session_inv t' \<Longrightarrow> link C N f t' q ts n"
    unfolding link_def using l one_way_receiver [OF l(1)] by blast
  show "session_inv t" by (rule one_way_inv [OF l(1)])
  have "length recs = length pts" using l(1) by (auto simp: one_way_def)
  then show "length q = length ts" using list_all2_lengthD [OF l(5)] list_all2_lengthD [OF l(6)] by simp
qed

lemma opens_length: "opens C mk h p pt \<Longrightarrow> length p = 1024"
  by (auto simp: opens_def strip_outer_pad_def DATA_LOGICAL_def DATA_INNER_FIXED_def smallest_padding_bucket_def
      PADDING_BUCKETS_def split: if_splits)

lemma one_way_last_payload:
  assumes "one_way C N f t (recs @ [rec]) (pts @ [pt]) w" "length recs = length pts"
  shows "length (payload rec) = 1024"
proof -
  obtain ck i c where "data_record C ck i c f (length pts) rec pt"
    using assms unfolding one_way_def by (metis length_append_singleton lessI nth_append_length)
  then show ?thesis by (auto simp: data_record_def dest: opens_length)
qed

lemma one_way_len: "one_way C N f t recs pts w \<Longrightarrow> length recs = length pts \<and> win_top w \<le> length pts"
  by (auto simp: one_way_def)

lemma link_send:
  assumes "crypto_lens C" "aead_ok C" "link C N (hnd_session (ffi_inner f)) t q ts n" "session_inv (hnd_session (ffi_inner f))"
    and "text_ok c" "n < N" "wf_ffi f" "length rt \<le> 512" "2048 \<le> cap"
  shows "\<exists>wr f'. gary_prepare_relay_outbound_utf8 C fs (Some seed) (Some seed2) (Some f) (CBuf rt) (CBuf c) False cap False
      = \<lparr>sr_code = GARY_CODE_OK, sr_session = Some f', sr_written = Some 2048, sr_out = wr\<rparr>
    \<and> same_recv (hnd_session (ffi_inner f)) (hnd_session (ffi_inner f')) \<and> session_inv (hnd_session (ffi_inner f')) \<and> wf_ffi f'
    \<and> link C N (hnd_session (ffi_inner f')) t (q @ [Binary wr]) (ts @ [c]) (Suc n)"
proof -
  let ?s = "hnd_session (ffi_inner f)"
  obtain recs pts w where l: "one_way C N ?s t recs pts w" "win_missing w = {}" "win_parked w \<le> MAX_SKIP" "length pts = n"
    "list_all2 in_flight q (drop (win_top w) recs)" "list_all2 (text_of C) ts (drop (win_top w) pts)"
    using assms(3) unfolding link_def by blast
  have "length c \<le> 504" using assms(5) by (simp add: text_ok_def)
  then obtain pt where pt: "data_inner_plaintext C 1 1 c = Ok pt" using data_inner_plaintext_Ok_iff by blast
  have lp: "length pt = 512" using data_inner_plaintext_layout [OF assms(1) pt] by blast
  obtain h p s' r' where e: "encrypt_data_plain512_outer C ?s pt (fs seed) = (Ok (h, p), s', r')" "same_recv ?s s'"
    "session_inv s'" "one_way C N s' t (recs @ [\<lparr>rec_header = h, payload = p\<rparr>]) (pts @ [pt]) w"
    using one_way_send [OF assms(1,2) l(1) assms(4) lp, of "fs seed"] l(4) assms(6) by auto
  have h: "h = next_header ?s 3" using encrypt_data_plain512_outer_sent [OF e(1)] by (simp add: sent_def)
  have p: "length p = 1024" using one_way_last_payload [OF e(4)] one_way_len [OF l(1)] by simp
  obtain wr where wr: "gary_prepare_relay_outbound_utf8 C fs (Some seed) (Some seed2) (Some f) (CBuf rt) (CBuf c) False cap False
      = \<lparr>sr_code = GARY_CODE_OK, sr_session = Some (latch_ok (f\<lparr>ffi_inner := \<lparr>hnd_session = s'\<rparr>\<rparr>)),
         sr_written = Some 2048, sr_out = wr\<rparr>" "frame_of wr \<lparr>rec_header = h, payload = p\<rparr>"
    using prepare_frame [where fs = fs and seed = seed and ?seed2.0 = seed2, OF assms(1,4,8,9) pt e(1) [unfolded h] p] h by blast
  have "link C N s' t (q @ [Binary wr]) (ts @ [c]) (Suc n)"
    unfolding link_def using e(4) l one_way_len [OF l(1)] wr(2) pt assms(5)
    by (intro exI [of _ "recs @ [\<lparr>rec_header = h, payload = p\<rparr>]"] exI [of _ "pts @ [pt]"] exI [of _ w])
      (auto simp: in_flight_def text_of_def intro!: list_all2_appendI)
  with wr(1) e(2,3) assms(7) show ?thesis by (auto simp: latch_ok_def wf_ffi_def)
qed

lemma window_next:
  assumes "win_missing w = {}" "win_parked w \<le> MAX_SKIP"
  shows "window_admit w (win_top w) = Ok (w\<lparr>win_top := Suc (win_top w)\<rparr>)"
  using assms by (simp add: window_admit_def)

lemma link_recv:
  assumes "crypto_lens C" "link C N f (hnd_session (ffi_inner g)) (m # q) (c # ts) n" "wf_ffi g"
  shows "\<exists>wr g'. m = Binary wr \<and> gary_process_relay_inbound C fs (Some g) (CBuf wr) = (GARY_CODE_OK, Some g')
    \<and> c_string (last_inbound_utf8 g') = c \<and> wf_ffi g' \<and> same_send (hnd_session (ffi_inner g)) (hnd_session (ffi_inner g'))
    \<and> link C N f (hnd_session (ffi_inner g')) q ts n"
proof -
  let ?t = "hnd_session (ffi_inner g)"
  obtain recs pts w where l: "one_way C N f ?t recs pts w" "win_missing w = {}" "win_parked w \<le> MAX_SKIP" "length pts = n"
    "list_all2 in_flight (m # q) (drop (win_top w) recs)" "list_all2 (text_of C) (c # ts) (drop (win_top w) pts)"
    using assms(2) unfolding link_def by blast
  let ?k = "win_top w"
  have k: "?k < length pts" "length recs = length pts" using list_all2_lengthD [OF l(6)] one_way_len [OF l(1)] by auto
  have d: "drop ?k recs = recs ! ?k # drop (Suc ?k) recs" "drop ?k pts = pts ! ?k # drop (Suc ?k) pts"
    using k by (simp_all add: Cons_nth_drop_Suc)
  obtain wr where wr: "m = Binary wr" "frame_of wr (recs ! ?k)" using l(5) by (auto simp: d in_flight_def)
  have c: "data_inner_plaintext C 1 1 c = Ok (pts ! ?k)" "text_ok c" using l(6) by (auto simp: d text_of_def)
  note adm = window_next [OF l(2,3)]
  obtain t' where t': "handle_inbound_outer C ?t (recs ! ?k) 0 (fs (replicate 32 0x99))
      = (Ok (Data (pts ! ?k)), t', fs (replicate 32 0x99))" "same_send ?t t'"
    "one_way C N f t' recs pts (w\<lparr>win_top := Suc ?k\<rparr>)"
    using one_way_deliver [OF assms(1) l(1) k(1), of 0 "fs (replicate 32 0x99)"] by (auto simp: adm window_after_def)
  obtain g' where g': "gary_process_relay_inbound C fs (Some g) (CBuf wr) = (GARY_CODE_OK, Some g')"
    "c_string (last_inbound_utf8 g') = c" "wf_ffi g'" "hnd_session (ffi_inner g') = t'"
    using process_frame [where fs = fs, OF assms(1) wr(2) assms(3) c t'(1)] by blast
  have "link C N f t' q ts n"
    unfolding link_def using t'(3) l(2-6)
    by (intro exI [of _ recs] exI [of _ pts] exI [of _ "w\<lparr>win_top := Suc ?k\<rparr>"]) (auto simp: d)
  with g' t'(2) wr(1) show ?thesis by blast
qed

section \<open>Refinement\<close>

definition e2e_rel :: "'r crypto \<Rightarrow> bytes \<Rightarrow> nat \<Rightarrow> nat \<Rightarrow> 'f e2e \<Rightarrow> queues \<Rightarrow> bool" where
  "e2e_rel C rt cap N d a \<longleftrightarrow> crypto_lens C \<and> aead_ok C \<and> length rt \<le> 512 \<and> 2048 \<le> cap \<and> (\<forall>x. wf_ffi (client d x)
     \<and> link C N (hnd_session (ffi_inner (client d x))) (hnd_session (ffi_inner (client d (peer x))))
         (down d (peer x) @ up d x) (q_down a (peer x) @ q_up a x) (q_sent a x)
     \<and> length (up d x) = length (q_up a x))"

lemma e2e_relD:
  assumes "e2e_rel C rt cap N d a"
  shows "crypto_lens C" "aead_ok C" "length rt \<le> 512" "2048 \<le> cap" "wf_ffi (client d x)"
    and "link C N (hnd_session (ffi_inner (client d x))) (hnd_session (ffi_inner (client d (peer x))))
         (down d (peer x) @ up d x) (q_down a (peer x) @ q_up a x) (q_sent a x)"
    and "link C N (hnd_session (ffi_inner (client d (peer x)))) (hnd_session (ffi_inner (client d x)))
         (down d x @ up d (peer x)) (q_down a x @ q_up a (peer x)) (q_sent a (peer x))"
    and "length (up d x) = length (q_up a x)" "length (down d x) = length (q_down a x)"
    and "session_inv (hnd_session (ffi_inner (client d x)))"
proof -
  have all: "\<And>x. wf_ffi (client d x)
     \<and> link C N (hnd_session (ffi_inner (client d x))) (hnd_session (ffi_inner (client d (peer x))))
         (down d (peer x) @ up d x) (q_down a (peer x) @ q_up a x) (q_sent a x)
     \<and> length (up d x) = length (q_up a x)"
    using assms by (simp add: e2e_rel_def)
  show "wf_ffi (client d x)" "length (up d x) = length (q_up a x)"
    "link C N (hnd_session (ffi_inner (client d x))) (hnd_session (ffi_inner (client d (peer x))))
         (down d (peer x) @ up d x) (q_down a (peer x) @ q_up a x) (q_sent a x)" using all by blast+
  show l: "link C N (hnd_session (ffi_inner (client d (peer x)))) (hnd_session (ffi_inner (client d x)))
         (down d x @ up d (peer x)) (q_down a x @ q_up a (peer x)) (q_sent a (peer x))" using all [of "peer x"] by simp
  show "session_inv (hnd_session (ffi_inner (client d x)))" by (rule link_ends(3) [OF l])
  show "length (down d x) = length (q_down a x)" using link_ends(4) [OF l] all [of "peer x"] by simp
qed (use assms in \<open>simp_all add: e2e_rel_def\<close>)

lemma e2e_relI:
  assumes "crypto_lens C" "aead_ok C" "length rt \<le> 512" "2048 \<le> cap" "wf_ffi (client d x)" "wf_ffi (client d (peer x))"
    and "link C N (hnd_session (ffi_inner (client d x))) (hnd_session (ffi_inner (client d (peer x))))
         (down d (peer x) @ up d x) (q_down a (peer x) @ q_up a x) (q_sent a x)"
    and "link C N (hnd_session (ffi_inner (client d (peer x)))) (hnd_session (ffi_inner (client d x)))
         (down d x @ up d (peer x)) (q_down a x @ q_up a (peer x)) (q_sent a (peer x))"
    and "length (up d x) = length (q_up a x)" "length (up d (peer x)) = length (q_up a (peer x))"
  shows "e2e_rel C rt cap N d a"
proof -
  have "wf_ffi (client d y)
     \<and> link C N (hnd_session (ffi_inner (client d y))) (hnd_session (ffi_inner (client d (peer y))))
         (down d (peer y) @ up d y) (q_down a (peer y) @ q_up a y) (q_sent a y)
     \<and> length (up d y) = length (q_up a y)" for y
    using side_cases [of y x] assms(5-) by (elim disjE) simp_all
  with assms(1-4) show ?thesis by (simp add: e2e_rel_def)
qed

lemma send_refines:
  assumes "e2e_rel C rt cap N d a" "text_ok c" "q_sent a x < N"
  shows "fst (e2e_step C fs rt cap d (ClientSend x c seed seed2)) = SendCode GARY_CODE_OK
    \<and> e2e_rel C rt cap N (snd (e2e_step C fs rt cap d (ClientSend x c seed seed2))) (snd (queue_step a (ClientSend x c seed seed2)))"
proof -
  note r = e2e_relD [OF assms(1)]
  obtain wr f' where f': "gary_prepare_relay_outbound_utf8 C fs (Some seed) (Some seed2) (Some (client d x)) (CBuf rt) (CBuf c) False cap False
      = \<lparr>sr_code = GARY_CODE_OK, sr_session = Some f', sr_written = Some 2048, sr_out = wr\<rparr>"
    "same_recv (hnd_session (ffi_inner (client d x))) (hnd_session (ffi_inner f'))" "session_inv (hnd_session (ffi_inner f'))"
    "wf_ffi f'" "link C N (hnd_session (ffi_inner f')) (hnd_session (ffi_inner (client d (peer x))))
       ((down d (peer x) @ up d x) @ [Binary wr]) ((q_down a (peer x) @ q_up a x) @ [c]) (Suc (q_sent a x))"
    using link_send [OF r(1,2) r(6) r(10) assms(2,3) r(5) r(3,4), where fs = fs and seed = seed and ?seed2.0 = seed2]
    by metis
  show ?thesis
    using f' r(1-5) r(5) [of "peer x"] r(8) [of x] r(8) [of "peer x"] link_ends(2) [OF r(7) f'(2,3)]
    by (auto intro!: e2e_relI [of _ _ _ _ x] simp: Let_def)
qed

lemma turn_refines:
  assumes "e2e_rel C rt cap N d a"
  shows "fst (e2e_step C fs rt cap d (RelayTurn x)) = fst (queue_step a (RelayTurn x))
    \<and> e2e_rel C rt cap N (snd (e2e_step C fs rt cap d (RelayTurn x))) (snd (queue_step a (RelayTurn x)))"
proof (cases "up d x")
  case Nil
  then show ?thesis using assms e2e_relD(8) [OF assms, of x] by simp
next
  case (Cons m ms)
  note r = e2e_relD [OF assms]
  obtain c cs where c: "q_up a x = c # cs" using r(8) [of x] Cons by (cases "q_up a x") auto
  have "\<exists>wr. m = Binary wr"
    using r(6) [of x] Cons by (auto simp: link_def list_all2_append1 list_all2_Cons1 in_flight_def)
  then obtain wr where wr: "m = Binary wr" by blast
  show ?thesis
    using Cons c wr r(1-5) r(5) [of "peer x"] r(6) [of x] r(7) [of x] r(8) [of x] r(8) [of "peer x"]
    by (auto intro!: e2e_relI [of _ _ _ _ x] simp: relay_turn_def Let_def)
qed

lemma recv_refines:
  assumes "e2e_rel C rt cap N d a"
  shows "fst (e2e_step C fs rt cap d (ClientRecv x)) = fst (queue_step a (ClientRecv x))
    \<and> e2e_rel C rt cap N (snd (e2e_step C fs rt cap d (ClientRecv x))) (snd (queue_step a (ClientRecv x)))"
proof (cases "down d x")
  case Nil
  then show ?thesis using assms e2e_relD(9) [OF assms, of x] by simp
next
  case (Cons m ms)
  note r = e2e_relD [OF assms]
  obtain c cs where c: "q_down a x = c # cs" using r(9) [of x] Cons by (cases "q_down a x") auto
  have "link C N (hnd_session (ffi_inner (client d (peer x)))) (hnd_session (ffi_inner (client d x)))
      (m # ms @ up d (peer x)) (c # cs @ q_up a (peer x)) (q_sent a (peer x))" using r(7) [of x] Cons c by simp
  then obtain wr g where g: "m = Binary wr" "gary_process_relay_inbound C fs (Some (client d x)) (CBuf wr) = (GARY_CODE_OK, Some g)"
    "c_string (last_inbound_utf8 g) = c" "wf_ffi g" "same_send (hnd_session (ffi_inner (client d x))) (hnd_session (ffi_inner g))"
    "link C N (hnd_session (ffi_inner (client d (peer x)))) (hnd_session (ffi_inner g)) (ms @ up d (peer x)) (cs @ q_up a (peer x)) (q_sent a (peer x))"
    using link_recv [OF r(1) _ r(5) [of x], where fs = fs] by metis
  show ?thesis
    using Cons c g r(1-5) r(5) [of "peer x"] r(8) [of x] r(8) [of "peer x"] link_ends(1) [OF r(6) [of x] g(5)]
    by (auto intro!: e2e_relI [of _ _ _ _ x] simp: Let_def gary_last_inbound_utf8_def)
qed

interpretation e2e: forward_sim "e2e_step C fs rt cap" queue_step "e2e_rel C rt cap N" "e2e_permitted N" for C fs rt cap N
proof
  fix d :: "'b e2e" and a op
  assume rel: "e2e_rel C rt cap N d a" and ok: "e2e_permitted N a op"
  show "fst (e2e_step C fs rt cap d op) = fst (queue_step a op)
    \<and> e2e_rel C rt cap N (snd (e2e_step C fs rt cap d op)) (snd (queue_step a op))"
  proof (cases op)
    case (ClientSend x c seed seed2)
    with ok send_refines [OF rel, of c x fs seed seed2] show ?thesis by simp
  qed (use turn_refines [OF rel] recv_refines [OF rel] in auto)
qed

definition e2e_start :: "ffi_handle \<Rightarrow> ffi_handle \<Rightarrow> 'f e2e" where
  "e2e_start fa fb = \<lparr>client = case_side fa fb, up = (\<lambda>_. []), down = (\<lambda>_. [])\<rparr>"

definition queues_start :: queues where
  "queues_start = \<lparr>q_up = (\<lambda>_. []), q_down = (\<lambda>_. []), q_sent = (\<lambda>_. 0)\<rparr>"

lemma paired_link:
  assumes "paired f t" "room_for N f"
  shows "link C N f t [] [] 0"
proof -
  have "skipped_len (skipped t) \<le> MAX_SKIP"
    using assms(1) by (intro skipped_inv_cap wf_session_skippedD session_invD(1)) (simp add: paired_def)
  with paired_one_way [OF assms, of C] show ?thesis unfolding link_def
    by (intro exI [of _ "[]"] exI [of _ "\<lparr>win_top = 0, win_missing = {}, win_parked = skipped_len (skipped t)\<rparr>"]) auto
qed

section \<open>Properties\<close>

text \<open>C1: Two applications over the relay see two lossless FIFO channels of texts.  For clients whose sessions are
  paired, every interleaving of sends, relay turns and receives of both sides gives the results of plain queues: every
  send of at most 504 bytes of UTF-8 without NUL returns OK, the relay forwards each message to the other side, and
  each receive returns OK with exactly the oldest text on its way, in both directions at once and without a limit on
  the number of messages in flight.\<close>

theorem end_to_end_fifo:
  assumes "crypto_lens C" "aead_ok C" "length rt \<le> 512" "2048 \<le> cap"
    and "paired (hnd_session (ffi_inner fa)) (hnd_session (ffi_inner fb))"
    and "paired (hnd_session (ffi_inner fb)) (hnd_session (ffi_inner fa))"
    and "wf_ffi fa" "wf_ffi fb" "room_for N (hnd_session (ffi_inner fa))" "room_for N (hnd_session (ffi_inner fb))"
    and "ops_ok queue_step (e2e_permitted N) queues_start ops"
  shows "fst (run_ops (e2e_step C from_seed rt cap) (e2e_start fa fb) ops) = fst (run_ops queue_step queues_start ops)"
proof -
  have "e2e_rel C rt cap N (e2e_start fa fb) queues_start"
    using assms(1-4,7,8) paired_link [OF assms(5,9)] paired_link [OF assms(6,10)]
    by (intro e2e_relI [of _ _ _ _ SideA]) (simp_all add: e2e_start_def queues_start_def)
  from e2e.run_refines [OF this assms(11)] show ?thesis by blast
qed

theorem end_to_end_fifo_witness:
  "fst (run_ops (e2e_step fixture_crypto (\<lambda>s. 5) [1, 2, 3] 4096)
      (e2e_start (gary_session_new_initiator fixture_crypto) (gary_session_new fixture_crypto) :: unit e2e)
      [ClientSend SideA [0x68, 0x69] [] [], ClientSend SideB [0x79, 0x6f] [] [], ClientSend SideA [0xC3, 0xA9] [] [],
       RelayTurn SideB, RelayTurn SideA, ClientRecv SideA, RelayTurn SideA, ClientRecv SideB, ClientRecv SideB, ClientRecv SideB])
   = [SendCode 0, SendCode 0, SendCode 0, Forwarded, Forwarded, RecvText 0 [0x79, 0x6f], Forwarded,
      RecvText 0 [0x68, 0x69], RecvText 0 [0xC3, 0xA9], Idle]"
proof -
  note ok = fixture_crypto_ok
  have nz: "x \<noteq> 0 \<Longrightarrow> x # xs \<noteq> replicate n 0" for x :: byte and xs n by (cases n) simp_all
  have room: "room_for 10 (hnd_session (ffi_inner (gary_session_new_initiator fixture_crypto)))"
    "room_for 10 (hnd_session (ffi_inner (gary_session_new fixture_crypto)))"
    unfolding room_for_def
    by (simp_all add: fixture_fresh MAX_SKIP_def)
      (simp_all add: gary_session_new_def gary_session_new_initiator_def ffi_new_def epoch_policy_vector_responder_def
        epoch_policy_vector_initiator_def hnd_recompute_anchor_commitment_def handle_bootstrap_initiator_def
        handle_bootstrap_responder_def recompute_anchor_commitment_def bootstrap_initiator_def bootstrap_responder_def
        fixture_crypto_def DOC_ALICE_RATCHET_PUB_def DOC_EK_A_SEED_def fixture_bob_sk_def Let_def split_beta upt_rec nz)
  show ?thesis
    by (subst end_to_end_fifo [OF ok(1,2) _ _ fixture_paired(1) [OF ok(1,3)] fixture_paired(2) [OF ok(1,3)] _ _ room])
      (simp_all add: fixture_fresh queues_start_def text_ok_def utf8_cont_def gary_codes del: e2e_step.simps)
qed

end
