(* ===== verification/Send_Outcome.thy ===== *)
theory Send_Outcome
  imports End_To_End
begin

text \<open>
  The outcome of the two sending calls of the C interface, decided by the lengths of the arguments, the randomness,
  the buffer and the two send counters alone, and the size of what goes on the wire.
\<close>

section \<open>When a record is made\<close>

definition counters_left :: "session \<Rightarrow> bool" where
  "counters_left s \<longleftrightarrow> unat (send_sym_idx s) + 1 < 2 ^ 64 \<and> unat (send_wire_counter s) + 1 < 2 ^ 64"

lemma encrypt_counters_used:
  assumes "\<not> counters_left s"
  shows "\<exists>e s' r'. encrypt_data_plain512_outer C s pt r = (Err e, s', r')"
  using assms
  by (auto simp: counters_left_def encrypt_data_plain512_outer_def send_step_mk_def advance_wire_counter_def checked_add_def Let_def
      split: prod.splits sum.splits)

lemma encrypt_outcome:
  assumes "crypto_lens C" "aead_ok C" "length pt = 512"
  shows "(\<exists>p s' r'. encrypt_data_plain512_outer C s pt r = (Ok (next_header s 3, p), s', r') \<and> length p = 1024 \<and> counters_left s)
    \<or> (\<exists>e s' r'. encrypt_data_plain512_outer C s pt r = (Err e, s', r') \<and> \<not> counters_left s)"
proof (cases "counters_left s")
  case True
  then show ?thesis using encrypt_data_outer_Ok [OF assms, of s r] opens_length by (auto simp: counters_left_def)
next
  case False
  with encrypt_counters_used [OF False, of C pt r] show ?thesis by auto
qed

lemma build_outcome:
  assumes "crypto_lens C" "aead_ok C" "session_inv (hnd_session (ffi_inner f))"
  shows "(\<exists>op f'. build_data_outer_record_bytes C fs os_seed f c = (Ok op, f') \<and> length op = 1091
        \<and> length c \<le> 504 \<and> os_seed \<noteq> None \<and> counters_left (hnd_session (ffi_inner f)))
    \<or> (\<exists>code f'. build_data_outer_record_bytes C fs os_seed f c = (Err code, f') \<and> code \<noteq> GARY_CODE_OK
        \<and> \<not> (length c \<le> 504 \<and> os_seed \<noteq> None \<and> counters_left (hnd_session (ffi_inner f))))"
proof (cases "data_inner_plaintext C 1 1 c")
  case (Inl e)
  then have "\<not> length c \<le> 504" using data_inner_plaintext_Ok_iff [of C 1 1 c] by auto
  with Inl show ?thesis by (auto simp: build_data_outer_record_bytes_def Let_def latch_wire_def gary_codes)
next
  case (Inr pt)
  then have c: "length c \<le> 504" "length pt = 512"
    using data_inner_plaintext_Ok_iff [of C 1 1 c] data_inner_plaintext_layout [OF assms(1) Inr] by auto
  show ?thesis
  proof (cases os_seed)
    case None
    with Inr show ?thesis by (auto simp: build_data_outer_record_bytes_def Let_def gary_codes)
  next
    case (Some seed)
    from encrypt_outcome [OF assms(1,2) c(2), of "hnd_session (ffi_inner f)" "fs seed"] show ?thesis
    proof (elim disjE exE conjE)
      fix p s' r'
      assume "encrypt_data_plain512_outer C (hnd_session (ffi_inner f)) pt (fs seed) = (Ok (next_header (hnd_session (ffi_inner f)) 3, p), s', r')"
        and "length p = 1024" "counters_left (hnd_session (ffi_inner f))"
      with build_record [where fs = fs and seed = seed, OF assms(3) Inr] c(1) Some show ?thesis by blast
    next
      fix e s' r'
      assume "encrypt_data_plain512_outer C (hnd_session (ffi_inner f)) pt (fs seed) = (Err e, s', r')"
        and "\<not> counters_left (hnd_session (ffi_inner f))"
      with Inr Some show ?thesis
        by (auto simp: build_data_outer_record_bytes_def send_data_plain512_outer_def delegate_rng_def Let_def
            latch_session_err_def error_codes_not_ok)
    qed
  qed
qed

lemma padded_outcome:
  assumes "crypto_lens C" "length op = 1091"
  shows "(\<exists>wr. fst (encode_padded_wire (fill_bytes C) \<lparr>route_token = rt, opaque_bytes = op\<rparr> r) = Ok wr \<and> length wr = 2048
        \<and> length rt \<le> MAX_ROUTE_TOKEN_LEN)
    \<or> (\<exists>e. fst (encode_padded_wire (fill_bytes C) \<lparr>route_token = rt, opaque_bytes = op\<rparr> r) = Err e \<and> \<not> length rt \<le> MAX_ROUTE_TOKEN_LEN)"
proof (cases "length rt \<le> 512")
  case True
  with relay_frame [OF assms(1) True assms(2), of r] show ?thesis by (auto simp: MAX_ROUTE_TOKEN_LEN_def)
next
  case False
  then have "\<not> relay_limits \<lparr>route_token = rt, opaque_bytes = op\<rparr>" by (simp add: relay_limits_def relay_bounds)
  then obtain e where "encode_logical \<lparr>route_token = rt, opaque_bytes = op\<rparr> = Err e"
    by (metis encode_logical_Ok_iff old.sum.exhaust)
  with False show ?thesis by (auto simp: encode_padded_wire_def MAX_ROUTE_TOKEN_LEN_def)
qed

section \<open>Properties\<close>

text \<open>C17: Exactly when a send succeeds, and what it puts on the wire.  With a live session and buffers that are not
  null, sending through the relay call returns OK exactly when the text has at most 504 bytes, the route token is
  within its limit, both draws of randomness succeed, the two send counters have a successor and the buffer takes 2048
  bytes; the message is then exactly 2048 bytes, so its size does not depend on the text, and within the
  limits the relay sets on its WebSocket.  The direct call likewise, with 1091 bytes.\<close>

theorem send_outcome:
  assumes "crypto_lens C" "aead_ok C" "session_inv (hnd_session (ffi_inner f))"
    and "sr = gary_prepare_relay_outbound_utf8 C from_seed os_seed os_seed2 (Some f) (CBuf rt) (CBuf c) False cap False"
    and "so = gary_send_utf8_data_outer C from_seed os_seed (Some f) (CBuf c) False cap False"
  shows "(sr_code sr = GARY_CODE_OK \<longleftrightarrow> length c \<le> 504 \<and> length rt \<le> MAX_ROUTE_TOKEN_LEN \<and> os_seed \<noteq> None \<and> os_seed2 \<noteq> None
        \<and> counters_left (hnd_session (ffi_inner f)) \<and> 2048 \<le> cap)
    \<and> sr_written sr = Some (if sr_code sr = GARY_CODE_OK then 2048 else 0) \<and> length (sr_out sr) = the (sr_written sr)
    \<and> (sr_code so = GARY_CODE_OK \<longleftrightarrow> length c \<le> 504 \<and> os_seed \<noteq> None \<and> counters_left (hnd_session (ffi_inner f)) \<and> 1091 \<le> cap)
    \<and> sr_written so = Some (if sr_code so = GARY_CODE_OK then 1091 else 0) \<and> length (sr_out so) = the (sr_written so)
    \<and> length (sr_out sr) \<le> ws_max_frame_size \<and> length (sr_out sr) \<le> ws_max_message_size"
proof -
  note defs = assms(4,5) gary_prepare_relay_outbound_utf8_def gary_send_utf8_data_outer_def
  show ?thesis
    using build_outcome [OF assms(1-3), of from_seed os_seed c]
  proof (elim disjE exE conjE)
    fix code f'
    assume "build_data_outer_record_bytes C from_seed os_seed f c = (Err code, f')" "code \<noteq> GARY_CODE_OK"
      "\<not> (length c \<le> 504 \<and> os_seed \<noteq> None \<and> counters_left (hnd_session (ffi_inner f)))"
    then show ?thesis by (auto simp: defs gary_codes)
  next
    fix op f'
    assume b: "build_data_outer_record_bytes C from_seed os_seed f c = (Ok op, f')" "length op = 1091"
      "length c \<le> 504" "os_seed \<noteq> None" "counters_left (hnd_session (ffi_inner f))"
    show ?thesis
    proof (cases os_seed2)
      case None
      with b show ?thesis by (auto simp: defs gary_codes latch_wire_def Let_def)
    next
      case (Some seed2)
      from padded_outcome [OF assms(1) b(2), of rt "from_seed seed2"] b Some show ?thesis
        by (elim disjE exE conjE)
          (auto simp: defs latch_wire_def Let_def error_codes_not_ok ws_max_frame_size_def ws_max_message_size_def gary_codes
            dest: error_codes_not_ok [unfolded gary_codes, THEN notE])
    qed
  qed
qed

theorem send_outcome_witness:
  "let sr = gary_prepare_relay_outbound_utf8 fixture_crypto (\<lambda>s. 5) (Some []) (Some []) (Some (gary_session_new fixture_crypto))
              (CBuf [1, 2]) (CBuf [0x68]) False 4096 False
   in sr_code sr = GARY_CODE_OK \<and> length (sr_out sr) = 2048"
  using send_outcome [OF fixture_crypto_ok(1,2), of "gary_session_new fixture_crypto" _ "\<lambda>s. 5" "Some []" "Some []" "[1, 2]" "[0x68]" 4096 _, OF _ refl refl]
    fixture_paired(1) [OF fixture_crypto_ok(1,3)]
  by (simp add: paired_def counters_left_def fixture_fresh MAX_ROUTE_TOKEN_LEN_def Let_def)

end
