(* ===== verification/Session_Bounds.thy ===== *)
theory Session_Bounds
  imports Session_Inbound
begin

text \<open>
  What one inbound record can cost and what a session remembers.  The loop over the gap is bounded by the
  cache, not by the counters a record claims; the set of remembered counters is bounded by the window; and
  forgetting the older ones changes no answer of the replay check.
\<close>

section \<open>Steps of the receive chain\<close>

lemma recv_step_mk_ck:
  "recv_step_mk C s = (x, s') \<Longrightarrow> recv_ck s' = chain_ck C (recv_ck s) (recv_sym_idx s) 1 \<and> skipped s' = skipped s
     \<and> (\<forall>mk. x = Ok mk \<longrightarrow> recv_sym_idx s' = recv_sym_idx s + 1)"
  by (auto simp: recv_step_mk_def Let_def checked_add_def split: prod.splits option.splits if_splits)

lemma fill_loop_work:
  assumes "fill_loop C p n cnt s = (x, s')"
  shows "\<exists>k. recv_ck s' = chain_ck C (recv_ck s) (recv_sym_idx s) k
    \<and> (if x = Ok () then k = n \<and> k + skipped_len (skipped s) \<le> max MAX_SKIP (skipped_len (skipped s))
         \<and> recv_sym_idx s' = recv_sym_idx s + of_nat k
       else k + skipped_len (skipped s) \<le> Suc (max MAX_SKIP (skipped_len (skipped s))))"
  using assms
proof (induction n arbitrary: cnt s)
  case (Suc n)
  obtain y s1 where st: "recv_step_mk C s = (y, s1)" by (cases "recv_step_mk C s")
  note s1 = recv_step_mk_ck [OF st]
  show ?case
  proof (cases y)
    case (Inl e)
    then show ?thesis using Suc.prems st s1 by (intro exI [of _ 1]) auto
  next
    case (Inr mk)
    obtain z M where ins: "skipped_insert (skipped s) p cnt mk = (z, M)" by (cases "skipped_insert (skipped s) p cnt mk")
    show ?thesis
    proof (cases z)
      case (Inl e)
      then show ?thesis using Suc.prems st s1 Inr ins by (intro exI [of _ 1]) auto
    next
      case z: (Inr u)
      let ?s = "s1\<lparr>skipped := M\<rparr>"
      have M: "skipped_len M = Suc (skipped_len (skipped s))" "skipped_len (skipped s) < MAX_SKIP"
        using cache.put_size [of "skipped s" p cnt mk] cache.put_full [of "skipped s" p cnt mk] ins z
        by (auto simp: not_le [symmetric])
      have "fill_loop C p n (cnt + 1) ?s = (x, s')" using Suc.prems st s1 Inr ins z by simp
      from Suc.IH [OF this] have "\<exists>k. recv_ck s' = chain_ck C (recv_ck s1) (recv_sym_idx s1) k \<and>
        (if x = Ok () then k = n \<and> k + skipped_len M \<le> max MAX_SKIP (skipped_len M) \<and> recv_sym_idx s' = recv_sym_idx s1 + of_nat k
         else k + skipped_len M \<le> Suc (max MAX_SKIP (skipped_len M)))"
        by (simp split del: if_split cong: if_cong)
      then obtain k where k: "recv_ck s' = chain_ck C (recv_ck s1) (recv_sym_idx s1) k"
        "if x = Ok () then k = n \<and> k + skipped_len M \<le> max MAX_SKIP (skipped_len M) \<and> recv_sym_idx s' = recv_sym_idx s1 + of_nat k
         else k + skipped_len M \<le> Suc (max MAX_SKIP (skipped_len M))" by blast
      have "recv_ck s' = chain_ck C (recv_ck s) (recv_sym_idx s) (Suc k)"
        using k(1) s1 Inr chain_shift [of C "recv_ck s" "recv_sym_idx s" k] by simp
      then show ?thesis using k(2) M s1 Inr by (intro exI [of _ "Suc k"]) (auto simp: max_def split: if_splits)
    qed
  qed
qed (auto intro: exI [of _ 0])

lemma receive_key_work:
  assumes "receive_key C s p c = (x, s')" "skipped_inv (skipped s)"
  shows "\<exists>k \<le> Suc MAX_SKIP. recv_ck s' = chain_ck C (recv_ck s) (recv_sym_idx s) k"
proof -
  have cap: "skipped_len (skipped s) \<le> MAX_SKIP" by (rule skipped_inv_cap [OF assms(2)])
  have zero: ?thesis if "recv_ck s' = recv_ck s" using that by (intro exI [of _ 0]) simp
  have gap: ?thesis if g: "gap_then_step C s p b c = (x, s')" for b
  proof -
    obtain y s1 where f: "fill_recv_gap_to_counter C s p b c = (y, s1)" by (cases "fill_recv_gap_to_counter C s p b c")
    have "\<exists>k. recv_ck s1 = chain_ck C (recv_ck s) (recv_sym_idx s) k
       \<and> (if y = Ok () then k \<le> MAX_SKIP \<and> recv_sym_idx s1 = recv_sym_idx s + of_nat k else k \<le> Suc MAX_SKIP)"
    proof (cases "fill_loop C p (unat (c - b)) b s = (y, s1)")
      case True
      from fill_loop_work [OF this] cap show ?thesis by (auto simp: max_def split: if_splits)
    next
      case False
      then have "s1 = s" using f by (auto simp: fill_recv_gap_to_counter_def Let_def split: if_splits)
      then show ?thesis by (intro exI [of _ 0]) simp
    qed
    then obtain k where k: "recv_ck s1 = chain_ck C (recv_ck s) (recv_sym_idx s) k"
      "if y = Ok () then k \<le> MAX_SKIP \<and> recv_sym_idx s1 = recv_sym_idx s + of_nat k else k \<le> Suc MAX_SKIP" by blast
    show ?thesis
    proof (cases y)
      case (Inl e)
      then show ?thesis using g f k by (auto simp: gap_then_step_def)
    next
      case (Inr u)
      then have "recv_step_mk C s1 = (x, s')" using g f by (simp add: gap_then_step_def)
      from recv_step_mk_ck [OF this] k Inr show ?thesis by (intro exI [of _ "Suc k"]) auto
    qed
  qed
  show ?thesis using assms(1) zero gap
    by (auto simp: receive_key_def split: option.splits prod.splits if_splits)
qed

text \<open>The chain a record is looked up in: the current one, or the one its new ratchet key starts.\<close>

definition chain_at :: "'r crypto \<Rightarrow> session \<Rightarrow> bytes \<Rightarrow> 'r \<Rightarrow> bytes \<times> u64" where
  "chain_at C s p r = (case bind_or_dh_ratchet C s p r of (_, s1, _) \<Rightarrow> (recv_ck s1, recv_sym_idx s1))"

definition steps_within :: "'r crypto \<Rightarrow> session \<Rightarrow> bytes \<Rightarrow> 'r \<Rightarrow> session \<Rightarrow> bool" where
  "steps_within C s p r s' \<longleftrightarrow> recv_ck s' = recv_ck s \<or>
     (\<exists>k \<le> Suc MAX_SKIP. recv_ck s' = chain_ck C (fst (chain_at C s p r)) (snd (chain_at C s p r)) k)"

lemma steps_within_bind:
  assumes "bind_or_dh_ratchet C s p r = (y, s1, r1)" "recv_ck s' = chain_ck C (recv_ck s1) (recv_sym_idx s1) k" "k \<le> Suc MAX_SKIP"
  shows "steps_within C s p r s'"
  using assms by (auto simp: steps_within_def chain_at_def)

lemma decrypt_data_work:
  assumes "decrypt_data C s h ct r = (x, s', r')" "wf_session s"
  shows "steps_within C s (ratchet_pub h) r s'"
proof -
  obtain y s1 r1 where b: "bind_or_dh_ratchet C s (ratchet_pub h) r = (y, s1, r1)"
    by (cases "bind_or_dh_ratchet C s (ratchet_pub h) r")
  obtain k s2 where k: "receive_key C s1 (ratchet_pub h) (counter_be h) = (k, s2)"
    by (cases "receive_key C s1 (ratchet_pub h) (counter_be h)")
  have "skipped_inv (skipped s1)" using bind_skipped [OF b] wf_session_skippedD [OF assms(2)] by simp
  from receive_key_work [OF k this] obtain n where n: "n \<le> Suc MAX_SKIP" "recv_ck s2 = chain_ck C (recv_ck s1) (recv_sym_idx s1) n"
    by blast
  have "recv_ck s' = recv_ck s \<or> recv_ck s' = recv_ck s1 \<or> recv_ck s' = recv_ck s2"
    using assms(1) b k by (auto simp: decrypt_data_def Let_def split: if_splits sum.splits)
  then show ?thesis using steps_within_bind [OF b, of s' 0] steps_within_bind [OF b, of s' n] n
    by (auto simp: steps_within_def)
qed

lemma decrypt_steps_within:
  assumes "wf_session s"
  shows "decrypt_data_outer C s h padded r = (x, s', r') \<Longrightarrow> steps_within C s (ratchet_pub h) r s'"
    and "decrypt_rekey_ctrl_outer C s h padded r = (y, s', r') \<Longrightarrow> steps_within C s (ratchet_pub h) r s'"
proof -
  assume "decrypt_data_outer C s h padded r = (x, s', r')"
  then consider "s' = s" | ct where "decrypt_data C s h ct r = (x, s', r')"
    by (auto simp: decrypt_data_outer_def split: sum.splits)
  then show "steps_within C s (ratchet_pub h) r s'"
    by cases (simp add: steps_within_def, rule decrypt_data_work [OF _ assms])
next
  obtain z s1 r1 where b: "bind_or_dh_ratchet C s (ratchet_pub h) r = (z, s1, r1)"
    by (cases "bind_or_dh_ratchet C s (ratchet_pub h) r")
  assume "decrypt_rekey_ctrl_outer C s h padded r = (y, s', r')"
  then have "recv_ck s' = recv_ck s \<or> recv_ck s' = recv_ck s1"
    using b by (auto simp: decrypt_rekey_ctrl_outer_def Let_def split: if_splits sum.splits)
  then show "steps_within C s (ratchet_pub h) r s'"
    using steps_within_bind [OF b, of s' 0] by (auto simp: steps_within_def)
qed

lemma chain_at_mode: "chain_at C (s\<lparr>mode := m\<rparr>) p r = chain_at C s p r"
  by (auto simp: chain_at_def bind_or_dh_ratchet_def apply_inbound_dh_ratchet_def Let_def
      split: option.splits prod.splits Role.splits)

lemma handle_inbound_steps:
  assumes "session_inv s" "handle_inbound_outer C s rec now r = (res, s', r')"
  shows "steps_within C s (ratchet_pub (rec_header rec)) r s'"
proof -
  obtain m where m: "maybe_expire_reset_pending s now = s\<lparr>mode := m\<rparr>" using maybe_expire_frame by blast
  have wf: "wf_session (s\<lparr>mode := m\<rparr>)" using session_invD(1) [OF assms(1)] by (simp add: wf_session_def)
  have q: "steps_within C (s\<lparr>mode := m\<rparr>) p r t \<longleftrightarrow> steps_within C s p r t" for p t
    by (simp add: steps_within_def chain_at_mode)
  have "steps_within C s p r (s\<lparr>mode := m\<rparr>)" for p by (simp add: steps_within_def)
  then show ?thesis using assms(2) decrypt_steps_within [OF wf, of C "rec_header rec" "payload rec" r, unfolded q]
    by (auto simp: handle_inbound_outer_def m Let_def split: sum.splits if_splits prod.splits)
qed

section \<open>Size of the window\<close>

lemma card_word_interval: "card {a..b} \<le> Suc (unat b - unat a)" for a b :: u64
proof -
  have "inj_on unat {a..b}" by (simp add: inj_on_def word_unat_eq_iff)
  then have "card {a..b} = card (unat ` {a..b})" by (simp add: card_image)
  also have "\<dots> \<le> card {unat a..unat b}"
    by (intro card_mono) (auto simp: word_le_nat_alt)
  finally show ?thesis by simp
qed

lemma window_size:
  assumes "window_ok s"
  shows "card (decrypted_counters s) \<le> Suc MAX_SKIP"
proof (cases "recv_high_water s")
  case None
  with assms show ?thesis by (simp add: window_ok_def)
next
  case (Some hw)
  let ?f = "saturating_sub hw (of_nat MAX_SKIP)"
  have "decrypted_counters s \<subseteq> {?f..hw}" using assms Some by (auto simp: window_ok_def)
  then have "card (decrypted_counters s) \<le> card {?f..hw}" by (intro card_mono) simp_all
  also have "\<dots> \<le> Suc (unat hw - unat ?f)" by (rule card_word_interval)
  also have "\<dots> \<le> Suc MAX_SKIP" by (simp add: unat_saturating_sub MAX_SKIP_def)
  finally show ?thesis .
qed

section \<open>Forgetting loses nothing\<close>

text \<open>The reference: remember every accepted counter for ever.\<close>

definition history_admits :: "u64 list \<Rightarrow> u64 \<Rightarrow> bool" where
  "history_admits hist c \<longleftrightarrow> c \<notin> set hist \<and> (\<forall>d \<in> set hist. saturating_sub d (of_nat MAX_SKIP) \<le> c)"

lemma admits_mark:
  "admits (mark_received s d) c \<longleftrightarrow> admits s c \<and> c \<noteq> d \<and> saturating_sub d (of_nat MAX_SKIP) \<le> c"
proof (cases "recv_high_water s")
  case (Some hw)
  have "saturating_sub (max hw d) (of_nat MAX_SKIP)
      = max (saturating_sub hw (of_nat MAX_SKIP)) (saturating_sub d (of_nat MAX_SKIP))"
    by (cases hw d rule: le_cases) (simp_all add: max_absorb1 max_absorb2 saturating_sub_mono)
  with Some show ?thesis by (auto simp: admits_iff)
qed (auto simp: admits_iff)

lemma session_trace_history:
  assumes "session_trace C s0 evs s" "\<And>c. admits s0 c"
  shows "admits s c \<longleftrightarrow> history_admits (accepted evs) c"
  using assms
proof induction
  case (step evs s ev s')
  note eff = session_step_effect [OF step.hyps(2)]
  then show ?case using step.IH [OF step.prems]
    by (cases ev) (auto simp: step_effect_def admits_mark history_admits_def)
qed (simp add: history_admits_def)

section \<open>Properties\<close>

text \<open>C13: Whatever counter an inbound record carries, handling it ends after at most 2001 steps of a receive
  chain (the current one, or the one its ratchet key starts), although the loop ranges over all counters between
  the high water mark and the record's, and the sum that guards it can wrap.  Afterwards the cache holds at most
  2000 keys and the replay window at most 2001 counters.\<close>

theorem inbound_work_bounded:
  assumes "crypto_lens C" "session_inv s" "wf_header (rec_header rec)"
    and "handle_inbound_outer C s rec now r = (res, s', r')"
  shows "(recv_ck s' = recv_ck s \<or> (\<exists>k \<le> 2001. recv_ck s' =
            chain_ck C (fst (chain_at C s (ratchet_pub (rec_header rec)) r)) (snd (chain_at C s (ratchet_pub (rec_header rec)) r)) k))
    \<and> skipped_len (skipped s') \<le> 2000 \<and> card (decrypted_counters s') \<le> 2001"
proof -
  have inv: "session_inv s'" by (rule handle_inbound_inv [OF assms(1,3,2,4)])
  then have "skipped_len (skipped s') \<le> MAX_SKIP" by (intro skipped_inv_cap wf_session_skippedD session_invD(1))
  moreover have "card (decrypted_counters s') \<le> Suc MAX_SKIP" using inv by (intro window_size) (simp add: session_inv_def)
  ultimately show ?thesis using handle_inbound_steps [OF assms(2,4)] by (simp add: steps_within_def MAX_SKIP_def)
qed

theorem inbound_work_bounded_witness:
  "card (decrypted_counters (fst (snd (handle_inbound_outer sample_crypto sample_b
     \<lparr>rec_header = (next_header sample_a 3)\<lparr>counter_be := - 1\<rparr>, payload = []\<rparr> 0 0)))) \<le> 2001"
proof -
  have inv: "session_inv sample_a" "session_inv sample_b" using sample_paired by (simp_all add: paired_def)
  then have "wf_header ((next_header sample_a 3)\<lparr>counter_be := - 1\<rparr>)"
    using next_header_wf [OF session_invD(1) [OF inv(1)]] by (simp add: wf_header_def)
  then show ?thesis
    using inbound_work_bounded [OF sample_lens inv(2), of "\<lparr>rec_header = (next_header sample_a 3)\<lparr>counter_be := - 1\<rparr>, payload = []\<rparr>"
        0 0] by (simp add: prod_eq_iff)
qed

text \<open>C12: The pruned window answers like one that never forgets: along every run of a fresh session the replay
  check admits exactly the counters that were not accepted before and are at most 2000 below every accepted
  one.\<close>

theorem replay_window_equivalence:
  assumes "session_trace C s0 evs s" "recv_high_water s0 = None" "decrypted_counters s0 = {}"
  shows "replay_precheck s c = Ok () \<longleftrightarrow>
    c \<notin> set (accepted evs) \<and> (\<forall>d \<in> set (accepted evs). saturating_sub d (of_nat MAX_SKIP) \<le> c)"
  using session_trace_history [OF assms(1), of c] assms(2,3) by (simp add: admits_iff history_admits_def flip: admits_def)

theorem replay_window_equivalence_witness:
  "\<exists>b1. session_trace sample_crypto sample_b [Accept (next_header sample_a 3)] b1
     \<and> replay_precheck b1 0 \<noteq> Ok () \<and> replay_precheck b1 5 = Ok ()"
proof -
  obtain b1 where t: "session_trace sample_crypto sample_b [Accept (next_header sample_a 3)] b1" using sample_traces by blast
  have fresh: "recv_high_water sample_b = None" "decrypted_counters sample_b = {}"
    by (simp_all add: sample_b_def bootstrap_responder_def Let_def split_beta)
  show ?thesis using t replay_window_equivalence [OF t fresh, of 0] replay_window_equivalence [OF t fresh, of 5]
    by (auto simp: next_header_def sample_fresh saturating_sub_def MAX_SKIP_def)
qed

end
