(* ===== verification/Panic_Free.thy ===== *)
theory Panic_Free
  imports Storage Wire_Relay "HOL-Library.Monad_Syntax"
begin

text \<open>
  The decoders of untrusted bytes once more, as programs that can panic.  \<open>None\<close> is a panic: an index or a
  slice out of range, an \<open>unwrap()\<close> of a failed array conversion, an overflowing \<open>usize\<close> operation (as in a
  debug build), or a failed \<open>debug_assert_eq!\<close>.  Each definition follows the source expression by
  expression; the lemmas show that none of them is ever \<open>None\<close> and that the value is the one of the plain
  definition.
\<close>

section \<open>Expressions that can panic\<close>

definition index_chk :: "'a list \<Rightarrow> nat \<Rightarrow> 'a option" where
  "index_chk xs i = (if i < length xs then Some (xs ! i) else None)"

definition slice_chk :: "'a list \<Rightarrow> nat \<Rightarrow> nat \<Rightarrow> 'a list option" where
  "slice_chk xs i j = (if i \<le> j \<and> j \<le> length xs then Some (bslice i j xs) else None)"

definition tail_chk :: "'a list \<Rightarrow> nat \<Rightarrow> 'a list option" where
  "tail_chk xs i = (if i \<le> length xs then Some (drop i xs) else None)"

text \<open>\<open>xs[i..j].try_into().unwrap()\<close> at type \<open>[u8; n]\<close>.\<close>

definition array_chk :: "nat \<Rightarrow> 'a list \<Rightarrow> 'a list option" where
  "array_chk n xs = (if length xs = n then Some xs else None)"

definition field_chk :: "nat \<Rightarrow> 'a list \<Rightarrow> nat \<Rightarrow> nat \<Rightarrow> 'a list option" where
  "field_chk n xs i j = Option.bind (slice_chk xs i j) (array_chk n)"

definition add_chk :: "nat \<Rightarrow> nat \<Rightarrow> nat option" where
  "add_chk a b = (if a + b < usize_bound then Some (a + b) else None)"

definition mul_chk :: "nat \<Rightarrow> nat \<Rightarrow> nat option" where
  "mul_chk a b = (if a * b < usize_bound then Some (a * b) else None)"

definition debug_assert_eq :: "'a \<Rightarrow> 'a \<Rightarrow> unit option" where
  "debug_assert_eq a b = (if a = b then Some () else None)"

text \<open>\<open>?\<close> inside a function that can also panic.\<close>

definition try_chk :: "'e + 'a \<Rightarrow> ('a \<Rightarrow> ('e + 'b) option) \<Rightarrow> ('e + 'b) option" where
  "try_chk r f = (case r of Inl e \<Rightarrow> Some (Err e) | Inr x \<Rightarrow> f x)"

lemma index_chk_Some [simp]: "i < length xs \<Longrightarrow> index_chk xs i = Some (xs ! i)"
  by (simp add: index_chk_def)

lemma slice_chk_Some [simp]: "i \<le> j \<Longrightarrow> j \<le> length xs \<Longrightarrow> slice_chk xs i j = Some (bslice i j xs)"
  by (simp add: slice_chk_def)

lemma tail_chk_Some [simp]: "i \<le> length xs \<Longrightarrow> tail_chk xs i = Some (drop i xs)"
  by (simp add: tail_chk_def)

lemma field_chk_Some [simp]: "j = i + n \<Longrightarrow> j \<le> length xs \<Longrightarrow> field_chk n xs i j = Some (bslice i j xs)"
  by (simp add: field_chk_def array_chk_def)

lemma add_chk_Some [simp]: "a + b < usize_bound \<Longrightarrow> add_chk a b = Some (a + b)"
  by (simp add: add_chk_def)

lemma debug_assert_eq_Some [simp]: "debug_assert_eq a a = Some ()"
  by (simp add: debug_assert_eq_def)

lemma try_chk_simps [simp]: "try_chk (Inl e) f = Some (Err e)" "try_chk (Inr x) f = f x"
  by (simp_all add: try_chk_def)

lemma try_chk_Some: "(\<And>x. r = Ok x \<Longrightarrow> f x = Some (g x)) \<Longrightarrow> try_chk r f = Some (result_bind r g)"
  by (cases r) simp_all

section \<open>Wire decoders\<close>

definition header_decode_chk :: "bytes \<Rightarrow> header option" where
  "header_decode_chk b = do {
     v \<leftarrow> index_chk b 0; t \<leftarrow> index_chk b 1; f \<leftarrow> index_chk b 2;
     e \<leftarrow> field_chk 4 b 3 7; sid \<leftarrow> field_chk 16 b 7 23; c \<leftarrow> field_chk 8 b 23 31; p \<leftarrow> field_chk 32 b 31 63;
     Some \<lparr>version = v, hdr_typ = t, flags = f, epoch_be = from_be_bytes e, hdr_session_id = sid,
           counter_be = from_be_bytes c, ratchet_pub = p\<rparr> }"

definition parse_checked_chk :: "bytes \<Rightarrow> (WireError + header) option" where
  "parse_checked_chk s =
     (if length s < Header_LEN then Some (Err Truncated)
      else do {
        arr \<leftarrow> field_chk Header_LEN s 0 Header_LEN;
        h \<leftarrow> header_decode_chk arr;
        try_chk (validate_v0 h) (\<lambda>_. Some (Ok h)) })"

definition init_body_decode_chk :: "bytes \<Rightarrow> (WireError + init_body) option" where
  "init_body_decode_chk b = do {
     r \<leftarrow> field_chk 2 b 98 100;
     (if (from_be_bytes r :: u16) \<noteq> 0 then Some (Err InitReservedNonZero)
      else do {
        s \<leftarrow> field_chk 32 b 0 32; d \<leftarrow> field_chk 32 b 32 64; e \<leftarrow> field_chk 32 b 64 96; i \<leftarrow> field_chk 2 b 96 98;
        r2 \<leftarrow> field_chk 2 b 98 100;
        Some (Ok \<lparr>initiator_sig_pk = s, initiator_dh_pk = d, ephemeral_ek_pub = e, otp_index_be = from_be_bytes i,
                  reserved_be = from_be_bytes r2\<rparr>) }) }"

definition init_ack_core_decode_chk :: "bytes \<Rightarrow> init_ack_core option" where
  "init_ack_core_decode_chk b = do {
     s \<leftarrow> field_chk 32 b 0 32; d \<leftarrow> field_chk 32 b 32 64; n \<leftarrow> field_chk 8 b 64 72;
     Some \<lparr>responder_sig_pk = s, responder_dh_pk = d, ack_nonce_be = from_be_bytes n\<rparr> }"

definition init_ack_wire_decode_chk :: "bytes \<Rightarrow> init_ack_wire option" where
  "init_ack_wire_decode_chk b = do {
     cb \<leftarrow> field_chk 72 b 0 72; core \<leftarrow> init_ack_core_decode_chk cb; m \<leftarrow> field_chk 16 b 72 88;
     Some \<lparr>ack_core = core, wire_confirm_mac = m\<rparr> }"

definition outer_record_decode_chk :: "bytes \<Rightarrow> (WireError + outer_record) option" where
  "outer_record_decode_chk b =
     (if length b < 4 then Some (Err Truncated)
      else do {
        lb \<leftarrow> field_chk 4 b 0 4;
        let rl = unat (from_be_bytes lb :: u32);
        (if rl > MAX_RECORD_BODY_LEN then Some (Err RecordTooLarge)
         else try_chk (ok_or RecordLengthMismatch (checked_add_usize 4 rl)) (\<lambda>total.
           if length b \<noteq> total then Some (Err RecordLengthMismatch)
           else if rl < Header_LEN then Some (Err Truncated)
           else do {
             hb \<leftarrow> slice_chk b 4 (4 + Header_LEN);
             try_chk (if length hb = Header_LEN then Ok hb else Err Truncated) (\<lambda>arr. do {
               h \<leftarrow> header_decode_chk arr;
               try_chk (validate_v0 h) (\<lambda>_. do {
                 p \<leftarrow> tail_chk b (4 + Header_LEN);
                 _ \<leftarrow> debug_assert_eq rl (Header_LEN + length p);
                 Some (Ok \<lparr>rec_header = h, payload = p\<rparr>) }) }) })) })"

definition decode_logical_chk :: "bytes \<Rightarrow> (WireError + relay_outer_envelope) option" where
  "decode_logical_chk b =
     (if length b < 1 + 2 + 4 then Some (Err Truncated)
      else do {
        v \<leftarrow> index_chk b 0;
        (if v \<noteq> RELAY_VERSION_V0 then Some (Err InvalidRelayVersion)
         else do {
           lb \<leftarrow> field_chk 2 b 1 3;
           let rtl = unat (from_be_bytes lb :: u16);
           (if rtl > MAX_ROUTE_TOKEN_LEN then Some (Err RouteTokenTooLong)
            else try_chk (ok_or Truncated (checked_add_usize 3 rtl)) (\<lambda>header_end.
              if length b < saturating_add_usize header_end 4 then Some (Err Truncated)
              else do {
                rt \<leftarrow> slice_chk b 3 header_end;
                e4 \<leftarrow> add_chk header_end 4;
                ob \<leftarrow> field_chk 4 b header_end e4;
                let ol = unat (from_be_bytes ob :: u32);
                try_chk (ok_or OpaqueTooLarge
                    (Option.bind (checked_add_usize header_end 4) (\<lambda>x. checked_add_usize x ol))) (\<lambda>total.
                  if total \<noteq> length b then Some (Err OpaqueLengthMismatch)
                  else if ol > MAX_OUTER_RECORD_SERIALIZED then Some (Err OpaqueTooLarge)
                  else do {
                    e4' \<leftarrow> add_chk header_end 4;
                    p \<leftarrow> tail_chk b e4';
                    _ \<leftarrow> debug_assert_eq (length p) ol;
                    Some (Ok \<lparr>route_token = rt, opaque_bytes = p\<rparr>) }) })) }) })"

definition logical_len_from_prefix_chk :: "bytes \<Rightarrow> (WireError + nat) option" where
  "logical_len_from_prefix_chk b =
     (if length b < 1 + 2 + 4 then Some (Err Truncated)
      else do {
        v \<leftarrow> index_chk b 0;
        (if v \<noteq> RELAY_VERSION_V0 then Some (Err InvalidRelayVersion)
         else do {
           lb \<leftarrow> field_chk 2 b 1 3;
           let rtl = unat (from_be_bytes lb :: u16);
           (if rtl > MAX_ROUTE_TOKEN_LEN then Some (Err RouteTokenTooLong)
            else try_chk (ok_or Truncated (checked_add_usize 3 rtl)) (\<lambda>ol_pos.
              if length b < saturating_add_usize ol_pos 4 then Some (Err Truncated)
              else do {
                e4 \<leftarrow> add_chk ol_pos 4;
                ob \<leftarrow> field_chk 4 b ol_pos e4;
                let ol = unat (from_be_bytes ob :: u32);
                try_chk (ok_or OpaqueTooLarge
                    (Option.bind (checked_add_usize ol_pos 4) (\<lambda>x. checked_add_usize x ol))) (\<lambda>total. Some (Ok total)) })) }) })"

definition decode_padded_wire_chk :: "bytes \<Rightarrow> (WireError + relay_outer_envelope) option" where
  "decode_padded_wire_chk padded = do {
     n \<leftarrow> logical_len_from_prefix_chk padded;
     try_chk n (\<lambda>total.
       if total > length padded then Some (Err Truncated)
       else try_chk (ok_or LogicalTooLarge (smallest_padding_bucket total)) (\<lambda>bucket.
         if length padded \<noteq> bucket then Some (Err PaddingBucketMismatch)
         else do { l \<leftarrow> slice_chk padded 0 total; decode_logical_chk l })) }"

lemma header_decode_safe: "length b = 63 \<Longrightarrow> header_decode_chk b = Some (header_decode b)"
  by (simp add: header_decode_chk_def header_decode_def)

lemma parse_checked_safe: "parse_checked_chk s = Some (parse_checked s)"
  by (auto simp: parse_checked_chk_def parse_checked_def Let_def header_decode_safe intro!: try_chk_Some)

lemma handshake_bodies_safe:
  "length b = 100 \<Longrightarrow> init_body_decode_chk b = Some (init_body_decode b)"
  "length b = 88 \<Longrightarrow> init_ack_wire_decode_chk b = Some (init_ack_wire_decode b)"
  by (simp_all add: init_body_decode_chk_def init_body_decode_def init_ack_wire_decode_chk_def init_ack_wire_decode_def
      init_ack_core_decode_chk_def init_ack_core_decode_def)

lemma outer_record_decode_safe: "outer_record_decode_chk b = Some (outer_record_decode b)"
  by (auto simp: outer_record_decode_chk_def outer_record_decode_def Let_def checked_add_usize_def header_decode_safe
      intro!: try_chk_Some)

text \<open>Up to the length field nothing exceeds 515, and a length field is below \<open>2 ^ 32\<close>.\<close>

lemma small_usize [simp]:
  "a \<le> MAX_ROUTE_TOKEN_LEN \<Longrightarrow> checked_add_usize 3 a = Some (3 + a)"
  "a \<le> MAX_ROUTE_TOKEN_LEN \<Longrightarrow> saturating_add_usize (3 + a) 4 = 7 + a"
  "a \<le> MAX_ROUTE_TOKEN_LEN \<Longrightarrow> add_chk (3 + a) 4 = Some (7 + a)"
  "a \<le> MAX_ROUTE_TOKEN_LEN \<Longrightarrow> checked_add_usize (3 + a) 4 = Some (7 + a)"
  by (auto simp: checked_add_usize_def saturating_add_usize_def add_chk_def MAX_ROUTE_TOKEN_LEN_def usize_bound_def)

lemma prefix_fields:
  assumes "\<not> length b < 1 + 2 + 4"
  shows "index_chk b 0 = Some (b ! 0)" "field_chk 2 b 1 3 = Some (bslice 1 3 b)"
  using assms by (auto simp: index_chk_def)

lemma checked_add_usizeD: "checked_add_usize a b = Some c \<Longrightarrow> c = a + b"
  by (simp add: checked_add_usize_def split: if_splits)

lemma logical_len_safe: "logical_len_from_prefix_chk b = Some (logical_len_from_prefix b)"
proof (cases "length b < 1 + 2 + 4")
  case False
  note f = prefix_fields [OF False]
  let ?a = "unat (from_be_bytes (bslice 1 3 b) :: u16)"
  show ?thesis
  proof (cases "b ! 0 = RELAY_VERSION_V0 \<and> ?a \<le> MAX_ROUTE_TOKEN_LEN \<and> 7 + ?a \<le> length b")
    case True
    then show ?thesis using False
      by (simp add: logical_len_from_prefix_chk_def logical_len_from_prefix_def f Let_def not_less try_chk_def
          split: sum.split option.split del: One_nat_def)
  qed (use False in \<open>auto simp: logical_len_from_prefix_chk_def logical_len_from_prefix_def f Let_def not_less simp del: One_nat_def\<close>)
qed (simp add: logical_len_from_prefix_chk_def logical_len_from_prefix_def)

lemma decode_logical_safe: "decode_logical_chk b = Some (decode_logical b)"
proof (cases "length b < 1 + 2 + 4")
  case False
  note f = prefix_fields [OF False]
  let ?a = "unat (from_be_bytes (bslice 1 3 b) :: u16)"
  show ?thesis
  proof (cases "b ! 0 = RELAY_VERSION_V0 \<and> ?a \<le> MAX_ROUTE_TOKEN_LEN \<and> 7 + ?a \<le> length b")
    case True
    let ?o = "unat (from_be_bytes (bslice (3 + ?a) (7 + ?a) b) :: u32)"
    have "checked_add_usize (7 + ?a) ?o = Some (7 + ?a + ?o)"
      using True unat_bound_u32 [of "from_be_bytes (bslice (3 + ?a) (7 + ?a) b)"]
      by (simp add: checked_add_usize_def usize_bound_def MAX_ROUTE_TOKEN_LEN_def)
    then show ?thesis using False True
      by (auto simp: decode_logical_chk_def decode_logical_def f Let_def not_less debug_assert_eq_def add.commute simp del: One_nat_def)
  qed (use False in \<open>auto simp: decode_logical_chk_def decode_logical_def f Let_def not_less simp del: One_nat_def\<close>)
qed (simp add: decode_logical_chk_def decode_logical_def)

lemma decode_padded_wire_safe: "decode_padded_wire_chk b = Some (decode_padded_wire b)"
  by (auto simp: decode_padded_wire_chk_def decode_padded_wire_def logical_len_safe decode_logical_safe bslice_def
      intro!: try_chk_Some)

section \<open>Decoders of the store\<close>

definition anchor_decode_chk :: "bytes \<Rightarrow> device_state_anchor option" where
  "anchor_decode_chk b = do {
     av \<leftarrow> field_chk 2 b 0 2; pv \<leftarrow> field_chk 2 b 2 4; ks \<leftarrow> field_chk 4 b 4 8; ge \<leftarrow> field_chk 8 b 8 16;
     hw \<leftarrow> field_chk 8 b 16 24; rs \<leftarrow> field_chk 4 b 24 28; sc \<leftarrow> field_chk 32 b 28 60;
     Some \<lparr>anchor_version_be = from_be_bytes av, protocol_version_be = from_be_bytes pv,
           kdf_suite_id_be = from_be_bytes ks, global_epoch_be = from_be_bytes ge,
           highest_wire_seen_be = from_be_bytes hw, ratchet_blob_scheme_be = from_be_bytes rs, state_commitment = sc\<rparr> }"

definition read_u32_chk :: "bytes \<Rightarrow> nat \<Rightarrow> string \<Rightarrow> (StorageError + (u32 \<times> nat)) option" where
  "read_u32_chk b o1 ctx = do {
     e \<leftarrow> add_chk o1 4;
     (if e > length b then Some (Err (BundleDecode ctx))
      else do { v \<leftarrow> field_chk 4 b o1 e; Some (Ok (from_be_bytes v, e)) }) }"

definition take_bytes_chk :: "bytes \<Rightarrow> nat \<Rightarrow> nat \<Rightarrow> string \<Rightarrow> (StorageError + (bytes \<times> nat)) option" where
  "take_bytes_chk b o1 len ctx = do {
     e \<leftarrow> add_chk o1 len;
     (if e > length b then Some (Err (BundleDecode ctx))
      else do { s \<leftarrow> slice_chk b o1 e; Some (Ok (s, e)) }) }"

text \<open>\<open>?\<close> on the result of a call that can panic.\<close>

definition call_chk :: "('e + 'a) option \<Rightarrow> ('a \<Rightarrow> ('e + 'b) option) \<Rightarrow> ('e + 'b) option" where
  "call_chk r f = Option.bind r (\<lambda>x. try_chk x f)"

definition decode_bundle_chk :: "bytes \<Rightarrow> (StorageError + session_export) option" where
  "decode_bundle_chk b =
     (if length b < 4 + 4 then Some (Err (BundleDecode ''truncated header''))
      else do {
        mg \<leftarrow> slice_chk b 0 4;
        (if mg \<noteq> BUNDLE_MAGIC then Some (Err BadMagic)
         else do {
           vb \<leftarrow> field_chk 4 b 4 8;
           (if (from_be_bytes vb :: u32) \<noteq> BUNDLE_VERSION then Some (Err BadMagic)
            else call_chk (read_u32_chk b 8 ''anchor len'') (\<lambda>(alen, o1).
              if unat alen \<noteq> Anchor_LEN then Some (Err (BundleDecode ''anchor len''))
              else call_chk (take_bytes_chk b o1 (unat alen) ''anchor'') (\<lambda>(ab, o2). do {
                ab' \<leftarrow> array_chk Anchor_LEN ab;
                anch \<leftarrow> anchor_decode_chk ab';
                call_chk (read_u32_chk b o2 ''okm len'') (\<lambda>(okml, o3).
                  if unat okml \<noteq> 64 then Some (Err (BundleDecode ''okm len''))
                  else call_chk (take_bytes_chk b o3 (unat okml) ''okm'') (\<lambda>(k, o4). do {
                    k' \<leftarrow> array_chk 64 k;
                    call_chk (take_bytes_chk b o4 16 ''session_id'') (\<lambda>(sid, o5). do {
                      sid' \<leftarrow> array_chk 16 sid;
                      call_chk (take_bytes_chk b o5 4 ''epoch'') (\<lambda>(eb, o6). do {
                        eb' \<leftarrow> array_chk 4 eb;
                        call_chk (read_u32_chk b o6 ''blob len'') (\<lambda>(bl, o7).
                          call_chk (take_bytes_chk b o7 (unat bl) ''blob'') (\<lambda>(blob, o8).
                            if o8 \<noteq> length b then Some (Err (BundleDecode ''trailing garbage''))
                            else Some (Ok \<lparr>ratchet_blob = blob, exp_okm = k', exp_anchor = anch,
                                          exp_session_id = sid', exp_epoch = from_be_bytes eb'\<rparr>))) }) }) })) }))) }) })"

definition meta_decode_chk :: "bytes \<Rightarrow> (StorageError + trusted_anchor_meta) option" where
  "meta_decode_chk b =
     (if length b \<noteq> META_ENCODED_LEN then Some (Err (MetaDecode ''length''))
      else do {
        mg \<leftarrow> slice_chk b 0 4;
        (if mg \<noteq> META_MAGIC then Some (Err (MetaDecode ''magic''))
         else do {
           vb \<leftarrow> field_chk 4 b 4 8;
           (if (from_be_bytes vb :: u32) \<noteq> META_VERSION then Some (Err (MetaDecode ''version''))
            else do {
              sid \<leftarrow> field_chk 16 b 8 24; e \<leftarrow> field_chk 4 b 24 28; ge \<leftarrow> field_chk 8 b 28 36; hs \<leftarrow> field_chk 8 b 36 44;
              sw \<leftarrow> field_chk 8 b 44 52; rh \<leftarrow> field_chk 8 b 52 60; fl \<leftarrow> index_chk b 60; sc \<leftarrow> field_chk 32 b 61 93;
              Some (Ok \<lparr>tm_session_id = sid, tm_epoch = from_be_bytes e, tm_global_epoch_be = from_be_bytes ge,
                tm_highest_wire_seen_be = from_be_bytes hs, tm_send_wire_counter = from_be_bytes sw,
                tm_recv_hw_none = (fl \<noteq> 0), tm_recv_hw_be = from_be_bytes rh, tm_state_commitment = sc\<rparr>) }) }) })"

definition decode_wal_envelope_chk :: "'r crypto \<Rightarrow> bytes \<Rightarrow> (StorageError + (bytes \<times> bytes)) option" where
  "decode_wal_envelope_chk C b =
     (if length b < 4 + 4 + 4 + 4 + 32 then Some (Err EnvelopeTruncated)
      else if length b < 16 then Some (Err BadEnvelopeMagic)
      else do {
        mg \<leftarrow> slice_chk b 0 4;
        (if mg \<noteq> WAL_MAGIC then Some (Err BadEnvelopeMagic)
         else do {
           vb \<leftarrow> field_chk 4 b 4 8;
           (if (from_be_bytes vb :: u32) \<noteq> WAL_VERSION then Some (Err BadEnvelopeMagic)
            else do {
              bl \<leftarrow> field_chk 4 b 8 12; ml \<leftarrow> field_chk 4 b 12 16;
              let bundle_len = unat (from_be_bytes bl :: u32);
              let meta_len = unat (from_be_bytes ml :: u32);
              try_chk (ok_or EnvelopeTruncated
                  (Option.bind (checked_add_usize 16 bundle_len) (\<lambda>x. checked_add_usize x meta_len))) (\<lambda>body_end.
                try_chk (ok_or EnvelopeTruncated (checked_add_usize body_end 32)) (\<lambda>total.
                  if length b \<noteq> total then Some (Err EnvelopeTruncated)
                  else do {
                    m1 \<leftarrow> add_chk 16 bundle_len;
                    bb \<leftarrow> slice_chk b 16 m1;
                    m2 \<leftarrow> add_chk 16 bundle_len;
                    mb \<leftarrow> slice_chk b m2 body_end;
                    e2 \<leftarrow> add_chk body_end 32;
                    got \<leftarrow> field_chk 32 b body_end e2;
                    (if wal_checksum C (of_nat bundle_len) (of_nat meta_len) bb mb \<noteq> got then Some (Err EnvelopeChecksum)
                     else Some (Ok (bb, mb))) })) }) }) })"

definition decode_entry_chk :: "bytes \<Rightarrow> nat \<Rightarrow> (bytes \<times> bytes) option" where
  "decode_entry_chk body i = do {
     base \<leftarrow> mul_chk i 72;
     e1 \<leftarrow> add_chk base 32; p \<leftarrow> field_chk 32 body base e1;
     s2 \<leftarrow> add_chk base 32; e2 \<leftarrow> add_chk base 40; c \<leftarrow> field_chk 8 body s2 e2;
     s3 \<leftarrow> add_chk base 40; e3 \<leftarrow> add_chk base 72; mk \<leftarrow> field_chk 32 body s3 e3;
     Some (p @ to_be_bytes (from_be_bytes c :: u64), mk) }"

definition decode_blob_v2_chk :: "bytes \<Rightarrow> (SessionError + parsed_ratchet_blob) option" where
  "decode_blob_v2_chk b =
     (if length b < BLOB_V2_PREFIX_LEN then Some (Err InvalidHeader)
      else do {
        v \<leftarrow> index_chk b 0;
        (if v \<noteq> 2 then Some (Err InvalidHeader)
         else do {
           fl \<leftarrow> index_chk b 1;
           try_chk (from_role_flag fl) (\<lambda>role. do {
             rk \<leftarrow> field_chk 32 b 2 34; cks \<leftarrow> field_chk 32 b 34 66; ckr \<leftarrow> field_chk 32 b 66 98;
             sk \<leftarrow> field_chk 32 b 98 130; pk \<leftarrow> field_chk 32 b 130 162; peer \<leftarrow> field_chk 32 b 162 194;
             sc \<leftarrow> field_chk 8 b 194 202; rh \<leftarrow> field_chk 8 b 202 210; ss \<leftarrow> field_chk 8 b 210 218; rs \<leftarrow> field_chk 8 b 218 226;
             nb \<leftarrow> field_chk 4 b 226 230;
             let n = unat (from_be_bytes nb :: u32);
             body \<leftarrow> tail_chk b 230;
             sz \<leftarrow> mul_chk n 72;
             (if length body \<noteq> sz then Some (Err InvalidHeader)
              else do {
                pairs \<leftarrow> those (map (decode_entry_chk body) [0..<n]);
                try_chk (restore_sorted_entries pairs) (\<lambda>skipped.
                  Some (Ok \<lparr>pb_role = role, pb_rk = rk, pb_cks = cks, pb_ckr = ckr, pb_dh_ratchet_sk = sk,
                    pb_dh_ratchet_pk = pk, pb_peer_ratchet_pub = peer, pb_send_count_be = from_be_bytes sc,
                    pb_recv_high_water_be = from_be_bytes rh, pb_send_sym_idx_be = from_be_bytes ss,
                    pb_recv_sym_idx_be = from_be_bytes rs, pb_skipped = skipped\<rparr>)) }) }) }) })"

lemma anchor_decode_safe: "length b = 60 \<Longrightarrow> anchor_decode_chk b = Some (anchor_decode b)"
  by (simp add: anchor_decode_chk_def anchor_decode_def)

lemma meta_decode_safe: "meta_decode_chk b = Some (meta_decode b)"
  by (auto simp: meta_decode_chk_def meta_decode_def META_ENCODED_LEN_def)

lemma decode_wal_envelope_safe: "decode_wal_envelope_chk C b = Some (decode_wal_envelope C b)"
proof -
  have "unat (from_be_bytes (bslice 8 12 b) :: u32) < 2 ^ 32" "unat (from_be_bytes (bslice 12 16 b) :: u32) < 2 ^ 32"
    by (rule unat_bound_u32)+
  then show ?thesis
    by (auto simp: decode_wal_envelope_chk_def decode_wal_envelope_def Let_def checked_add_usize_def usize_bound_def add_chk_def)
qed

lemma cursor_safe:
  "o1 + 4 < usize_bound \<Longrightarrow> read_u32_chk b o1 ctx = Some (read_u32 b o1 ctx)"
  "o1 + n < usize_bound \<Longrightarrow> take_bytes_chk b o1 n ctx = Some (take_bytes b o1 n ctx)"
  by (auto simp: read_u32_chk_def read_u32_def take_bytes_chk_def take_bytes_def)

lemma call_read_u32:
  "o1 + 4 < usize_bound \<Longrightarrow> (\<And>v. o1 + 4 \<le> length b \<Longrightarrow> f (v, o1 + 4) = Some (g (v, o1 + 4)))
     \<Longrightarrow> call_chk (read_u32_chk b o1 ctx) f = Some (result_bind (read_u32 b o1 ctx) g)"
  by (auto simp: cursor_safe read_u32_def call_chk_def)

lemma call_take_bytes:
  "o1 + n < usize_bound
     \<Longrightarrow> (\<And>v. length v = n \<Longrightarrow> o1 + n \<le> length b \<Longrightarrow> f (v, o1 + n) = Some (g (v, o1 + n)))
     \<Longrightarrow> call_chk (take_bytes_chk b o1 n ctx) f = Some (result_bind (take_bytes b o1 n ctx) g)"
  by (auto simp: cursor_safe take_bytes_def call_chk_def)

lemma decode_bundle_safe: "decode_bundle_chk b = Some (decode_bundle b)"
proof -
  have blob: "unat (v :: u32) < 18446744073709551452" for v using unat_bound_u32 [of v] by simp
  show ?thesis
    unfolding decode_bundle_chk_def decode_bundle_def
    by (auto simp: Anchor_LEN_def usize_bound_def blob array_chk_def anchor_decode_safe
        intro!: call_read_u32 call_take_bytes)
qed

lemma decode_entry_safe:
  assumes "length body = n * 72" "n < 2 ^ 32" "i < n"
  shows "decode_entry_chk body i = Some (decode_entry body i)"
proof -
  have "i * 72 + 72 \<le> n * 72" using assms(3) by simp
  then have "i * 72 + 72 \<le> length body" "i * 72 + 72 < usize_bound" using assms(1,2) by (simp_all add: usize_bound_def)
  then show ?thesis by (simp add: decode_entry_chk_def decode_entry_def mul_chk_def Let_def)
qed

lemma those_Some: "(\<And>x. x \<in> set xs \<Longrightarrow> f x = Some (g x)) \<Longrightarrow> those (map f xs) = Some (map g xs)"
  by (induction xs) simp_all

lemma decode_blob_v2_safe: "decode_blob_v2_chk b = Some (decode_blob_v2 b)"
proof (cases "length b < BLOB_V2_PREFIX_LEN")
  case False
  let ?n = "unat (from_be_bytes (bslice 226 230 b) :: u32)"
  have l: "230 \<le> length b" using False by (simp add: BLOB_V2_PREFIX_LEN_def)
  then have ix: "index_chk b 0 = Some (b ! 0)" by (auto simp: index_chk_def)
  have n: "?n < 2 ^ 32" by (rule unat_bound_u32)
  then have m: "mul_chk ?n 72 = Some (?n * 72)" by (simp add: mul_chk_def usize_bound_def)
  have "those (map (decode_entry_chk (drop 230 b)) [0..<?n]) = Some (map (decode_entry (drop 230 b)) [0..<?n])"
    if "length (drop 230 b) = ?n * 72"
    using decode_entry_safe [OF that n] by (intro those_Some) simp
  then show ?thesis using False l
    by (auto simp: decode_blob_v2_chk_def decode_blob_v2_def Let_def ix m intro!: try_chk_Some)
qed (simp add: decode_blob_v2_chk_def decode_blob_v2_def)

section \<open>Properties\<close>

text \<open>C15: No byte string makes a decoder of untrusted input panic, not even in a debug build: every index, slice,
  array conversion, length sum and debug assertion in the header, outer record, relay envelope, store envelope,
  bundle, meta and ratchet blob decoders is in range for every input, and the result is the one of the decoder.\<close>

theorem decoders_never_panic:
  "parse_checked_chk b = Some (parse_checked b)
   \<and> outer_record_decode_chk b = Some (outer_record_decode b)
   \<and> decode_logical_chk b = Some (decode_logical b)
   \<and> decode_padded_wire_chk b = Some (decode_padded_wire b)
   \<and> decode_wal_envelope_chk C b = Some (decode_wal_envelope C b)
   \<and> decode_bundle_chk b = Some (decode_bundle b)
   \<and> meta_decode_chk b = Some (meta_decode b)
   \<and> decode_blob_v2_chk b = Some (decode_blob_v2 b)"
  by (simp add: parse_checked_safe outer_record_decode_safe decode_logical_safe decode_padded_wire_safe
      decode_wal_envelope_safe decode_bundle_safe meta_decode_safe decode_blob_v2_safe)

end
