(* ===== verification/Session_Debug.thy ===== *)
theory Session_Debug
  imports Session_Bounds Panic_Free
begin

text \<open>
  The inbound path of a session in a debug build, where overflowing arithmetic panics (\<open>None\<close>).  The only
  unchecked sum on the path is the guard \<open>self.skipped.len() + additional_skips\<close> of
  \<^verbatim>\<open>fill_recv_gap_to_counter\<close>; the slice \<open>logical[24..]\<close> is the only one that could be out of range.  Below
  counters near the end of the \<open>u64\<close> range both builds agree; at the end, the guard overflows.
\<close>

section \<open>The inbound path with overflow checks\<close>

definition fill_recv_gap_to_counter_chk ::
  "'r crypto \<Rightarrow> session \<Rightarrow> bytes \<Rightarrow> u64 \<Rightarrow> u64 \<Rightarrow> ((SessionError + unit) \<times> session) option" where
  "fill_recv_gap_to_counter_chk C s pub base target =
     (if base \<ge> target then Some (Ok (), s)
      else do {
        let additional_skips = unat (target - base);
        sum \<leftarrow> add_chk (skipped_len (skipped s)) additional_skips;
        (if sum > MAX_SKIP then Some (Err MaxSkipExceeded, s)
         else Some (fill_loop C pub (unat (target - base)) base s)) })"

definition gap_then_step_chk ::
  "'r crypto \<Rightarrow> session \<Rightarrow> bytes \<Rightarrow> u64 \<Rightarrow> u64 \<Rightarrow> ((SessionError + bytes) \<times> session) option" where
  "gap_then_step_chk C s sender_pub base c = do {
     (x, s1) \<leftarrow> fill_recv_gap_to_counter_chk C s sender_pub base c;
     Some (case x of Inl e \<Rightarrow> (Err e, s1) | Inr _ \<Rightarrow> recv_step_mk C s1) }"

definition receive_key_chk :: "'r crypto \<Rightarrow> session \<Rightarrow> bytes \<Rightarrow> u64 \<Rightarrow> ((SessionError + bytes) \<times> session) option" where
  "receive_key_chk C s sender_pub c =
     (case skipped_take (skipped s) sender_pub c of
        (Some mk, m) \<Rightarrow> Some (Ok mk, s\<lparr>skipped := m\<rparr>)
      | (None, _) \<Rightarrow>
          (case recv_high_water s of
             Some hw \<Rightarrow>
               if c \<le> hw then Some (Err ReplayRejected, s)
               else gap_then_step_chk C s sender_pub (saturating_add hw 1) c
           | None \<Rightarrow> gap_then_step_chk C s sender_pub 0 c))"

definition decrypt_data_chk ::
  "'r crypto \<Rightarrow> session \<Rightarrow> header \<Rightarrow> bytes \<Rightarrow> 'r \<Rightarrow> ((SessionError + bytes) \<times> session \<times> 'r) option" where
  "decrypt_data_chk C s h ciphertext r =
     (if version h \<noteq> 1 \<or> hdr_typ h \<noteq> 0x03 then Some (Err InvalidHeader, s, r)
      else if hdr_session_id h \<noteq> session_id s \<or> epoch_be h \<noteq> epoch s then Some (Err StaleEpochRejected, s, r)
      else let c = counter_be h in
        (case replay_precheck s c of
           Inl e \<Rightarrow> Some (Err e, s, r)
         | Inr _ \<Rightarrow>
             (case bind_or_dh_ratchet C s (ratchet_pub h) r of
                (Inl e, s1, r1) \<Rightarrow> Some (Err e, s1, r1)
              | (Inr _, s1, r1) \<Rightarrow> do {
                  (k, s2) \<leftarrow> receive_key_chk C s1 (ratchet_pub h) c;
                  Some (case k of
                     Inl e \<Rightarrow> (Err e, s2, r1)
                   | Inr mk \<Rightarrow>
                       (case xdecrypt C mk (nonce_data C mk h) ciphertext (header_encode h) of
                          Inl _ \<Rightarrow> (Err DecryptionFailed, s2, r1)
                        | Inr pt \<Rightarrow>
                            (case try_into_array InvalidHeader DATA_INNER_FIXED pt of
                               Inl e \<Rightarrow> (Err e, s2, r1)
                             | Inr pt_arr \<Rightarrow> (Ok pt_arr, mark_received s2 c, r1)))) })))"

definition decrypt_data_outer_chk ::
  "'r crypto \<Rightarrow> session \<Rightarrow> header \<Rightarrow> bytes \<Rightarrow> 'r \<Rightarrow> ((SessionError + bytes) \<times> session \<times> 'r) option" where
  "decrypt_data_outer_chk C s h padded_logical r =
     (case strip_outer_pad padded_logical DATA_LOGICAL of
        Inl _ \<Rightarrow> Some (Err InvalidHeader, s, r)
      | Inr logical \<Rightarrow> do { ct \<leftarrow> tail_chk logical 24; decrypt_data_chk C s h ct r })"

definition decrypt_rekey_ctrl_outer_chk ::
  "'r crypto \<Rightarrow> session \<Rightarrow> header \<Rightarrow> bytes \<Rightarrow> 'r \<Rightarrow> ((SessionError + bytes) \<times> session \<times> 'r) option" where
  "decrypt_rekey_ctrl_outer_chk C s h padded_logical r =
     (if version h \<noteq> 1 \<or> hdr_typ h \<noteq> 0x05 then Some (Err InvalidHeader, s, r)
      else if hdr_session_id h \<noteq> session_id s \<or> epoch_be h \<noteq> epoch s then Some (Err StaleEpochRejected, s, r)
      else let c = counter_be h in
        (case replay_precheck s c of
           Inl e \<Rightarrow> Some (Err e, s, r)
         | Inr _ \<Rightarrow>
             (case bind_or_dh_ratchet C s (ratchet_pub h) r of
                (Inl e, s1, r1) \<Rightarrow> Some (Err e, s1, r1)
              | (Inr _, s1, r1) \<Rightarrow>
                  (case strip_outer_pad padded_logical CTRL_LOGICAL of
                     Inl _ \<Rightarrow> Some (Err InvalidHeader, s1, r1)
                   | Inr logical \<Rightarrow> do {
                       ct \<leftarrow> tail_chk logical 24;
                       Some (case decrypt_ctrl_payload C (okm s1) h ct of
                          Inl _ \<Rightarrow> (Err DecryptionFailed, s1, r1)
                        | Inr pt \<Rightarrow> (Ok pt, mark_received s1 c, r1)) }))))"

definition handle_inbound_outer_chk ::
  "'r crypto \<Rightarrow> session \<Rightarrow> outer_record \<Rightarrow> u64 \<Rightarrow> 'r \<Rightarrow> ((SessionError + InboundInner) \<times> session \<times> 'r) option" where
  "handle_inbound_outer_chk C s rec now_ticks r =
     (let s0 = maybe_expire_reset_pending s now_ticks; h = rec_header rec in
      case validate_v0 h of
        Inl _ \<Rightarrow> Some (Err InvalidHeader, s0, r)
      | Inr _ \<Rightarrow>
          if hdr_session_id h \<noteq> session_id s0 then Some (Err UnknownSession, s0, r)
          else (case check_inbound_epoch_policy s0 h of
                  Inl e \<Rightarrow> Some (Err e, s0, r)
                | Inr _ \<Rightarrow>
                    if hdr_typ h = 0x03 then do {
                      (res, s1, r1) \<leftarrow> decrypt_data_outer_chk C s0 h (payload rec) r;
                      Some (map_ok Data res, s1, r1) }
                    else if hdr_typ h = 0x05 then do {
                      (res, s1, r1) \<leftarrow> decrypt_rekey_ctrl_outer_chk C s0 h (payload rec) r;
                      Some (map_ok RekeyPlain res, s1, r1) }
                    else Some (Err InvalidHeader, s0, r)))"

section \<open>Agreement of the builds\<close>

text \<open>The guard cannot overflow for a counter this far from the end, nor while no key is cached.\<close>

definition gap_fits :: "session \<Rightarrow> u64 \<Rightarrow> bool" where
  "gap_fits s c \<longleftrightarrow> unat c + skipped_len (skipped s) < 2 ^ 64"

lemma fill_recv_gap_chk_eq:
  assumes "gap_fits s t"
  shows "fill_recv_gap_to_counter_chk C s p b t = Some (fill_recv_gap_to_counter C s p b t)"
proof (cases "b \<ge> t")
  case False
  let ?d = "unat (t - b)" and ?l = "skipped_len (skipped s)"
  have "?d \<le> unat t" using False by (simp add: unat_sub word_le_nat_alt)
  then have b: "?l + ?d < 2 ^ 64" using assms by (simp add: gap_fits_def)
  then have "unat (of_nat ?l + (t - b) :: u64) = ?l + ?d" by (simp add: unat_word_ariths unat_of_nat)
  then have "of_nat ?l + (t - b) > (of_nat MAX_SKIP :: u64) \<longleftrightarrow> ?l + ?d > MAX_SKIP"
    by (simp add: word_less_nat_alt MAX_SKIP_def del: unat_of_nat)
  then show ?thesis using b False
    by (simp add: fill_recv_gap_to_counter_chk_def fill_recv_gap_to_counter_def Let_def usize_bound_def)
qed (simp add: fill_recv_gap_to_counter_chk_def fill_recv_gap_to_counter_def)

lemma receive_key_chk_eq: "gap_fits s c \<Longrightarrow> receive_key_chk C s p c = Some (receive_key C s p c)"
  by (auto simp: receive_key_chk_def receive_key_def gap_then_step_chk_def gap_then_step_def fill_recv_gap_chk_eq
      split: option.splits prod.splits)

lemma decrypt_data_chk_eq:
  assumes "gap_fits s (counter_be h)"
  shows "decrypt_data_chk C s h ct r = Some (decrypt_data C s h ct r)"
proof -
  obtain y s1 r1 where b: "bind_or_dh_ratchet C s (ratchet_pub h) r = (y, s1, r1)"
    by (cases "bind_or_dh_ratchet C s (ratchet_pub h) r")
  have "gap_fits s1 (counter_be h)" using assms bind_skipped [OF b] by (simp add: gap_fits_def)
  then show ?thesis
    by (auto simp: decrypt_data_chk_def decrypt_data_def b Let_def receive_key_chk_eq split: sum.splits prod.splits)
qed

lemma strip_length: "strip_outer_pad p n = Ok l \<Longrightarrow> length l = n"
  by (auto simp: strip_outer_pad_def split: if_splits)

lemma decrypt_outer_chk_eq:
  "gap_fits s (counter_be h) \<Longrightarrow> decrypt_data_outer_chk C s h p r = Some (decrypt_data_outer C s h p r)"
  "decrypt_rekey_ctrl_outer_chk C s h p r = Some (decrypt_rekey_ctrl_outer C s h p r)"
  by (auto simp: decrypt_data_outer_chk_def decrypt_data_outer_def decrypt_data_chk_eq decrypt_rekey_ctrl_outer_chk_def
      decrypt_rekey_ctrl_outer_def Let_def DATA_LOGICAL_def CTRL_LOGICAL_def DATA_INNER_FIXED_def
      dest!: strip_length split: sum.splits prod.splits)

lemma handle_inbound_chk_eq:
  assumes "gap_fits s (counter_be (rec_header rec))"
  shows "handle_inbound_outer_chk C s rec now r = Some (handle_inbound_outer C s rec now r)"
proof -
  obtain m where m: "maybe_expire_reset_pending s now = s\<lparr>mode := m\<rparr>" using maybe_expire_frame by blast
  have "gap_fits (s\<lparr>mode := m\<rparr>) (counter_be (rec_header rec))" using assms by (simp add: gap_fits_def)
  then show ?thesis
    by (auto simp: handle_inbound_outer_chk_def handle_inbound_outer_def m Let_def decrypt_outer_chk_eq
        split: sum.splits prod.splits)
qed

section \<open>At the end of the counter range\<close>

lemma recv_step_mk_Ok: "unat (recv_sym_idx s) + 1 < 2 ^ 64 \<Longrightarrow> \<exists>mk s1. recv_step_mk C s = (Ok mk, s1)"
  by (simp add: recv_step_mk_def checked_add_def Let_def split_beta)

lemma fill_loop_until_full:
  assumes "k = MAX_SKIP - skipped_len (skipped s)" "skipped_len (skipped s) \<le> MAX_SKIP" "k < n"
    and "unat cnt + n < 2 ^ 64" "unat (recv_sym_idx s) + Suc k < 2 ^ 64"
    and "\<And>d. cnt \<le> d \<Longrightarrow> skipped_lookup (skipped s) p d = None"
  shows "\<exists>s'. fill_loop C p n cnt s = (Err MaxSkipExceeded, s') \<and> skipped_len (skipped s') = MAX_SKIP"
  using assms
proof (induction k arbitrary: n cnt s)
  case 0
  then obtain n' where n: "n = Suc n'" by (cases n) auto
  obtain mk s1 where st: "recv_step_mk C s = (Ok mk, s1)"
    using recv_step_mk_Ok [of s C] 0 by auto
  have "skipped s1 = skipped s" using recv_step_mk_ck [OF st] by simp
  moreover have "skipped_insert (skipped s) p cnt mk = (Err MaxSkipExceeded, skipped s)"
    using 0 by (intro cache.put_full) simp
  ultimately show ?case using 0 st by (auto simp: n)
next
  case (Suc k)
  then obtain n' where n: "n = Suc n'" by (cases n) auto
  obtain mk s1 where st: "recv_step_mk C s = (Ok mk, s1)"
    using recv_step_mk_Ok [of s C] Suc.prems(5) by auto
  note s1 = recv_step_mk_ck [OF st]
  obtain z M where ins: "skipped_insert (skipped s) p cnt mk = (z, M)" by (cases "skipped_insert (skipped s) p cnt mk")
  have z: "z = Ok ()" using cache.put_new [of "skipped s" p cnt mk] Suc.prems(1,6) ins by simp
  have M: "skipped_len M = Suc (skipped_len (skipped s))" "\<And>d. d \<noteq> cnt \<Longrightarrow> skipped_lookup M p d = skipped_lookup (skipped s) p d"
    using cache.put_size [of "skipped s" p cnt mk] cache.put_look [of "skipped s" p cnt mk p] ins z by auto
  have u: "unat (cnt + 1) = unat cnt + 1" "unat (recv_sym_idx s + 1) = unat (recv_sym_idx s) + 1"
    using unat_ctr [of cnt 1] unat_ctr [of "recv_sym_idx s" 1] Suc.prems(4,5) n by simp_all
  have "\<exists>s'. fill_loop C p n' (cnt + 1) (s1\<lparr>skipped := M\<rparr>) = (Err MaxSkipExceeded, s') \<and> skipped_len (skipped s') = MAX_SKIP"
  proof (rule Suc.IH)
    fix d assume "cnt + 1 \<le> d"
    then have "cnt \<le> d" "d \<noteq> cnt" by (auto simp: word_le_nat_alt u)
    then show "skipped_lookup (skipped (s1\<lparr>skipped := M\<rparr>)) p d = None" using M(2) Suc.prems(6) by simp
  qed (use Suc.prems M(1) u s1 n in auto)
  then show ?case using st s1 ins z by (simp add: n)
qed

lemma gap_guard_wraps:
  assumes "recv_high_water s = None" "skipped_inv (skipped s)" "0 < skipped_len (skipped s)"
    and "unat (recv_sym_idx s) = 0" "\<And>d. skipped_lookup (skipped s) p d = None"
  shows "receive_key_chk C s p (- 1) = None"
    and "\<exists>s'. receive_key C s p (- 1) = (Err MaxSkipExceeded, s') \<and> skipped_len (skipped s') = MAX_SKIP"
proof -
  let ?l = "skipped_len (skipped s)"
  have l: "?l \<le> 2000" using skipped_inv_cap [OF assms(2)] by (simp add: MAX_SKIP_def)
  have m1: "unat (- 1 :: u64) = 2 ^ 64 - 1" by (simp add: unsigned_minus_1_eq_mask mask_eq_exp_minus_1)
  obtain M where tk: "skipped_take (skipped s) p (- 1) = (None, M)"
    using assms(5) cache.pull_val [of "skipped s" p "- 1"] by (metis prod.collapse)
  have "add_chk ?l (2 ^ 64 - 1) = None" using assms(3) by (simp add: add_chk_def usize_bound_def)
  then show "receive_key_chk C s p (- 1) = None"
    using tk assms(1) m1 by (simp add: receive_key_chk_def gap_then_step_chk_def fill_recv_gap_to_counter_chk_def)
  have "of_nat ?l + (- 1 :: u64) = of_nat (?l - 1)" using assms(3) by (simp add: of_nat_diff)
  then have guard: "\<not> of_nat ?l + (- 1 :: u64) > of_nat MAX_SKIP"
    using l by (simp add: word_less_nat_alt unat_of_nat MAX_SKIP_def)
  have "MAX_SKIP - ?l < 2 ^ 64 - 1" "unat (recv_sym_idx s) + Suc (MAX_SKIP - ?l) < 2 ^ 64"
    using assms(4) by (simp_all add: MAX_SKIP_def less_imp_diff_less)
  then obtain s' where s': "fill_loop C p (2 ^ 64 - 1) 0 s = (Err MaxSkipExceeded, s')" "skipped_len (skipped s') = MAX_SKIP"
    using fill_loop_until_full [OF refl, of s "2 ^ 64 - 1" 0 p C] l assms(5) by (auto simp: MAX_SKIP_def)
  then have "fill_recv_gap_to_counter C s p 0 (- 1) = (Err MaxSkipExceeded, s')"
    using guard m1 by (simp add: fill_recv_gap_to_counter_def Let_def)
  then show "\<exists>s'. receive_key C s p (- 1) = (Err MaxSkipExceeded, s') \<and> skipped_len (skipped s') = MAX_SKIP"
    using tk assms(1) s'(2) by (simp add: receive_key_def gap_then_step_def)
qed

section \<open>Properties\<close>

text \<open>C16: Below the last 2000 values of the counter range a debug build and a release build treat every inbound
  record alike: no arithmetic overflows, no slice is out of range, and result and session are the same.\<close>

theorem debug_and_release_agree:
  assumes "session_inv s" "unat (counter_be (rec_header rec)) + MAX_SKIP < 2 ^ 64"
  shows "handle_inbound_outer_chk C s rec now r = Some (handle_inbound_outer C s rec now r)"
proof (rule handle_inbound_chk_eq)
  have "skipped_len (skipped s) \<le> MAX_SKIP"
    using assms(1) by (intro skipped_inv_cap wf_session_skippedD session_invD(1))
  then show "gap_fits s (counter_be (rec_header rec))" using assms(2) by (simp add: gap_fits_def)
qed

theorem debug_and_release_agree_witness:
  "handle_inbound_outer_chk sample_crypto sample_b \<lparr>rec_header = next_header sample_a 3, payload = []\<rparr> 0 0
   = Some (handle_inbound_outer sample_crypto sample_b \<lparr>rec_header = next_header sample_a 3, payload = []\<rparr> 0 0)"
  using sample_paired by (intro debug_and_release_agree) (simp_all add: paired_def next_header_def sample_fresh MAX_SKIP_def)

text \<open>C33: The guard of the gap loop overflows at the end of the range.  A session that has received nothing yet and
  has a cached key is sent a DATA record with the last counter and a new ratchet key, with any payload of the right
  size: a debug build panics, and in a release build the sum wraps, the guard lets the record pass, and the cache is
  filled to its bound with keys of the forged chain before the record is refused.\<close>

theorem gap_guard_overflows:
  assumes "session_inv s" "recv_high_water s = None" "0 < skipped_len (skipped s)"
    and "version h = 1" "hdr_typ h = 3" "hdr_session_id h = session_id s" "epoch_be h = epoch s" "counter_be h = - 1"
    and "peer_ratchet_pub s = Some q" "ratchet_pub h \<noteq> q" "\<forall>d. skipped_lookup (skipped s) (ratchet_pub h) d = None"
    and "strip_outer_pad padded DATA_LOGICAL = Ok l"
  shows "decrypt_data_outer_chk C s h padded r = None
    \<and> (\<exists>s' r'. decrypt_data_outer C s h padded r = (Err MaxSkipExceeded, s', r') \<and> skipped_len (skipped s') = MAX_SKIP)"
proof -
  have pre: "replay_precheck s (- 1) = Ok ()"
    using assms(1,2) by (simp add: replay_precheck_def session_inv_def window_ok_def)
  obtain y s1 r1 where b: "bind_or_dh_ratchet C s (ratchet_pub h) r = (y, s1, r1)"
    by (cases "bind_or_dh_ratchet C s (ratchet_pub h) r")
  have y: "y = Ok ()" "recv_high_water s1 = None"
    using bind_or_dh_ratchet_frame [OF b] assms(2) by (auto simp: ratchet_frame_def)
  have "recv_sym_idx s1 = 0"
    using b assms(9,10) by (auto simp: bind_or_dh_ratchet_def apply_inbound_dh_ratchet_def Let_def split: prod.splits Role.splits)
  moreover have "skipped s1 = skipped s" by (rule bind_skipped [OF b])
  moreover have "skipped_inv (skipped s)" using assms(1) by (intro wf_session_skippedD session_invD(1))
  ultimately have "receive_key_chk C s1 (ratchet_pub h) (- 1) = None"
    "\<exists>s'. receive_key C s1 (ratchet_pub h) (- 1) = (Err MaxSkipExceeded, s') \<and> skipped_len (skipped s') = MAX_SKIP"
    using gap_guard_wraps [OF y(2), of "ratchet_pub h" C] assms(3,11) by simp_all
  moreover have "24 \<le> length l" using strip_length [OF assms(12)] by (simp add: DATA_LOGICAL_def)
  ultimately show ?thesis using assms(4-8,12) pre b y(1)
    by (auto simp: decrypt_data_outer_chk_def decrypt_data_outer_def decrypt_data_chk_def decrypt_data_def)
qed

theorem gap_guard_overflows_witness:
  "\<exists>s h padded. session_inv s \<and> counter_be h = - 1 \<and> decrypt_data_outer_chk sample_crypto s h padded 0 = None
    \<and> fst (decrypt_data_outer sample_crypto s h padded 0) = Err MaxSkipExceeded"
proof -
  obtain p q :: bytes where pq: "length p = 32" "length q = 32" "p \<noteq> q"
    by (rule that [of "replicate 32 0" "replicate 32 1"]) simp_all
  obtain v :: bytes where v: "length v = 32" using Ex_list_of_length by blast
  let ?m = "[(cache_key q 0, v)]"
  let ?s = "sample_b\<lparr>peer_ratchet_pub := Some q, skipped := ?m\<rparr>"
  let ?h = "(next_header sample_b 3)\<lparr>counter_be := - 1, ratchet_pub := p\<rparr>"
  have sb: "session_inv sample_b" using sample_paired by (simp add: paired_def)
  have "skipped_inv ?m" using pq v by (simp add: skipped_inv_def MAX_SKIP_def)
  then have "wf_session ?s" using session_invD(1) [OF sb] pq(2) by (simp add: wf_session_def)
  then have inv: "session_inv ?s" by (rule session_inv_frame [OF sb, rotated]) (simp add: ratchet_frame_def)
  have hw: "recv_high_water sample_b = None" by (simp add: sample_b_def bootstrap_responder_def Let_def split_beta)
  obtain padded :: bytes where "length padded = 1024" using Ex_list_of_length by blast
  then have "strip_outer_pad padded DATA_LOGICAL = Ok (take 552 padded)"
    by (simp add: strip_outer_pad_def DATA_LOGICAL_def DATA_INNER_FIXED_def bucket_defs)
  then have "decrypt_data_outer_chk sample_crypto ?s ?h padded 0 = None
    \<and> (\<exists>s' r'. decrypt_data_outer sample_crypto ?s ?h padded 0 = (Err MaxSkipExceeded, s', r')
        \<and> skipped_len (skipped s') = MAX_SKIP)"
    using pq by (intro gap_guard_overflows [OF inv, where q = q])
      (auto simp: hw next_header_def skipped_len_def skipped_lookup_def)
  with inv show ?thesis by (intro exI [of _ ?s] exI [of _ ?h] exI [of _ padded]) auto
qed

end
