(* ===== verification/Fuzz_Targets.thy ===== *)
theory Fuzz_Targets
  imports Session_Debug
begin

text \<open>
  \<^verbatim>\<open>fuzz/fuzz_targets/*.rs\<close>: the five fuzz targets, as functions of the fuzzer's input.  \<open>None\<close> is a panic of
  the target, which is what the fuzzer looks for; fuzz builds have overflow checks and debug assertions on, so the
  targets run the checked decoders and the checked inbound path.  \<open>ChaCha12Rng::from_seed\<close> is a parameter.
\<close>

section \<open>Decoder targets\<close>

definition fuzz_header_parse :: "bytes \<Rightarrow> unit option" where
  "fuzz_header_parse data = do { _ \<leftarrow> parse_checked_chk data; Some () }"

definition fuzz_outer_record_decode :: "bytes \<Rightarrow> unit option" where
  "fuzz_outer_record_decode data = do { _ \<leftarrow> outer_record_decode_chk data; Some () }"

definition fuzz_relay_outer_decode :: "bytes \<Rightarrow> unit option" where
  "fuzz_relay_outer_decode data = do { _ \<leftarrow> decode_padded_wire_chk data; Some () }"

definition from_le_bytes :: "bytes \<Rightarrow> 'a::len word" where
  "from_le_bytes bs = from_be_bytes (rev bs)"

definition fuzz_strip_outer_pad :: "bytes \<Rightarrow> unit option" where
  "fuzz_strip_outer_pad data =
     (if length data < 8 then Some ()
      else do {
        lb \<leftarrow> field_chk 8 data 0 8;
        let logical = unat (from_le_bytes lb :: u64);
        rest \<leftarrow> tail_chk data 8;
        let _ = strip_outer_pad rest logical;
        Some () })"

section \<open>The inbound target\<close>

text \<open>\<open>std::array::from_fn(|i| (i as u8).wrapping_mul(3))\<close> and the two ratchet secrets.\<close>

definition fuzz_okm :: bytes where "fuzz_okm = map (\<lambda>i. of_nat i * 3) [0..<64]"
definition fuzz_alice_sk :: bytes where "fuzz_alice_sk = map of_nat [0..<32]"
definition fuzz_bob_sk :: bytes where "fuzz_bob_sk = map (\<lambda>i. of_nat (i + 40)) [0..<32]"

definition fuzz_session :: "'r crypto \<Rightarrow> session_handle" where
  "fuzz_session C =
     (let sid = replicate 16 0x91; e = 0; anchor = anchor_new_v0 4;
          session = handle_bootstrap_responder C fuzz_okm sid e fuzz_bob_sk
                      (Some (x25519_public C fuzz_alice_sk)) anchor
      in hnd_recompute_anchor_commitment C session)"

definition fuzz_seed :: "bytes \<Rightarrow> bytes option" where
  "fuzz_seed data =
     (let n = min (length data) 32 in do {
        src \<leftarrow> slice_chk data 0 n;
        Some (src @ replicate (32 - n) 0) })"

definition fuzz_handle_inbound_outer ::
  "'r crypto \<Rightarrow> (bytes \<Rightarrow> 'r) \<Rightarrow> bytes \<Rightarrow> session_handle option" where
  "fuzz_handle_inbound_outer C from_seed data =
     (let session = fuzz_session C in do {
        d \<leftarrow> outer_record_decode_chk data;
        (case d of
           Inl _ \<Rightarrow> Some session
         | Inr rec \<Rightarrow> do {
             seed \<leftarrow> fuzz_seed data;
             let rng = from_seed seed;
             let ticks = (case data of [] \<Rightarrow> 0 | b # _ \<Rightarrow> ucast b);
             (_, s, _) \<leftarrow> handle_inbound_outer_chk C (hnd_session session) rec ticks rng;
             Some (session\<lparr>hnd_session := s\<rparr>) }) })"

section \<open>Properties\<close>

lemma fuzz_session_ok:
  assumes "crypto_lens C"
  shows "session_inv (hnd_session (fuzz_session C))" "skipped_len (skipped (hnd_session (fuzz_session C))) = 0"
proof -
  have "session_inv (bootstrap_responder C fuzz_okm (replicate 16 0x91) 0 fuzz_bob_sk
      (Some (x25519_public C fuzz_alice_sk)) (anchor_new_v0 4))"
    using assms by (intro bootstrap_inv)
      (simp_all add: crypto_lensD wf_anchor_def anchor_new_v0_def fuzz_okm_def fuzz_bob_sk_def fuzz_alice_sk_def)
  then show "session_inv (hnd_session (fuzz_session C))"
    using recompute_anchor_commitment_inv [OF assms]
    by (simp add: fuzz_session_def handle_bootstrap_responder_def hnd_recompute_anchor_commitment_def Let_def)
  show "skipped_len (skipped (hnd_session (fuzz_session C))) = 0"
    by (simp add: fuzz_session_def handle_bootstrap_responder_def hnd_recompute_anchor_commitment_def Let_def
        recompute_anchor_commitment_def bootstrap_responder_def split_beta skipped_new_def skipped_len_def)
qed

lemma fuzz_seed_safe: "\<exists>seed. fuzz_seed data = Some seed \<and> length seed = 32"
  by (auto simp: fuzz_seed_def Let_def)

text \<open>C31: No input makes a fuzz target panic: all five return for every byte string, and the inbound target leaves a
  session that satisfies the session invariant, whatever record the bytes decode to.\<close>

theorem fuzz_targets_never_panic:
  assumes "crypto_lens C"
  shows "fuzz_header_parse data = Some () \<and> fuzz_outer_record_decode data = Some ()
    \<and> fuzz_relay_outer_decode data = Some () \<and> fuzz_strip_outer_pad data = Some ()
    \<and> (\<exists>h. fuzz_handle_inbound_outer C from_seed data = Some h \<and> session_inv (hnd_session h))"
proof -
  let ?s = "hnd_session (fuzz_session C)"
  have "\<exists>h. fuzz_handle_inbound_outer C from_seed data = Some h \<and> session_inv (hnd_session h)"
  proof (cases "outer_record_decode data")
    case (Inl e)
    then show ?thesis using fuzz_session_ok(1) [OF assms]
      by (simp add: fuzz_handle_inbound_outer_def outer_record_decode_safe)
  next
    case (Inr rec)
    obtain seed where seed: "fuzz_seed data = Some seed" using fuzz_seed_safe by blast
    let ?t = "case data of [] \<Rightarrow> 0 | b # _ \<Rightarrow> (ucast b :: u64)"
    obtain x s r where i: "handle_inbound_outer C ?s rec ?t (from_seed seed) = (x, s, r)"
      by (cases "handle_inbound_outer C ?s rec ?t (from_seed seed)")
    have "gap_fits ?s (counter_be (rec_header rec))"
      using fuzz_session_ok(2) [OF assms] unat_bound_u64 by (simp add: gap_fits_def)
    then have c: "handle_inbound_outer_chk C ?s rec ?t (from_seed seed) = Some (x, s, r)"
      using i by (simp add: handle_inbound_chk_eq)
    have "wf_header (rec_header rec)" using Inr outer.dec_Ok_iff by (simp add: wf_outer_record_def)
    then have "session_inv s" by (rule handle_inbound_inv [OF assms _ fuzz_session_ok(1) [OF assms] i])
    then show ?thesis using Inr seed c by (simp add: fuzz_handle_inbound_outer_def outer_record_decode_safe Let_def)
  qed
  then show ?thesis
    by (simp add: fuzz_header_parse_def fuzz_outer_record_decode_def fuzz_relay_outer_decode_def fuzz_strip_outer_pad_def
        parse_checked_safe outer_record_decode_safe decode_padded_wire_safe Let_def)
qed

theorem fuzz_targets_never_panic_witness:
  "fuzz_strip_outer_pad [1, 0, 0, 0, 0, 0, 0, 0, 7] = Some ()
   \<and> (\<exists>h. fuzz_handle_inbound_outer sample_crypto length [0, 0, 0, 1] = Some h \<and> session_inv (hnd_session h))"
  using fuzz_targets_never_panic [OF sample_lens, of "[1, 0, 0, 0, 0, 0, 0, 0, 7]" length]
    fuzz_targets_never_panic [OF sample_lens, of "[0, 0, 0, 1]" length] by blast

end
