(* ===== verification/Session_Stuck.thy ===== *)
theory Session_Stuck
  imports Session_Inbound
begin

text \<open>
  What a failed decryption behind a gap leaves behind.  The keys of the gap are cached before the record is
  authenticated and the high water mark stays, so the next record has to fill the same gap again and is
  refused because the first key is already there (\<open>stuck\<close>); every attempt may cost a key of the chain.  No attacker is
  needed: a DATA record that overtakes a REKEY record is enough, because the gap loop takes a chain key for every wire
  counter and REKEY records consume a counter but no key.
\<close>

section \<open>A receiver that refuses every later DATA record\<close>

text \<open>The receiver of the sender \<open>a\<close> has cached a key for the counter of the REKEY that \<open>a\<close> was about to send, has
  stepped its receive chain \<open>k\<close> times, and has otherwise received what \<open>a\<close> had sent.\<close>

definition stuck :: "'r crypto \<Rightarrow> session \<Rightarrow> nat \<Rightarrow> nat \<Rightarrow> session \<Rightarrow> bool" where
  "stuck C a n k t \<longleftrightarrow> wf_session t \<and> mode_ok t \<and> session_id t = session_id a \<and> epoch t = epoch a \<and> okm t = okm a
     \<and> peer_ratchet_pub t = Some (my_ratchet_pub a)
     \<and> recv_ck t = chain_ck C (send_ck a) (send_sym_idx a) k \<and> recv_sym_idx t = send_sym_idx a + of_nat k
     \<and> (case recv_high_water t of None \<Rightarrow> unat (send_wire_counter a) = 0 | Some hw \<Rightarrow> unat hw + 1 = unat (send_wire_counter a))
     \<and> (\<forall>x \<in> decrypted_counters t. x < send_wire_counter a)
     \<and> skipped_len (skipped t) = n \<and> skipped_lookup (skipped t) (my_ratchet_pub a) (send_wire_counter a) \<noteq> None
     \<and> (\<forall>d > send_wire_counter a. skipped_lookup (skipped t) (my_ratchet_pub a) d = None)"

lemma wf_session_mode: "wf_session (t\<lparr>mode := m\<rparr>) = wf_session t"
  by (cases t) (simp add: wf_session_def)

lemma stuck_mode: "stuck C a n k t \<Longrightarrow> mode_ok (t\<lparr>mode := m\<rparr>) \<Longrightarrow> stuck C a n k (t\<lparr>mode := m\<rparr>)"
  by (simp add: stuck_def wf_session_mode)

lemma stuck_step:
  assumes "crypto_lens C" "stuck C a n k t" "unat (send_sym_idx a) + Suc k < 2 ^ 64"
  shows "\<exists>mk t'. recv_step_mk C t = (Ok mk, t') \<and> skipped t' = skipped t \<and> stuck C a n (Suc k) t'"
proof -
  let ?ck = "send_ck a" and ?i = "send_sym_idx a"
  let ?t = "t\<lparr>recv_ck := chain_ck C ?ck ?i (Suc k), recv_sym_idx := ?i + of_nat (Suc k)\<rparr>"
  have st: "recv_step_mk C t = (Ok (chain_mk C ?ck ?i k), ?t)"
    using assms(2,3) by (intro recv_step_mk_sync) (simp_all add: stuck_def)
  then have "wf_session ?t" using recv_step_mk_wf [OF assms(1), of t] assms(2) by (simp add: stuck_def)
  then have "stuck C a n (Suc k) ?t" using assms(2) mode_ok_cong [of ?t t] by (simp add: stuck_def)
  with st show ?thesis by simp
qed

lemma fill_blocked:
  assumes "skipped_lookup (skipped s) p c \<noteq> None" "c < d" "recv_step_mk C s = (Ok mk, s1)" "skipped s1 = skipped s"
  shows "\<exists>e s'. fill_recv_gap_to_counter C s p c d = (Err e, s') \<and> s' \<in> {s, s1}"
proof -
  have "unat (d - c) \<noteq> 0" using assms(2) by (simp add: unat_eq_0)
  then obtain n where n: "unat (d - c) = Suc n" using not0_implies_Suc by blast
  have key: "cache_key p c \<in> fst ` set (skipped s)" using assms(1) by (simp only: skipped_lookup_None not_not)
  have same: "s1\<lparr>skipped := skipped s\<rparr> = s1" using assms(4) by (cases s1) simp
  show ?thesis using assms(2-4) key same
    by (auto simp: fill_recv_gap_to_counter_def n Let_def skipped_insert_def)
qed

lemma stuck_receive_key:
  assumes "crypto_lens C" "stuck C a n k t" "unat (send_sym_idx a) + Suc k < 2 ^ 64" "send_wire_counter a < d"
  shows "\<exists>e t' k'. receive_key C t (my_ratchet_pub a) d = (Err e, t') \<and> stuck C a n k' t' \<and> k \<le> k' \<and> k' \<le> Suc k"
proof -
  let ?c = "send_wire_counter a" and ?p = "my_ratchet_pub a"
  obtain mk t1 where t1: "recv_step_mk C t = (Ok mk, t1)" "skipped t1 = skipped t" "stuck C a n (Suc k) t1"
    using stuck_step [OF assms(1-3)] by blast
  have key: "skipped_lookup (skipped t) ?p ?c \<noteq> None" using assms(2) by (simp add: stuck_def)
  obtain e t' where f: "fill_recv_gap_to_counter C t ?p ?c d = (Err e, t')" "t' \<in> {t, t1}"
    using fill_blocked [OF key assms(4) t1(1,2)] by blast
  have "\<exists>k'. stuck C a n k' t' \<and> k \<le> k' \<and> k' \<le> Suc k" using f(2) assms(2) t1(3) by auto
  moreover have "receive_key C t ?p d = (Err e, t')"
  proof -
    have "fst (skipped_take (skipped t) ?p d) = None" using assms(2,4) by (simp add: skipped_take_result stuck_def)
    then obtain m where t: "skipped_take (skipped t) ?p d = (None, m)" by (metis prod.collapse)
    have g: "gap_then_step C t ?p ?c d = (Err e, t')" using f(1) by (simp add: gap_then_step_def)
    show ?thesis
    proof (cases "recv_high_water t")
      case None
      then have "?c = 0" using assms(2) by (simp add: stuck_def unat_eq_0)
      then show ?thesis using None g t by (simp add: receive_key_def)
    next
      case (Some hw)
      then have u: "unat hw + 1 = unat ?c" using assms(2) by (simp add: stuck_def)
      then have "saturating_add hw 1 = ?c"
        using unat_bound_u64 [of ?c] unat_ctr [of hw 1] by (simp add: saturating_add_def word_unat_eq_iff)
      moreover have "\<not> d \<le> hw" using u assms(4) by (simp add: word_less_nat_alt word_le_nat_alt)
      ultimately show ?thesis using Some g t by (simp add: receive_key_def)
    qed
  qed
  ultimately show ?thesis by blast
qed

lemma stuck_inbound:
  assumes "crypto_lens C" "stuck C a n k t" "unat (send_sym_idx a) + Suc k < 2 ^ 64"
    and "hdr_typ (rec_header rec) = 3" "ratchet_pub (rec_header rec) = my_ratchet_pub a" "send_wire_counter a < counter_be (rec_header rec)"
  shows "\<exists>e t' k'. handle_inbound_outer C t rec now r = (Err e, t', r) \<and> stuck C a n k' t' \<and> k \<le> k' \<and> k' \<le> Suc k"
proof -
  obtain m where m: "maybe_expire_reset_pending t now = t\<lparr>mode := m\<rparr>" using maybe_expire_frame by blast
  let ?t = "t\<lparr>mode := m\<rparr>" and ?h = "rec_header rec"
  have "mode_ok t" using assms(2) by (simp add: stuck_def)
  then have st: "stuck C a n k ?t" using stuck_mode [OF assms(2)] mode_ops_ok(5) [of t now] m by simp
  then have b: "bind_or_dh_ratchet C ?t (my_ratchet_pub a) r = (Ok (), ?t, r)" by (simp add: stuck_def bind_or_dh_ratchet_def)
  obtain e t' k' where k: "receive_key C ?t (my_ratchet_pub a) (counter_be ?h) = (Err e, t')" "stuck C a n k' t'" "k \<le> k'" "k' \<le> Suc k"
    using stuck_receive_key [OF assms(1) st assms(3,6)] by blast
  have "\<exists>e s'. decrypt_data C ?t ?h ct r = (Err e, s', r) \<and> s' \<in> {?t, t'}" for ct
    using b k(1) assms(5) by (auto simp: decrypt_data_def Let_def split: sum.splits)
  then have "\<exists>e s'. decrypt_data_outer C ?t ?h (payload rec) r = (Err e, s', r) \<and> s' \<in> {?t, t'}"
    by (auto simp: decrypt_data_outer_def split: sum.splits)
  then have "\<exists>e s'. handle_inbound_outer C t rec now r = (Err e, s', r) \<and> s' \<in> {?t, t'}"
    using assms(4) by (auto simp: handle_inbound_outer_def m Let_def split: sum.splits)
  then show ?thesis using st k(2-) le_SucI [OF order_refl [of k]] by blast
qed

lemma stuck_deliver:
  assumes "crypto_lens C" "stuck C a n k t" "unat (send_sym_idx a) + (k + length recs) < 2 ^ 64"
    and "\<forall>rec \<in> set recs. hdr_typ (rec_header rec) = 3 \<and> ratchet_pub (rec_header rec) = my_ratchet_pub a
           \<and> send_wire_counter a < counter_be (rec_header rec)"
  shows "\<exists>xs t' k'. deliver C t recs now r = (xs, t', r) \<and> (\<forall>x \<in> set xs. \<exists>e. x = Err e)
    \<and> stuck C a n k' t' \<and> k \<le> k' \<and> k' \<le> k + length recs"
  using assms(2-)
proof (induction recs arbitrary: t k)
  case (Cons rec recs)
  obtain e t1 k1 where h: "handle_inbound_outer C t rec now r = (Err e, t1, r)" "stuck C a n k1 t1" "k \<le> k1" "k1 \<le> Suc k"
    using stuck_inbound [OF assms(1) Cons.prems(1), of rec now r] Cons.prems(2,3) by auto
  have "unat (send_sym_idx a) + (k1 + length recs) < 2 ^ 64" using h(4) Cons.prems(2) by simp
  from Cons.IH [OF h(2) this] Cons.prems(3) obtain xs t' k' where d: "deliver C t1 recs now r = (xs, t', r)"
    "\<forall>x \<in> set xs. \<exists>e. x = Err e" "stuck C a n k' t'" "k1 \<le> k'" "k' \<le> k1 + length recs" by auto
  then have "deliver C t (rec # recs) now r = (Err e # xs, t', r)" "k \<le> k'" "k' \<le> k + length (rec # recs)" using h by simp_all
  with d(2,3) show ?case by (metis set_ConsD)
qed auto

section \<open>When the REKEY arrives after all\<close>

lemma chain_ck_add: "chain_ck C (chain_ck C ck i k) (i + of_nat k) j = chain_ck C ck i (k + j)"
  by (induction j) (simp_all add: add.assoc)

lemma chain_mk_add: "chain_mk C (chain_ck C ck i k) (i + of_nat k) j = chain_mk C ck i (k + j)"
  by (simp add: chain_mk_def chain_ck_add add.assoc)

lemma stuck_precheck: "stuck C a n k t \<Longrightarrow> replay_precheck t (send_wire_counter a) = Ok ()"
  by (fastforce simp: stuck_def replay_precheck_def word_less_nat_alt unat_saturating_sub split: option.splits)

text \<open>The gap closes, but the receiver is in step with the sender's chain from its \<open>k\<close>-th key on.\<close>

lemma stuck_closed:
  assumes "stuck C a n k t" "n + N \<le> MAX_SKIP" "unat (send_sym_idx a) + (k + N) < 2 ^ 64"
    and "unat (send_wire_counter a) + Suc N < 2 ^ 64" "length (my_ratchet_pub a) = 32"
    and "t' = mark_received (t\<lparr>mode := m, peer_ratchet_pub := Some (my_ratchet_pub a)\<rparr>) (send_wire_counter a)"
  shows "in_sync C (chain_ck C (send_ck a) (send_sym_idx a) k) (send_sym_idx a + of_nat k) (send_wire_counter a + 1)
    (my_ratchet_pub a) N t' {} 0"
proof -
  let ?c = "send_wire_counter a" and ?i = "send_sym_idx a"
  have u: "unat (?c + 1) = unat ?c + 1" "unat (?i + of_nat k) = unat ?i + k"
    using unat_ctr [of ?c 1] unat_ctr [of ?i k] assms(3,4) by simp_all
  have hw: "(case recv_high_water t of Some h \<Rightarrow> max h ?c | None \<Rightarrow> ?c) = ?c"
    using assms(1) by (auto simp: stuck_def max_def word_le_nat_alt split: option.splits)
  have ahead: "?c < ?c + 1 + of_nat j" if "unat (?c + 1) + j < 2 ^ 64" for j
    using unat_ctr [OF that] u by (simp add: word_less_nat_alt)
  have "wf_session t" using assms(1) by (simp add: stuck_def)
  then have "wf_session t'" unfolding assms(6) using assms(5) by (intro mark_received_wf) (simp add: wf_session_def)
  moreover have "skipped_lookup (skipped t') (my_ratchet_pub a) (?c + 1 + of_nat j) = None" if "unat (?c + 1) + j < 2 ^ 64" for j
    using ahead [OF that] assms(1,6) by (simp add: stuck_def)
  moreover have "?c + 1 + of_nat j \<notin> decrypted_counters t'" if "j < N" for j
  proof -
    have "\<forall>x \<in> decrypted_counters t. x \<le> ?c" using assms(1) by (auto simp: stuck_def less_imp_le)
    then have "\<forall>x \<in> decrypted_counters t'. x \<le> ?c" by (auto simp: assms(6))
    moreover have "?c < ?c + 1 + of_nat j" using that assms(4) u by (intro ahead) simp
    ultimately show ?thesis using leD by blast
  qed
  ultimately show ?thesis using assms u hw unfolding in_sync_def by (simp add: stuck_def)
qed

text \<open>The overtaking record leaves the receiver stuck, with two keys of the chain spent.\<close>

lemma overtaking_data_sticks:
  assumes "crypto_lens C" "paired a b" "skipped_len (skipped b) + 2 \<le> MAX_SKIP" "unat (send_sym_idx a) + 2 < 2 ^ 64"
    and "unat (send_wire_counter a) + 2 < 2 ^ 64" "h = (next_header a 3)\<lparr>counter_be := send_wire_counter a + 1\<rparr>"
    and "strip_outer_pad pd DATA_LOGICAL = Ok l" "\<nexists>x. opens C (chain_mk C (send_ck a) (send_sym_idx a) 1) h pd x"
  shows "\<exists>b1. handle_inbound_outer C b \<lparr>rec_header = h, payload = pd\<rparr> now r = (Err DecryptionFailed, b1, r)
    \<and> stuck C a (Suc (skipped_len (skipped b))) 2 b1"
proof -
  let ?c = "send_wire_counter a" and ?p = "my_ratchet_pub a" and ?ck = "send_ck a" and ?i = "send_sym_idx a"
  have inv: "session_inv b" using assms(2) by (simp add: paired_def)
  have h: "version h = 1" "hdr_typ h = 3" "flags h = 0" "hdr_session_id h = session_id b" "epoch_be h = epoch b"
    "counter_be h = ?c + of_nat 1" "ratchet_pub h = ?p"
    using assms(2) by (simp_all add: assms(6) next_header_def paired_def)
  obtain m where m: "mode_ok (b\<lparr>mode := m\<rparr>)" "handle_inbound_outer C b \<lparr>rec_header = h, payload = pd\<rparr> now r
      = (case decrypt_data_outer C (b\<lparr>mode := m\<rparr>) h pd r of (res, s1, r1) \<Rightarrow> (map_ok Data res, s1, r1))"
    using handle_inbound_pass [OF session_invD(2) [OF inv] h(1) _ h(3-5), of "\<lparr>rec_header = h, payload = pd\<rparr>" C now r] h(2)
    by auto
  let ?b = "b\<lparr>mode := m\<rparr>" and ?b1 = "b\<lparr>mode := m, peer_ratchet_pub := Some ?p\<rparr>"
  note sync = in_sync_mode [OF paired_in_sync [OF assms(2-5), of C], of m]
  note bnd = in_sync_bind [OF sync]
  obtain M where M: "receive_key C ?b1 ?p (?c + of_nat 1) = (Ok (chain_mk C ?ck ?i 1), ?b1\<lparr>recv_ck := chain_ck C ?ck ?i (Suc 1),
       recv_sym_idx := ?i + of_nat (Suc 1), skipped := M\<rparr>)" "skipped_len M = Suc (skipped_len (skipped b))"
    and look: "\<And>j. unat ?c + j < 2 ^ 64 \<Longrightarrow> skipped_lookup M ?p (?c + of_nat j) =
        (if j < 1 then Some (chain_mk C ?ck ?i j) else skipped_lookup (skipped b) ?p (?c + of_nat j))"
    using receive_key_chain [OF bnd(2), of 1] by auto
  let ?b2 = "?b1\<lparr>recv_ck := chain_ck C ?ck ?i (Suc 1), recv_sym_idx := ?i + of_nat (Suc 1), skipped := M\<rparr>"
  obtain e where "xdecrypt C (chain_mk C ?ck ?i 1) (nonce_data C (chain_mk C ?ck ?i 1) h) (drop 24 l) (header_encode h) = Err e"
    using assms(7,8) unfolding opens_def by (metis old.sum.exhaust)
  then have dec: "decrypt_data_outer C ?b h pd r = (Err DecryptionFailed, ?b2, r)"
    using assms(7) in_sync_precheck [OF sync, of 1] bnd(1) M(1) h by (simp add: decrypt_data_outer_def decrypt_data_def)
  have "skipped_lookup M ?p d = None" if lt: "?c < d" for d
  proof -
    obtain j where j: "d = ?c + of_nat j" "unat ?c + j < 2 ^ 64" using ge_as_ctr [OF less_imp_le [OF lt]] by blast
    then have "0 < j" using lt by (cases j) auto
    then show ?thesis using look [OF j(2)] j assms(2) lt by (simp add: paired_def)
  qed
  moreover have "skipped_lookup M ?p ?c \<noteq> None" using look [of 0] assms(5) by simp
  moreover have "wf_session ?b2" using receive_key_wf [OF assms(1), of ?p ?b1 "?c + of_nat 1"] bnd(2) M(1) by (simp add: in_sync_def)
  moreover have "mode_ok ?b2" using m(1) mode_ok_cong [of ?b2 ?b] by simp
  moreover have "\<forall>x \<in> decrypted_counters b. x < ?c"
    using assms(2) inv by (auto simp: paired_def session_inv_def window_ok_def word_le_nat_alt word_less_nat_alt split: option.splits)
  ultimately have "stuck C a (Suc (skipped_len (skipped b))) 2 ?b2"
    using assms(2) M(2) unfolding stuck_def paired_def by (simp add: numeral_2_eq_2)
  with m(2) dec show ?thesis by simp
qed

section \<open>Property\<close>

text \<open>C32: A DATA record that overtakes a REKEY record stops the conversation.  The sender emits a REKEY and then DATA
  records, and the first DATA record arrives first.  The receiver spends the chain key it was sealed with on the
  counter of the REKEY and tries the next one; if that key does not open this record, it is refused as \<open>DecryptionFailed\<close>,
  and until the REKEY arrives every DATA record of the sender with a later counter is refused, whatever the records,
  in whatever order and however often they arrive.  When the REKEY arrives after all it is accepted, but the receive
  chain is now at least two keys ahead: the \<open>j\<close>-th DATA record opens with the \<open>j\<close>-th key of the sender's chain, and the receiver
  looks for it with key \<open>k + j\<close>, \<open>k \<ge> 2\<close>.\<close>

theorem lost_rekey_blocks_data:
  assumes "crypto_lens C" "aead_ok C" "paired a b" "length body \<le> 256" "\<forall>pt \<in> set pts. length pt = 512" "pts \<noteq> []"
    and "skipped_len (skipped b) + length pts + 1 \<le> MAX_SKIP" "unat (send_wire_counter a) + length pts + 1 < 2 ^ 64"
    and "unat (send_sym_idx a) + (length pts + length late + 2) < 2 ^ 64"
    and "mk = chain_mk C (send_ck a) (send_sym_idx a)"
    and "encrypt_rekey_ctrl_outer C a body r = (Ok (hr, pr), a1, r1)" "send_batch C a1 pts r1 = (Ok recs, a2, r2)"
    and "\<nexists>x. opens C (mk 1) (rec_header (hd recs)) (payload (hd recs)) x"
    and "\<forall>rec \<in> set late. hdr_typ (rec_header rec) = 3 \<and> ratchet_pub (rec_header rec) = my_ratchet_pub a
           \<and> send_wire_counter a < counter_be (rec_header rec)"
  shows "\<exists>b1 xs b2 plain b3 k. handle_inbound_outer C b (hd recs) now r3 = (Err DecryptionFailed, b1, r3)
    \<and> deliver C b1 late now r3 = (xs, b2, r3) \<and> (\<forall>x \<in> set xs. \<exists>e. x = Err e)
    \<and> handle_inbound_outer C b2 \<lparr>rec_header = hr, payload = pr\<rparr> now r3 = (Ok (RekeyPlain plain), b3, r3)
    \<and> ctrl_inner_padded256 C body = Ok plain \<and> 2 \<le> k
    \<and> (\<forall>j < length pts. opens C (mk j) (rec_header (recs ! j)) (payload (recs ! j)) (pts ! j)
         \<and> fst (receive_key C b3 (my_ratchet_pub a) (counter_be (rec_header (recs ! j)))) = Ok (mk (k + j)))"
proof -
  let ?c = "send_wire_counter a" and ?p = "my_ratchet_pub a" and ?ck = "send_ck a" and ?i = "send_sym_idx a"
  let ?n = "Suc (skipped_len (skipped b))" and ?N = "length pts"
  have N: "0 < ?N" using assms(6) by simp
  have c1: "unat ?c + 1 < 2 ^ 64" using assms(8) by simp
  obtain plain l where plain: "hr = next_header a 5" "ctrl_inner_padded256 C body = Ok plain" "strip_outer_pad pr CTRL_LOGICAL = Ok l"
      "decrypt_ctrl_payload C (okm a) (next_header a 5) (drop 24 l) = Ok plain"
    and f: "send_frame a a1" and a1: "send_wire_counter a1 = ?c + 1" "send_ck a1 = ?ck" "send_sym_idx a1 = ?i"
    using encrypt_rekey_outer_Ok [OF assms(1,2,4) c1, of r] assms(11) by auto
  have "unat (send_wire_counter a1) + ?N < 2 ^ 64" "unat (send_sym_idx a1) + ?N < 2 ^ 64"
    using unat_ctr [of ?c 1] assms(8,9) a1 by simp_all
  from send_batch_Ok [OF assms(1,2,5) this, of r1]
  have recs: "length recs = ?N" "\<And>j. j < ?N \<Longrightarrow> rec_header (recs ! j) = (next_header a 3)\<lparr>counter_be := ?c + 1 + of_nat j\<rparr>"
    "\<And>j. j < ?N \<Longrightarrow> opens C (mk j) (rec_header (recs ! j)) (payload (recs ! j)) (pts ! j)"
    using assms(10,12) a1 send_frame_simps [OF f] by (auto simp: next_header_def)
  have hd: "hd recs = recs ! 0" using recs(1) N by (cases recs) simp_all
  obtain l0 where l0: "strip_outer_pad (payload (hd recs)) DATA_LOGICAL = Ok l0" using recs(3) [OF N] hd by (auto simp: opens_def)
  have room: "skipped_len (skipped b) + 2 \<le> MAX_SKIP" "unat ?i + 2 < 2 ^ 64" "unat ?c + 2 < 2 ^ 64" using assms(7-9) N by linarith+
  have h0: "rec_header (hd recs) = (next_header a 3)\<lparr>counter_be := ?c + 1\<rparr>" using recs(2) [OF N] hd by simp
  have eta: "\<lparr>rec_header = rec_header (hd recs), payload = payload (hd recs)\<rparr> = hd recs" by (cases "hd recs") simp
  obtain b1 where b1: "handle_inbound_outer C b (hd recs) now r3 = (Err DecryptionFailed, b1, r3)" "stuck C a ?n 2 b1"
    using overtaking_data_sticks [OF assms(1,3) room h0 l0, of now r3] assms(13) eta by (auto simp: assms(10))
  have "unat ?i + (2 + length late) < 2 ^ 64" using assms(9) by simp
  from stuck_deliver [OF assms(1) b1(2) this assms(14)]
  obtain xs b2 k where b2: "deliver C b1 late now r3 = (xs, b2, r3)" "\<forall>x \<in> set xs. \<exists>e. x = Err e"
    "stuck C a ?n k b2" "2 \<le> k" "k \<le> 2 + length late" by blast
  obtain m where m: "handle_inbound_outer C b2 \<lparr>rec_header = next_header a 5, payload = pr\<rparr> now r3
     = (Ok (RekeyPlain plain), mark_received (b2\<lparr>mode := m, peer_ratchet_pub := Some ?p\<rparr>) ?c, r3)"
    using rekey_accepts [OF _ _ _ _ _ stuck_precheck [OF b2(3)] plain(3,4)] b2(3) unfolding stuck_def by metis
  have "?n + ?N \<le> MAX_SKIP" "unat ?i + (k + ?N) < 2 ^ 64" "unat ?c + Suc ?N < 2 ^ 64" "length ?p = 32"
    using assms(3,7-9) b2(5) by (simp_all add: paired_def session_inv_def wf_session_def)
  note sync = stuck_closed [OF b2(3) this refl, of m]
  have "fst (receive_key C (mark_received (b2\<lparr>mode := m, peer_ratchet_pub := Some ?p\<rparr>) ?c) ?p (counter_be (rec_header (recs ! j))))
      = Ok (mk (k + j))" if "j < ?N" for j
    using receive_key_chain [OF sync _ that] recs(2) [OF that] by (auto simp: chain_mk_add assms(10))
  with b1(1) b2(1,2,4) m plain(1,2) recs(3) show ?thesis by blast
qed

lemma sample_keys_differ:
  "hd (chain_mk sample_crypto (send_ck sample_a) (send_sym_idx sample_a) 1)
     = hd (chain_mk sample_crypto (send_ck sample_a) (send_sym_idx sample_a) 0) + 1"
  by (simp add: sample_a_def bootstrap_initiator_def chain_mk_def msg_step_def chain_bootstrap_def
      hkdf_zero32_def hkdf_sha256_def sample_crypto_def bslice_def Let_def split_beta)

lemma sample_key_nonempty: "chain_mk sample_crypto ck i k \<noteq> []"
  using length_chain_mk [OF sample_lens, of ck i k] by auto

theorem lost_rekey_blocks_data_witness:
  "\<exists>hr pr a1 r1 recs a2 r2 b1 e b2 plain b3 k. encrypt_rekey_ctrl_outer sample_crypto sample_a [1, 2, 3, 4] 0 = (Ok (hr, pr), a1, r1)
    \<and> send_batch sample_crypto a1 [replicate 512 1] r1 = (Ok recs, a2, r2)
    \<and> handle_inbound_outer sample_crypto sample_b (hd recs) 0 5 = (Err DecryptionFailed, b1, 5)
    \<and> deliver sample_crypto b1 [\<lparr>rec_header = (next_header sample_a 3)\<lparr>counter_be := 7\<rparr>, payload = []\<rparr>] 0 5 = ([Err e], b2, 5)
    \<and> handle_inbound_outer sample_crypto b2 \<lparr>rec_header = hr, payload = pr\<rparr> 0 5 = (Ok (RekeyPlain plain), b3, 5)
    \<and> 2 \<le> k \<and> fst (receive_key sample_crypto b3 (my_ratchet_pub sample_a) (counter_be (rec_header (recs ! 0))))
         = Ok (chain_mk sample_crypto (send_ck sample_a) (send_sym_idx sample_a) k)"
proof -
  let ?mk = "chain_mk sample_crypto (send_ck sample_a) (send_sym_idx sample_a)" and ?pts = "[replicate 512 1]"
    and ?late = "[\<lparr>rec_header = (next_header sample_a 3)\<lparr>counter_be := 7\<rparr>, payload = []\<rparr>]"
  have len: "length [1, 2, 3, 4 :: byte] \<le> 256" "\<forall>pt \<in> set ?pts. length pt = 512" "?pts \<noteq> []" by simp_all
  obtain hr pr a1 r1 where e: "encrypt_rekey_ctrl_outer sample_crypto sample_a [1, 2, 3, 4] 0 = (Ok (hr, pr), a1, r1)"
      "send_wire_counter a1 = 1" "send_ck a1 = send_ck sample_a" "send_sym_idx a1 = send_sym_idx sample_a"
    using encrypt_rekey_outer_Ok [OF sample_lens sample_aead len(1), of sample_a 0] by (auto simp: sample_fresh)
  obtain recs a2 r2 where s: "send_batch sample_crypto a1 ?pts r1 = (Ok recs, a2, r2)" "length recs = 1"
      "opens sample_crypto (?mk 0) (rec_header (recs ! 0)) (payload (recs ! 0)) (replicate 512 1)"
    using send_batch_Ok [OF sample_lens sample_aead len(2), of a1 r1] e(2-4) by (auto simp: sample_fresh simp del: send_batch.simps)
  have x: "xdecrypt sample_crypto (?mk 1) n' ct x' = Err Cipher" if "xdecrypt sample_crypto (?mk 0) n ct x = Ok y" for n n' ct x x' y
    using that sample_keys_differ sample_key_nonempty
    by (auto simp: xdecrypt_def sample_crypto_def split: if_splits option.splits)
  have shut: "\<nexists>x. opens sample_crypto (?mk 1) (rec_header (hd recs)) (payload (hd recs)) x"
    using s(3) x hd_conv_nth [of recs] s(2) by (fastforce simp: opens_def)
  have room: "skipped_len (skipped sample_b) + length ?pts + 1 \<le> MAX_SKIP" "unat (send_wire_counter sample_a) + length ?pts + 1 < 2 ^ 64"
    "unat (send_sym_idx sample_a) + (length ?pts + length ?late + 2) < 2 ^ 64"
    by (simp_all add: sample_fresh MAX_SKIP_def)
  have late: "\<forall>rec \<in> set ?late. hdr_typ (rec_header rec) = 3 \<and> ratchet_pub (rec_header rec) = my_ratchet_pub sample_a
      \<and> send_wire_counter sample_a < counter_be (rec_header rec)"
    by (simp add: next_header_def sample_fresh)
  from lost_rekey_blocks_data [OF sample_lens sample_aead sample_paired(1) len room refl e(1) s(1) shut late, of 0 5]
  obtain b1 xs b2 plain b3 k where o: "handle_inbound_outer sample_crypto sample_b (hd recs) 0 5 = (Err DecryptionFailed, b1, 5)"
      "deliver sample_crypto b1 ?late 0 5 = (xs, b2, 5)" "\<forall>x \<in> set xs. \<exists>e. x = Err e"
      "handle_inbound_outer sample_crypto b2 \<lparr>rec_header = hr, payload = pr\<rparr> 0 5 = (Ok (RekeyPlain plain), b3, 5)" "2 \<le> k"
      "fst (receive_key sample_crypto b3 (my_ratchet_pub sample_a) (counter_be (rec_header (recs ! 0)))) = Ok (?mk k)"
    by auto
  moreover obtain e0 where "xs = [Err e0]" using o(2,3) by (auto split: prod.splits)
  ultimately show ?thesis using e(1) s(1) by blast
qed

end
