(* ===== verification/Session_Ratchet.thy ===== *)
theory Session_Ratchet
  imports Session_Channel
begin

text \<open>
  When the DH ratchet turns.  A session replaces its ratchet key only while it handles a record with a ratchet key
  other than the one it has bound, and the only keys the peer ever puts into a header are its own.  So between two
  sessions that were bootstrapped with each other's keys nobody takes the first step: whatever the network does
  with their records, root key and ratchet keys stay what the bootstrap made them.
\<close>

section \<open>Conversations\<close>

text \<open>Two sessions and the headers each has put on the wire.  The payloads are the network's: it may change them.\<close>

record conv =
  party :: "side \<Rightarrow> session"
  sent_headers :: "side \<Rightarrow> header set"

definition after_send :: "conv \<Rightarrow> side \<Rightarrow> session \<Rightarrow> SessionError + header \<times> bytes \<Rightarrow> conv" where
  "after_send k x s res = \<lparr>party = (party k)(x := s),
     sent_headers = (sent_headers k)(x := (case res of Inl _ \<Rightarrow> {} | Inr (h, _) \<Rightarrow> {h}) \<union> sent_headers k x)\<rparr>"

definition put_party :: "conv \<Rightarrow> side \<Rightarrow> session \<Rightarrow> conv" where
  "put_party k x s = k\<lparr>party := (party k)(x := s)\<rparr>"

inductive conv_step :: "'r crypto \<Rightarrow> conv \<Rightarrow> conv \<Rightarrow> bool" for C where
  send_data: "encrypt_data_plain512_outer C (party k x) pt r = (res, s, r') \<Longrightarrow> conv_step C k (after_send k x s res)"
| send_rekey: "encrypt_rekey_ctrl_outer C (party k x) body r = (res, s, r') \<Longrightarrow> conv_step C k (after_send k x s res)"
| deliver: "rec_header rec \<in> sent_headers k (peer x) \<Longrightarrow> handle_inbound_outer C (party k x) rec now r = (res, s, r')
     \<Longrightarrow> conv_step C k (put_party k x s)"
| reset_pending: "enter_reset_pending_after_rebootstrap (party k x) e d = (res, s) \<Longrightarrow> conv_step C k (put_party k x s)"
| to_bootstrapping: "reset_pending_to_bootstrapping (party k x) = (res, s) \<Longrightarrow> conv_step C k (put_party k x s)"
| finish_reset: "finish_reset_half_open_to_active (party k x) = (res, s) \<Longrightarrow> conv_step C k (put_party k x s)"
| recompute: "conv_step C k (put_party k x (recompute_anchor_commitment C (party k x)))"
| restart: "import_state (export_state (party k x)) = Ok s \<Longrightarrow> conv_step C k (put_party k x s)"

definition conv_start :: "session \<Rightarrow> session \<Rightarrow> conv" where
  "conv_start a b = \<lparr>party = case_side a b, sent_headers = (\<lambda>_. {})\<rparr>"

section \<open>Operations that do not ratchet\<close>

definition dh_kept :: "session \<Rightarrow> session \<Rightarrow> bool" where
  "dh_kept s s' \<longleftrightarrow> okm s' = okm s \<and> root_key s' = root_key s \<and> ratchet_sk s' = ratchet_sk s
     \<and> my_ratchet_pub s' = my_ratchet_pub s"

definition bound_to :: "bytes \<Rightarrow> session \<Rightarrow> bool" where
  "bound_to p s \<longleftrightarrow> peer_ratchet_pub s = None \<or> peer_ratchet_pub s = Some p"

definition quiet :: "bytes \<Rightarrow> session \<Rightarrow> session \<Rightarrow> bool" where
  "quiet p s s' \<longleftrightarrow> dh_kept s s' \<and> bound_to p s'"

lemma quiet_refl: "bound_to p s \<Longrightarrow> quiet p s s"
  by (simp add: quiet_def dh_kept_def)

lemma quiet_trans: "quiet p s t \<Longrightarrow> quiet p t u \<Longrightarrow> quiet p s u"
  by (simp add: quiet_def dh_kept_def)

lemma quiet_mode: "quiet p (s\<lparr>mode := m\<rparr>) s' = quiet p s s'" "bound_to p (s\<lparr>mode := m\<rparr>) = bound_to p s"
  by (simp_all add: quiet_def dh_kept_def bound_to_def)

lemma bind_quiet:
  assumes "bound_to p s"
  shows "bind_or_dh_ratchet C s p r = (Ok (), s\<lparr>peer_ratchet_pub := Some p\<rparr>, r)"
  using assms by (cases s) (auto simp: bound_to_def bind_or_dh_ratchet_def)

lemma chain_frame_quiet: "chain_frame (s\<lparr>peer_ratchet_pub := Some p\<rparr>) t \<Longrightarrow> quiet p s t"
  unfolding chain_frame_def quiet_def dh_kept_def bound_to_def by (cases s; cases t) simp

lemma mark_received_quiet: "quiet p s t \<Longrightarrow> quiet p s (mark_received t c)"
  by (simp add: quiet_def dh_kept_def bound_to_def)

lemma decrypt_data_quiet:
  assumes "bound_to p s" "ratchet_pub h = p"
  shows "quiet p s (fst (snd (decrypt_data C s h ct r)))"
proof -
  obtain x t where k: "receive_key C (s\<lparr>peer_ratchet_pub := Some p\<rparr>) p (counter_be h) = (x, t)"
    by (cases "receive_key C (s\<lparr>peer_ratchet_pub := Some p\<rparr>) p (counter_be h)")
  have q: "quiet p s t" using chain_frame_quiet receive_key_frame [of "s\<lparr>peer_ratchet_pub := Some p\<rparr>" C p "counter_be h"] k
    by (metis snd_conv)
  show ?thesis using quiet_refl [OF assms(1)] q mark_received_quiet [OF q]
    by (auto simp: decrypt_data_def Let_def assms(2) bind_quiet [OF assms(1)] k split: sum.splits)
qed

lemma decrypt_rekey_quiet:
  assumes "bound_to p s" "ratchet_pub h = p"
  shows "quiet p s (fst (snd (decrypt_rekey_ctrl_outer C s h pd r)))"
proof -
  have q: "quiet p s (s\<lparr>peer_ratchet_pub := Some p\<rparr>)" by (rule chain_frame_quiet) simp
  show ?thesis using quiet_refl [OF assms(1)] q mark_received_quiet [OF q]
    by (auto simp: decrypt_rekey_ctrl_outer_def Let_def assms(2) bind_quiet [OF assms(1)] split: sum.splits)
qed

lemma inbound_quiet:
  assumes "bound_to p s" "ratchet_pub (rec_header rec) = p" "handle_inbound_outer C s rec now r = (res, s', r')"
  shows "quiet p s s'"
proof -
  obtain m where m: "maybe_expire_reset_pending s now = s\<lparr>mode := m\<rparr>" using maybe_expire_frame by blast
  let ?s = "s\<lparr>mode := m\<rparr>"
  have b: "bound_to p ?s" using assms(1) by (simp add: quiet_mode)
  obtain d s1 r1 where d: "decrypt_data_outer C ?s (rec_header rec) (payload rec) r = (d, s1, r1)"
    by (cases "decrypt_data_outer C ?s (rec_header rec) (payload rec) r")
  obtain k s2 r2 where k: "decrypt_rekey_ctrl_outer C ?s (rec_header rec) (payload rec) r = (k, s2, r2)"
    by (cases "decrypt_rekey_ctrl_outer C ?s (rec_header rec) (payload rec) r")
  have "quiet p ?s s1" using d decrypt_data_quiet [OF b assms(2), of C _ r] quiet_refl [OF b]
    by (auto simp: decrypt_data_outer_def split: sum.splits) (metis fst_conv snd_conv)
  moreover have "quiet p ?s s2" using k decrypt_rekey_quiet [OF b assms(2), of C "payload rec" r] by simp
  ultimately show ?thesis using assms(3) quiet_refl [OF b]
    by (auto simp: handle_inbound_outer_def m d k Let_def quiet_mode split: sum.splits if_splits)
qed

lemma reload_quiet:
  assumes "session_inv s" "bound_to p s" "import_state (export_state s) = Ok s'"
  shows "quiet p s s' \<and> session_inv s'"
proof -
  obtain m where m: "decode_blob_v2 (blob_encode (blob_of s)) = Ok ((blob_of s)\<lparr>pb_skipped := m\<rparr>)" "skipped_inv m"
    using decode_blob_encode [OF wf_blob_of [OF session_invD(1) [OF assms(1)]]] by (auto simp: blob_of_def)
  have x: "exp_okm (export_state s) = okm s" "exp_anchor (export_state s) = anchor s"
    "exp_session_id (export_state s) = session_id s" "exp_epoch (export_state s) = epoch s"
    by (simp_all add: export_state_def)
  obtain hw pp where "s' = (reloaded s m)\<lparr>recv_high_water := hw, peer_ratchet_pub := pp\<rparr>" "pp = None \<or> pp = peer_ratchet_pub s"
    "hw = None \<or> hw = recv_high_water s"
    using assms(3) unfolding import_state_def export_blob m(1) x
    by (cases "peer_ratchet_pub s"; cases "recv_high_water s"; cases s)
      (auto simp: blob_of_def reloaded_def peer_or_zero_def recv_hw_or_sentinel_def split: if_splits)
  with assms(1,2) m(2) show ?thesis
    using reloaded_inv [OF assms(1) m(2)]
    by (auto simp: quiet_def dh_kept_def bound_to_def session_inv_def wf_session_def mode_ok_def window_ok_def
        anchor_covers_def reloaded_def split: option.splits)
qed

section \<open>The invariant\<close>

definition conv_inv :: "(side \<Rightarrow> session) \<Rightarrow> conv \<Rightarrow> bool" where
  "conv_inv f k \<longleftrightarrow> (\<forall>x. session_inv (party k x) \<and> quiet (my_ratchet_pub (f (peer x))) (f x) (party k x)
     \<and> (\<forall>h \<in> sent_headers k x. wf_header h \<and> ratchet_pub h = my_ratchet_pub (f x)))"

lemma conv_inv_put:
  assumes "conv_inv f k" "session_inv s" "quiet (my_ratchet_pub (f (peer x))) (party k x) s"
  shows "conv_inv f (put_party k x s)"
  using assms quiet_trans unfolding conv_inv_def put_party_def by (auto; blast)

lemma conv_inv_send:
  assumes "conv_inv f k" "sent (party k x) ty res s" "session_inv s"
  shows "conv_inv f (after_send k x s res)"
proof -
  let ?s = "party k x"
  have i: "session_inv ?s" "quiet (my_ratchet_pub (f (peer x))) (f x) ?s" using assms(1) by (simp_all add: conv_inv_def)
  have fr: "send_frame ?s s" using assms(2) by (simp add: sent_def)
  then have q: "quiet (my_ratchet_pub (f (peer x))) ?s s"
    using i(2) unfolding send_frame_def quiet_def dh_kept_def bound_to_def by (cases ?s; cases s) simp
  have "wf_header h \<and> ratchet_pub h = my_ratchet_pub (f x)" if "res = Ok (h, pd)" for h pd
    using that assms(2) i next_header_wf [OF session_invD(1) [OF i(1)], of ty] by (auto simp: sent_def next_header_def quiet_def dh_kept_def)
  then show ?thesis using assms(1) conv_inv_put [OF assms(1,3) q]
    unfolding conv_inv_def after_send_def put_party_def by (auto split: sum.splits)
qed

lemma conv_step_inv:
  assumes "conv_step C k k'" "crypto_lens C" "conv_inv f k"
  shows "conv_inv f k'"
proof -
  have wf: "session_inv (party k x)" and q: "quiet (my_ratchet_pub (f (peer x))) (f x) (party k x)"
    and b: "bound_to (my_ratchet_pub (f (peer x))) (party k x)"
    and hd: "h \<in> sent_headers k x \<Longrightarrow> wf_header h \<and> ratchet_pub h = my_ratchet_pub (f x)" for x h
    using assms(3) by (simp_all add: conv_inv_def quiet_def)
  note qr = quiet_refl [OF b]
  have mode_step: "conv_inv f (put_party k x s)" if "\<exists>m. s = (party k x)\<lparr>mode := m\<rparr>" "session_step C (party k x) ev s" for x s ev
    using that qr [of x] session_step_inv [OF assms(2) that(2) wf]
    by (auto intro!: conv_inv_put [OF assms(3)] simp: quiet_def dh_kept_def bound_to_def)
  show ?thesis using assms(1)
  proof cases
    case (send_data x pt r res s r')
    show ?thesis unfolding send_data(1)
      by (rule conv_inv_send [OF assms(3) encrypt_data_plain512_outer_sent [OF send_data(2)]
            session_step_inv [OF assms(2) session_step.send_data_outer [OF send_data(2)] wf]])
  next
    case (send_rekey x body r res s r')
    show ?thesis unfolding send_rekey(1)
      by (rule conv_inv_send [OF assms(3) encrypt_rekey_ctrl_outer_sent [OF send_rekey(2)]
            session_step_inv [OF assms(2) session_step.send_rekey_outer [OF send_rekey(2)] wf]])
  next
    case (deliver rec x now r res s r')
    have h: "wf_header (rec_header rec)" "ratchet_pub (rec_header rec) = my_ratchet_pub (f (peer x))"
      using hd deliver(2) by blast+
    show ?thesis unfolding deliver(1)
      by (rule conv_inv_put [OF assms(3) session_step_inv [OF assms(2) session_step.inbound [OF h(1) deliver(3)] wf]
            inbound_quiet [OF b h(2) deliver(3)]])
  next
    case (recompute x)
    have "quiet (my_ratchet_pub (f (peer x))) (party k x) (recompute_anchor_commitment C (party k x))"
      using qr [of x] by (simp add: quiet_def dh_kept_def bound_to_def recompute_anchor_commitment_def)
    then show ?thesis
      using recompute session_step_inv [OF assms(2) session_step.recompute wf] conv_inv_put [OF assms(3)] by blast
  next
    case (restart x s)
    then show ?thesis using conv_inv_put [OF assms(3)] reload_quiet [OF wf b] by blast
  next
    case (reset_pending x e d res s)
    show ?thesis unfolding reset_pending(1) by (rule mode_step [OF mode_ops_frame(1) [OF reset_pending(2)] session_step.reset_pending [OF reset_pending(2)]])
  next
    case (to_bootstrapping x res s)
    show ?thesis unfolding to_bootstrapping(1) by (rule mode_step [OF mode_ops_frame(2) [OF to_bootstrapping(2)] session_step.to_bootstrapping [OF to_bootstrapping(2)]])
  next
    case (finish_reset x res s)
    show ?thesis unfolding finish_reset(1) by (rule mode_step [OF mode_ops_frame(3) [OF finish_reset(2)] session_step.finish_reset [OF finish_reset(2)]])
  qed
qed

section \<open>Properties\<close>

text \<open>C24: Honest sessions never turn the DH ratchet.  Two sessions that start with each other's ratchet key, or with
  none, send DATA and REKEY records, receive any records with a header the other side has sent (reordered,
  repeated, lost, with any payload), go through the reset modes, recompute their commitment and restart from their
  export, in any order and for any length of time: root key, ratchet secret and ratchet public key of both are
  the ones they started with.\<close>

theorem honest_sessions_never_ratchet:
  assumes "crypto_lens C" "session_inv a" "session_inv b"
    and "peer_ratchet_pub a \<in> {None, Some (my_ratchet_pub b)}" "peer_ratchet_pub b \<in> {None, Some (my_ratchet_pub a)}"
    and "(conv_step C)\<^sup>*\<^sup>* (conv_start a b) k"
  shows "root_key (party k SideA) = root_key a \<and> ratchet_sk (party k SideA) = ratchet_sk a
    \<and> my_ratchet_pub (party k SideA) = my_ratchet_pub a
    \<and> root_key (party k SideB) = root_key b \<and> ratchet_sk (party k SideB) = ratchet_sk b
    \<and> my_ratchet_pub (party k SideB) = my_ratchet_pub b"
proof -
  have "conv_inv (case_side a b) (conv_start a b)"
    using assms(2-5) by (auto simp: conv_inv_def conv_start_def quiet_def dh_kept_def bound_to_def split: side.split)
  then have "conv_inv (case_side a b) k"
    by (rule rtranclp_induct [OF assms(6)]) (rule conv_step_inv [OF _ assms(1)])
  then show ?thesis unfolding conv_inv_def quiet_def dh_kept_def by (metis side.simps(3,4))
qed

theorem honest_sessions_never_ratchet_witness:
  "\<exists>k. (conv_step sample_crypto)\<^sup>*\<^sup>* (conv_start sample_a sample_b) k \<and> sent_headers k SideA = {next_header sample_a 3}
     \<and> recv_high_water (party k SideB) = Some 0 \<and> root_key (party k SideB) = root_key sample_b"
proof -
  obtain p a1 r1 b1 where s: "encrypt_data_plain512_outer sample_crypto sample_a (replicate 512 1) 0
        = (Ok (next_header sample_a 3, p), a1, r1)"
      "handle_inbound_outer sample_crypto sample_b \<lparr>rec_header = next_header sample_a 3, payload = p\<rparr> 0 0
        = (Ok (Data (replicate 512 1)), b1, 0)"
    and b1: "paired a1 b1" "send_wire_counter a1 = send_wire_counter sample_a + 1"
    by (rule data_in_order [OF sample_lens sample_aead sample_paired(1), of "replicate 512 1" 0 0 0 0])
      (auto simp: sample_fresh MAX_SKIP_def)
  let ?k0 = "conv_start sample_a sample_b"
  let ?k1 = "after_send ?k0 SideA a1 (Ok (next_header sample_a 3, p))"
  have "conv_step sample_crypto ?k0 ?k1"
    using conv_step.send_data [of sample_crypto ?k0 SideA "replicate 512 1" 0] s(1) by (simp add: conv_start_def)
  moreover have "conv_step sample_crypto ?k1 (put_party ?k1 SideB b1)"
    using conv_step.deliver [of "\<lparr>rec_header = next_header sample_a 3, payload = p\<rparr>" ?k1 SideB sample_crypto 0 0] s(2)
    by (simp add: conv_start_def after_send_def)
  ultimately have run: "(conv_step sample_crypto)\<^sup>*\<^sup>* ?k0 (put_party ?k1 SideB b1)" by (meson r_into_rtranclp rtranclp_trans)
  have "root_key (party (put_party ?k1 SideB b1) SideB) = root_key sample_b"
    using honest_sessions_never_ratchet [OF sample_lens _ _ _ _ run] sample_paired by (auto simp: paired_def)
  moreover have "recv_high_water b1 = Some 0"
    using b1 by (auto simp: paired_def sample_fresh unat_eq_0 split: option.splits)
  ultimately show ?thesis using run by (intro exI [of _ "put_party ?k1 SideB b1"])
      (auto simp: put_party_def after_send_def conv_start_def)
qed

end
