(* ===== verification/Key_Types.thy ===== *)
theory Key_Types
  imports Handshake Sample_Crypto
begin

text \<open>
  The array types of the key schedule.  A Rust function that returns \<open>[u8; N]\<close> builds it with
  \<open>try_into().unwrap()\<close>, \<open>copy_from_slice\<close> or \<open>expect\<close>, which panic on any other length, and
  \<open>hkdf_sha256\<close> unwraps an expansion that RFC 5869 limits to 8160 bytes.  In the model arrays are byte lists: here their
  lengths are shown to be the declared ones, and no expansion to ask for more than the limit.
\<close>

section \<open>Within the limit of HKDF\<close>

text \<open>HKDF as its crate has it: nothing comes back beyond the limit.\<close>

definition hkdf_limited :: "'r crypto \<Rightarrow> 'r crypto" where
  "hkdf_limited C = C\<lparr>hkdf := \<lambda>s i f n. if n \<le> 255 * 32 then hkdf C s i f n else []\<rparr>"

lemma hkdf_limited_simps [simp]:
  "sha256 (hkdf_limited C) = sha256 C" "hmac_sha256 (hkdf_limited C) = hmac_sha256 C" "x25519 (hkdf_limited C) = x25519 C"
  "aead_seal (hkdf_limited C) = aead_seal C" "aead_open (hkdf_limited C) = aead_open C"
  "n \<le> 8160 \<Longrightarrow> hkdf_sha256 (hkdf_limited C) s i f n = hkdf_sha256 C s i f n"
  "n \<le> 8160 \<Longrightarrow> hkdf_zero32 (hkdf_limited C) i f n = hkdf_zero32 C i f n"
  by (simp_all add: hkdf_limited_def hkdf_zero32_def hkdf_sha256_def)

lemma limited_derivations:
  "nonce24 (hkdf_limited C) = nonce24 C" "okm_root_bootstrap (hkdf_limited C) = okm_root_bootstrap C"
  "confirm_key (hkdf_limited C) = confirm_key C" "chain_bootstrap (hkdf_limited C) = chain_bootstrap C"
  "msg_step (hkdf_limited C) = msg_step C" "dh_mix (hkdf_limited C) = dh_mix C"
  "k_control (hkdf_limited C) = k_control C" "k_init (hkdf_limited C) = k_init C" "k_ack (hkdf_limited C) = k_ack C"
  "plain_inner_init (hkdf_limited C) = plain_inner_init C" "plain_inner_ack (hkdf_limited C) = plain_inner_ack C"
  "data_inner_plaintext (hkdf_limited C) = data_inner_plaintext C" "ctrl_inner_padded256 (hkdf_limited C) = ctrl_inner_padded256 C"
  by (simp_all add: fun_eq_iff nonce24_def okm_root_bootstrap_def salt_handshake_def sha256_label_def confirm_key_def
      chain_bootstrap_def msg_step_def dh_mix_def k_control_def k_init_def k_ack_def plain_inner_init_def plain_inner_ack_def
      data_inner_plaintext_def ctrl_inner_padded256_def DATA_INNER_FIXED_def Let_def)

section \<open>Declared lengths\<close>

lemma handshake_types:
  assumes "crypto_lens C"
  shows "length (km_with_otp C ik_a ek_a ik_b spk_b otp_b) = 128"
    "length (th0 C body) = 32" "length (th1 C t0 core) = 32" "length (th0_reset C body) = 32" "length (th1_reset C t0 core) = 32"
    "length (salt_handshake C) = 32" "length (okm_root_bootstrap C ikm) = 64" "length (confirm_key C okm1) = 32"
    "length (confirm_mac C ck t1) = 16" "length (safety_number C a b c d) = 32" "length (account_id C pk) = 32"
    "length (k_init C km t0) = 32" "length (k_ack C okm1) = 32" "length (k_control C okm1) = 32"
    "length (plain_inner_init C t0) = 256" "length (plain_inner_ack C t1) = 256" "length (nonce24 C i l) = 24"
  by (simp_all add: crypto_lensD [OF assms] length_hkdf_zero32 [OF assms] km_with_otp_def dh_def th0_def th1_def
      th0_reset_def th1_reset_def sha256_label_def salt_handshake_def okm_root_bootstrap_def hkdf_sha256_def confirm_key_def
      confirm_mac_def safety_number_def split_beta account_id_def k_init_def k_ack_def k_control_def plain_inner_init_def
      plain_inner_ack_def nonce24_def Let_def)

lemma ratchet_types:
  assumes "crypto_lens C"
  shows "map length [fst (chain_bootstrap C k), snd (chain_bootstrap C k)] = [32, 32]"
    "map length [fst (msg_step C k i), snd (msg_step C k i)] = [32, 32]"
    "map length [fst (dh_mix C k d), fst (snd (dh_mix C k d)), snd (snd (dh_mix C k d))] = [32, 32, 32]"
  using length_chain_bootstrap [OF assms] length_msg_step [OF assms] length_dh_mix [OF assms, of k d, OF surjective_pairing [THEN trans]]
  by (simp_all add: dh_mix_def Let_def hkdf_sha256_def crypto_lensD [OF assms])

section \<open>Property\<close>

text \<open>C21: Key derivation is well typed.  Over primitives with their documented output lengths, every function of the key
  schedule, the transcripts, the ratchet and the inner padding returns an array of its declared length, for any
  arguments, so that none of the conversions it unwraps fails; and none expands HKDF beyond its limit: over
  an HKDF that returns nothing there, all of them compute the same.\<close>

theorem key_derivation_typed:
  assumes "crypto_lens C"
  shows "length (km_with_otp C ik_a ek_a ik_b spk_b otp_b) = 128
    \<and> map length [th0 C body, th1 C t0 core, th0_reset C body, th1_reset C t0 core] = [32, 32, 32, 32]
    \<and> length (ikm_session (km_with_otp C ik_a ek_a ik_b spk_b otp_b) (th0 C body) (th1 C t0 core)) = 192
    \<and> length (okm_root_bootstrap C ikm) = 64 \<and> length (confirm_key C okm1) = 32 \<and> length (confirm_mac C ck t1) = 16
    \<and> length (safety_number C pk1 pk2 spk1 spk2) = 32 \<and> length (account_id C pk1) = 32
    \<and> map length [k_init C km t0, k_ack C okm1, k_control C okm1] = [32, 32, 32]
    \<and> map length [plain_inner_init C t0, plain_inner_ack C t1] = [256, 256] \<and> length (nonce24 C i l) = 24
    \<and> map length [fst (chain_bootstrap C k), snd (chain_bootstrap C k)] = [32, 32]
    \<and> map length [fst (msg_step C k n), snd (msg_step C k n)] = [32, 32]
    \<and> map length [fst (dh_mix C k d), fst (snd (dh_mix C k d)), snd (snd (dh_mix C k d))] = [32, 32, 32]
    \<and> (data_inner_plaintext C v ty content = Ok p1 \<longrightarrow> length p1 = 512) \<and> (ctrl_inner_padded256 C ctrl = Ok p2 \<longrightarrow> length p2 = 256)
    \<and> okm_root_bootstrap (hkdf_limited C) = okm_root_bootstrap C \<and> confirm_key (hkdf_limited C) = confirm_key C
    \<and> nonce24 (hkdf_limited C) = nonce24 C \<and> chain_bootstrap (hkdf_limited C) = chain_bootstrap C
    \<and> msg_step (hkdf_limited C) = msg_step C \<and> dh_mix (hkdf_limited C) = dh_mix C
    \<and> k_init (hkdf_limited C) = k_init C \<and> k_ack (hkdf_limited C) = k_ack C \<and> k_control (hkdf_limited C) = k_control C
    \<and> plain_inner_init (hkdf_limited C) = plain_inner_init C \<and> plain_inner_ack (hkdf_limited C) = plain_inner_ack C
    \<and> data_inner_plaintext (hkdf_limited C) = data_inner_plaintext C
    \<and> ctrl_inner_padded256 (hkdf_limited C) = ctrl_inner_padded256 C"
proof -
  have "data_inner_plaintext C v ty content = Ok p1 \<longrightarrow> length p1 = 512"
    using data_inner_plaintext_layout [OF assms] by blast
  moreover have "ctrl_inner_padded256 C ctrl = Ok p2 \<longrightarrow> length p2 = 256" using ctrl_inner_padded256_layout [OF assms] by blast
  moreover note ratchet_types [OF assms, of k] ratchet_types(2) [OF assms, of k n] ratchet_types(3) [OF assms, of k d]
  ultimately show ?thesis by (simp add: limited_derivations handshake_types [OF assms] ikm_session_def)
qed

theorem key_derivation_typed_witness:
  "length (okm_root_bootstrap sample_crypto [7]) = 64
    \<and> map length [fst (msg_step sample_crypto [1] 5), snd (msg_step sample_crypto [1] 5)] = [32, 32]
    \<and> dh_mix (hkdf_limited sample_crypto) = dh_mix sample_crypto"
  using key_derivation_typed [OF sample_lens, where ikm = "[7]" and k = "[1]" and n = 5 and ik_a = "[]" and ek_a = "[]"
      and ik_b = "[]" and spk_b = "[]" and otp_b = "[]" and body = "[]" and ?t0.0 = "[]" and ?t1.0 = "[]"
      and core = "\<lparr>responder_sig_pk = [], responder_dh_pk = [], ack_nonce_be = 0\<rparr>" and ?okm1.0 = "[]" and ck = "[]"
      and ?pk1.0 = "[]" and ?pk2.0 = "[]" and ?spk1.0 = "[]" and ?spk2.0 = "[]" and km = "[]" and i = "[]" and l = "[]" and d = "[]"
      and v = 0 and ty = 0 and content = "[]" and ?p1.0 = "[]" and ctrl = "[]" and ?p2.0 = "[]"] by blast

end
