(* ===== verification/Gap_Loop.thy ===== *)
theory Gap_Loop
  imports Session_Bounds
begin

text \<open>
  The gap loop of \<open>fill_recv_gap_to_counter\<close> as it is written, \<open>for cnt in base..target\<close> over 64-bit counters:
  a \<open>partial_function\<close>, for which not returning is \<open>None\<close>.  It is shown to return, and what it does: which chain
  keys end up under which counters, where the chain stands, and where the bound of the cache stops it.
\<close>

partial_function (option) gap_loop ::
  "'r crypto \<Rightarrow> bytes \<Rightarrow> u64 \<Rightarrow> u64 \<Rightarrow> session \<Rightarrow> ((SessionError + unit) \<times> session) option" where
  "gap_loop C pub cnt target s =
     (if cnt < target then
        (case recv_step_mk C s of (x, s1) \<Rightarrow>
           case x of
             Inl e \<Rightarrow> Some (Err e, s1)
           | Inr mk \<Rightarrow>
               (case skipped_insert (skipped s1) pub cnt mk of (y, m) \<Rightarrow>
                  case y of
                    Inl e \<Rightarrow> Some (Err e, s1\<lparr>skipped := m\<rparr>)
                  | Inr _ \<Rightarrow> gap_loop C pub (cnt + 1) target (s1\<lparr>skipped := m\<rparr>)))
      else Some (Ok (), s))"

section \<open>The loop by its number of iterations\<close>

lemma next_below: "cnt < target \<Longrightarrow> unat (cnt + 1) = unat cnt + 1" for cnt target :: u64
  using unat_ctr [of cnt 1] unat_bound_u64 [of target] by (simp add: word_less_nat_alt)

lemma gap_loop_fill:
  "gap_loop C pub cnt target s = Some (fill_loop C pub (unat target - unat cnt) cnt s)"
proof (induction "unat target - unat cnt" arbitrary: cnt s)
  case 0
  then have "\<not> cnt < target" by (simp add: word_less_nat_alt)
  then show ?case using 0 by (subst gap_loop.simps) simp
next
  case (Suc n)
  then have lt: "cnt < target" by (simp add: word_less_nat_alt)
  have n: "n = unat target - unat (cnt + 1)" using Suc(2) next_below [OF lt] by simp
  show ?case
    using Suc(1) [OF n] lt unfolding Suc(2) [symmetric]
    by (subst gap_loop.simps) (simp add: n split: prod.splits sum.splits)
qed

lemma fill_loop_add:
  "fill_loop C p (m + n) cnt s =
     (case fill_loop C p m cnt s of (Inl e, s1) \<Rightarrow> (Err e, s1) | (Inr _, s1) \<Rightarrow> fill_loop C p n (cnt + of_nat m) s1)"
  by (induction m arbitrary: cnt s) (auto simp: add.assoc split: prod.splits sum.splits)

lemma fill_loop_keeps:
  assumes "length q = length p" "unat cnt + n < 2 ^ 64" "q \<noteq> p \<or> d < cnt"
  shows "skipped_lookup (skipped (snd (fill_loop C p n cnt s))) q d = skipped_lookup (skipped s) q d"
  using assms(2,3)
proof (induction n arbitrary: cnt s)
  case (Suc n)
  have u: "unat (cnt + 1) = unat cnt + 1" using unat_ctr [of cnt 1] Suc.prems(1) by simp
  obtain x s1 where st: "recv_step_mk C s = (x, s1)" by (cases "recv_step_mk C s")
  note sk = recv_step_mk_ck [OF st, THEN conjunct2, THEN conjunct1]
  have ins: "skipped_lookup (snd (skipped_insert (skipped s) p cnt mk)) q d = skipped_lookup (skipped s) q d" for mk
    using assms(1) Suc.prems(2) by (auto simp: skipped_insert_def skipped_lookup_def Let_def)
  have "q \<noteq> p \<or> d < cnt + 1" using Suc.prems(2) u by (auto simp: word_less_nat_alt)
  then have "skipped_lookup (skipped (snd (fill_loop C p n (cnt + 1) t))) q d = skipped_lookup (skipped t) q d" for t
    using Suc.prems(1) u by (intro Suc.IH) simp_all
  then show ?case using st sk ins by (auto split: prod.splits sum.splits) (metis snd_conv)+
qed simp

lemma fill_loop_full:
  assumes "recv_ck s = chain_ck C ck i m" "recv_sym_idx s = i + of_nat m" "unat i + Suc m < 2 ^ 64" "MAX_SKIP \<le> skipped_len (skipped s)"
  shows "fill_loop C p (Suc n) cnt s
    = (Err MaxSkipExceeded, s\<lparr>recv_ck := chain_ck C ck i (Suc m), recv_sym_idx := i + of_nat (Suc m)\<rparr>)"
  using assms(4) recv_step_mk_sync [OF assms(1-3)] by (simp add: skipped_insert_def)

section \<open>What it leaves\<close>

text \<open>The session after \<open>k\<close> keys of its receive chain have been cached from the counter \<open>base\<close> on, and the chain
  has been stepped \<open>n\<close> times.\<close>

definition gap_filled :: "'r crypto \<Rightarrow> session \<Rightarrow> bytes \<Rightarrow> u64 \<Rightarrow> nat \<Rightarrow> nat \<Rightarrow> session \<Rightarrow> bool" where
  "gap_filled C s p base k n s' \<longleftrightarrow>
     s' = s\<lparr>recv_ck := chain_ck C (recv_ck s) (recv_sym_idx s) n, recv_sym_idx := recv_sym_idx s + of_nat n, skipped := skipped s'\<rparr>
     \<and> skipped_len (skipped s') = skipped_len (skipped s) + k
     \<and> (\<forall>q d. length q = length p \<longrightarrow> skipped_lookup (skipped s') q d =
          (if q = p \<and> base \<le> d \<and> unat d < unat base + k then Some (chain_mk C (recv_ck s) (recv_sym_idx s) (unat d - unat base))
           else skipped_lookup (skipped s) q d))"

lemma gap_filled_loop:
  assumes "skipped_len (skipped s) + k \<le> MAX_SKIP" "unat base + k < 2 ^ 64" "unat (recv_sym_idx s) + k < 2 ^ 64"
    and "\<And>d. base \<le> d \<Longrightarrow> skipped_lookup (skipped s) p d = None"
  shows "\<exists>s'. fill_loop C p k base s = (Ok (), s') \<and> gap_filled C s p base k k s'"
proof -
  let ?ck = "recv_ck s" and ?i = "recv_sym_idx s"
  have "skipped_lookup (skipped s) p (base + of_nat j) = None" if "j < k" for j
    using assms(2) that unat_ctr [of base j] by (intro assms(4)) (simp add: word_le_nat_alt)
  then obtain M where M: "fill_loop C p k base s = (Ok (), s\<lparr>recv_ck := chain_ck C ?ck ?i k, recv_sym_idx := ?i + of_nat k, skipped := M\<rparr>)"
      "skipped_len M = skipped_len (skipped s) + k"
    and look: "\<And>j. unat base + j < 2 ^ 64 \<Longrightarrow> skipped_lookup M p (base + of_nat j) =
        (if j < k then Some (chain_mk C ?ck ?i j) else skipped_lookup (skipped s) p (base + of_nat j))"
    using fill_loop_sync [of s C ?ck ?i 0 k base p] assms(1-3) by auto
  have "skipped_lookup M q d = (if q = p \<and> base \<le> d \<and> unat d < unat base + k then Some (chain_mk C ?ck ?i (unat d - unat base))
      else skipped_lookup (skipped s) q d)" if q: "length q = length p" for q d
  proof (cases "q = p \<and> base \<le> d")
    case True
    then obtain j where "d = base + of_nat j" "unat base + j < 2 ^ 64" using ge_as_ctr by blast
    then show ?thesis using True look [of j] unat_ctr [of base j] by simp
  next
    case False
    then show ?thesis using fill_loop_keeps [OF q assms(2), of d C s] M(1) by (auto simp: not_le)
  qed
  with M show ?thesis by (intro exI conjI) (assumption, simp add: gap_filled_def)
qed

text \<open>When there are more counters than the cache has room for, it is filled and one more key is drawn.\<close>

lemma gap_overfull:
  assumes "skipped_len (skipped s) \<le> MAX_SKIP" "k = MAX_SKIP - skipped_len (skipped s)" "k < n" "unat base + n < 2 ^ 64"
    and "unat (recv_sym_idx s) + Suc k < 2 ^ 64" "\<And>d. base \<le> d \<Longrightarrow> skipped_lookup (skipped s) p d = None"
  shows "\<exists>s'. fill_loop C p n base s = (Err MaxSkipExceeded, s') \<and> gap_filled C s p base k (Suc k) s'"
proof -
  obtain n' where n: "n = k + Suc n'" using less_imp_Suc_add [OF assms(3)] by auto
  have "skipped_len (skipped s) + k \<le> MAX_SKIP" "unat base + k < 2 ^ 64" "unat (recv_sym_idx s) + k < 2 ^ 64"
    using assms(1-5) by linarith+
  from gap_filled_loop [OF this assms(6), of C]
  obtain s1 where s1: "fill_loop C p k base s = (Ok (), s1)" "gap_filled C s p base k k s1" by blast
  have f: "recv_ck s1 = chain_ck C (recv_ck s) (recv_sym_idx s) k" "recv_sym_idx s1 = recv_sym_idx s + of_nat k"
    "MAX_SKIP \<le> skipped_len (skipped s1)"
    using s1(2) assms(1,2) unfolding gap_filled_def by (cases s1, simp)+
  let ?s2 = "s1\<lparr>recv_ck := chain_ck C (recv_ck s) (recv_sym_idx s) (Suc k), recv_sym_idx := recv_sym_idx s + of_nat (Suc k)\<rparr>"
  have "fill_loop C p n base s = (Err MaxSkipExceeded, ?s2)"
    unfolding n fill_loop_add s1(1) using fill_loop_full [OF f(1,2) assms(5) f(3)] by simp
  moreover have "gap_filled C s p base k (Suc k) ?s2" using s1(2) unfolding gap_filled_def by (cases s; cases s1) simp
  ultimately show ?thesis by blast
qed

section \<open>Property\<close>

text \<open>C14: The gap loop ends, with the keys of the gap.  From a session whose cache holds no key for the counters from
  \<open>base\<close> on, the loop over \<open>base..target\<close> returns, however large the gap.  If the gap fits the cache, the \<open>j\<close>-th key
  of the receive chain is cached under the \<open>j\<close>-th counter of the gap and the chain stands behind the last; every other
  cached key and every other field is as before; and \<open>fill_recv_gap_to_counter\<close> does the same.  If it does not fit, the loop
  ends as soon as the cache is full, one key later, with \<open>MaxSkipExceeded\<close>; there \<open>fill_recv_gap_to_counter\<close> refuses before the
  loop and leaves the session alone, unless the sum in its guard wraps.\<close>

theorem gap_loop_outcome:
  assumes "skipped_len (skipped s) \<le> MAX_SKIP" "unat (recv_sym_idx s) + Suc MAX_SKIP < 2 ^ 64"
    and "\<forall>d \<ge> base. skipped_lookup (skipped s) p d = None"
    and "gap = unat target - unat base" "room = MAX_SKIP - skipped_len (skipped s)"
  shows "if gap \<le> room
    then \<exists>s'. gap_loop C p base target s = Some (Ok (), s') \<and> gap_filled C s p base gap gap s'
           \<and> fill_recv_gap_to_counter C s p base target = (Ok (), s')
    else (\<exists>s'. gap_loop C p base target s = Some (Err MaxSkipExceeded, s') \<and> gap_filled C s p base room (Suc room) s')
         \<and> (skipped_len (skipped s) + gap < 2 ^ 64 \<longrightarrow> fill_recv_gap_to_counter C s p base target = (Err MaxSkipExceeded, s))"
proof -
  have free: "\<And>d. base \<le> d \<Longrightarrow> skipped_lookup (skipped s) p d = None" using assms(3) by blast
  have b: "unat base + gap < 2 ^ 64" using unat_bound_u64 [of target] unat_bound_u64 [of base] by (simp add: assms(4))
  note guard = fill_recv_gap_cases [OF assms(4), of s C p]
  show ?thesis
  proof (cases "gap \<le> room")
    case True
    then have fit: "skipped_len (skipped s) + gap \<le> MAX_SKIP" using assms(1,5) by simp
    then obtain s' where "fill_loop C p gap base s = (Ok (), s')" "gap_filled C s p base gap gap s'"
      using gap_filled_loop [OF fit b _ free, of C] assms(2) by auto
    moreover have "fill_recv_gap_to_counter C s p base target = fill_loop C p gap base s"
      using guard fit by (simp add: MAX_SKIP_def)
    ultimately show ?thesis using True by (simp add: gap_loop_fill assms(4))
  next
    case False
    then have lt: "base < target" using assms(4) by (simp add: word_less_nat_alt)
    have "room < gap" "unat (recv_sym_idx s) + Suc room < 2 ^ 64" "MAX_SKIP < skipped_len (skipped s) + gap"
      using False assms(2,5) by linarith+
    from gap_overfull [OF assms(1,5) this(1) b this(2) free, of C] guard this(3)
    show ?thesis using False lt by (auto simp: gap_loop_fill assms(4))
  qed
qed

theorem gap_loop_outcome_witness:
  "(\<exists>s'. gap_loop sample_crypto [7] 3 5 sample_b = Some (Ok (), s')
      \<and> skipped_lookup (skipped s') [7] 4 = Some (chain_mk sample_crypto (recv_ck sample_b) (recv_sym_idx sample_b) 1))
   \<and> (\<exists>s'. gap_loop sample_crypto [7] 0 (- 1) sample_b = Some (Err MaxSkipExceeded, s')
      \<and> recv_ck s' = chain_ck sample_crypto (recv_ck sample_b) (recv_sym_idx sample_b) 2001)"
proof -
  have s: "skipped sample_b = []" "recv_sym_idx sample_b = 0"
    by (simp_all add: sample_b_def bootstrap_responder_def skipped_new_def Let_def split_beta)
  have m1: "unat (- 1 :: u64) = 2 ^ 64 - 1" by (simp add: unsigned_minus_1_eq_mask mask_eq_exp_minus_1)
  note out = gap_loop_outcome [where s = sample_b and p = "[7]" and C = sample_crypto, OF _ _ _ refl refl]
  have "\<exists>s'. gap_loop sample_crypto [7] 3 5 sample_b = Some (Ok (), s') \<and> gap_filled sample_crypto sample_b [7] 3 2 2 s'"
    using out [where base = 3 and target = 5] by (auto simp: s skipped_len_def skipped_lookup_def MAX_SKIP_def)
  moreover have "\<exists>s'. gap_loop sample_crypto [7] 0 (- 1) sample_b = Some (Err MaxSkipExceeded, s')
      \<and> gap_filled sample_crypto sample_b [7] 0 2000 2001 s'"
    using out [where base = 0 and target = "- 1"] m1 by (auto simp: s skipped_len_def skipped_lookup_def MAX_SKIP_def)
  moreover have "skipped_lookup (skipped s') [7] 4 = Some (chain_mk sample_crypto (recv_ck sample_b) (recv_sym_idx sample_b) 1)"
    if "gap_filled sample_crypto sample_b [7] 3 2 2 s'" for s'
    using that by (simp add: gap_filled_def word_le_nat_alt)
  moreover have "recv_ck s' = chain_ck sample_crypto (recv_ck sample_b) (recv_sym_idx sample_b) 2001"
    if "gap_filled sample_crypto sample_b [7] 0 2000 2001 s'" for s'
    using that unfolding gap_filled_def by (cases s') simp
  ultimately show ?thesis by blast
qed

end
