(* ===== verification/Ffi_Texts.thy ===== *)
theory Ffi_Texts
  imports Ffi_Calls Relay_Server
begin

text \<open>
  Which texts the C interface carries.  \<open>valid_utf8\<close>, the check of \<open>std::str::from_utf8\<close> byte by byte, is shown to accept
  exactly the encodings of sequences of Unicode scalar values; the send calls make no such check, so that a text that is not UTF-8, or
  has a NUL, is sent, acknowledged and not shown to the receiver as it was.
\<close>

section \<open>UTF-8\<close>

definition scalar :: "nat \<Rightarrow> bool" where
  "scalar c \<longleftrightarrow> c < 0xD800 \<or> 0xE000 \<le> c \<and> c < 0x110000"

lemma utf8_bytes_simps [simp]:
  "utf8_bytes [] = []"
  "utf8_bytes (c # s) = (if c < 0x80 then [c]
     else if c < 0x800 then [0xC0 + c div 64, 0x80 + c mod 64]
     else if c < 0x10000 then [0xE0 + c div 4096, 0x80 + c div 64 mod 64, 0x80 + c mod 64]
     else [0xF0 + c div 262144, 0x80 + c div 4096 mod 64, 0x80 + c div 64 mod 64, 0x80 + c mod 64]) @ utf8_bytes s"
  by (simp_all add: utf8_bytes_def)

text \<open>The check over natural numbers.\<close>

fun valid_nat :: "nat list \<Rightarrow> bool" where
  "valid_nat [] = True"
| "valid_nat (a # bs) =
     (if a \<le> 0x7F then valid_nat bs
      else if 0xC2 \<le> a \<and> a \<le> 0xDF then (case bs of b # r \<Rightarrow> 0x80 \<le> b \<and> b \<le> 0xBF \<and> valid_nat r | _ \<Rightarrow> False)
      else if 0xE0 \<le> a \<and> a \<le> 0xEF then
        (case bs of b # c # r \<Rightarrow> 0x80 \<le> b \<and> b \<le> 0xBF \<and> (a = 0xE0 \<longrightarrow> 0xA0 \<le> b) \<and> (a = 0xED \<longrightarrow> b \<le> 0x9F)
             \<and> 0x80 \<le> c \<and> c \<le> 0xBF \<and> valid_nat r | _ \<Rightarrow> False)
      else if 0xF0 \<le> a \<and> a \<le> 0xF4 then
        (case bs of b # c # d # r \<Rightarrow> 0x80 \<le> b \<and> b \<le> 0xBF \<and> (a = 0xF0 \<longrightarrow> 0x90 \<le> b) \<and> (a = 0xF4 \<longrightarrow> b \<le> 0x8F)
             \<and> 0x80 \<le> c \<and> c \<le> 0xBF \<and> 0x80 \<le> d \<and> d \<le> 0xBF \<and> valid_nat r | _ \<Rightarrow> False)
      else False)"

lemma byte_eq: "b = w \<longleftrightarrow> unat b = unat w" for b w :: byte
  by (rule word_unat_eq_iff)

lemma valid_utf8_nat: "valid_utf8 b \<longleftrightarrow> valid_nat (map unat b)"
  by (induction b rule: valid_utf8.induct)
    (simp_all add: utf8_cont_def word_le_nat_alt byte_eq split: list.splits)

text \<open>Digits to base 64, and the ranges in which a leading byte and its continuation put the value.\<close>

lemma mod64 [simp]: "x mod 64 \<le> (63 :: nat)"
  using mod_less_divisor [of 64 x] by simp

lemma base64: "x = p * 64 + q \<Longrightarrow> q < 64 \<Longrightarrow> x div 64 = p \<and> x mod 64 = (q :: nat)"
  by simp

lemma encode_valid: "list_all scalar s \<Longrightarrow> valid_nat (utf8_bytes s)"
proof (induction s)
  case (Cons c s)
  consider "c < 0x80" | "0x80 \<le> c" "c < 0x800" | "0x800 \<le> c" "c < 0x10000" | "0x10000 \<le> c" by linarith
  then show ?case
  proof cases
    case 2
    then have "2 \<le> c div 64" "c div 64 \<le> 31" by linarith+
    with 2 Cons show ?thesis by simp
  next
    case 3
    define q where "q = c div 64"
    have q: "c div 4096 = q div 64" "32 \<le> q" "q < 1024" using 3 by (simp_all add: q_def div_mult2_eq flip: div_mult2_eq)
    then have "q div 64 < 16" "q div 64 = 0 \<longrightarrow> 32 \<le> q mod 64" by auto
    moreover have "q < 864 \<or> 896 \<le> q" using 3 Cons(2) by (auto simp: scalar_def q_def)
    then have "q div 64 = 13 \<longrightarrow> q mod 64 \<le> 31" using div_mult_mod_eq [of q 64] mod64 [of q] by linarith
    ultimately show ?thesis using 3 Cons q(1) by (simp flip: q_def)
  next
    case 4
    define q where "q = c div 4096"
    have "c < 272 * 4096" using 4 Cons(2) by (auto simp: scalar_def)
    then have q: "c div 262144 = q div 64" "16 \<le> q" "q < 272"
      using 4 by (simp_all add: q_def div_less_iff_less_mult flip: div_mult2_eq)
    then have "q div 64 \<le> 4" "q div 64 = 0 \<longrightarrow> 16 \<le> q mod 64" "q div 64 = 4 \<longrightarrow> q mod 64 \<le> 15"
      using div_mult_mod_eq [of q 64] by (simp, linarith+)
    then show ?thesis
      using 4 Cons q(1) by (simp flip: q_def)
  qed (use Cons in simp)
qed simp

text \<open>The scalar values of a sequence of two, three and four bytes.\<close>

lemma two_bytes:
  assumes "0xC2 \<le> a" "a \<le> 0xDF" "0x80 \<le> b" "b \<le> 0xBF"
  shows "\<exists>c. scalar c \<and> utf8_bytes [c] = [a, b]"
proof -
  obtain p q where "a = 0xC0 + p" "b = 0x80 + q" using le_Suc_ex [of "0xC0" a] le_Suc_ex [of "0x80" b] assms by auto
  with assms show ?thesis by (intro exI [of _ "p * 64 + q"]) (simp add: scalar_def)
qed

lemma three_bytes:
  assumes "0xE0 \<le> a" "a \<le> 0xEF" "0x80 \<le> b" "b \<le> 0xBF" "a = 0xE0 \<longrightarrow> 0xA0 \<le> b" "a = 0xED \<longrightarrow> b \<le> 0x9F" "0x80 \<le> c" "c \<le> 0xBF"
  shows "\<exists>x. scalar x \<and> utf8_bytes [x] = [a, b, c]"
proof -
  obtain p q r where e: "a = 0xE0 + p" "b = 0x80 + q" "c = 0x80 + r"
    using le_Suc_ex [of "0xE0" a] le_Suc_ex [of "0x80" b] le_Suc_ex [of "0x80" c] assms by auto
  have b: "p < 16" "q < 64" "r < 64" "p = 0 \<longrightarrow> 32 \<le> q" "p = 13 \<longrightarrow> q < 32" using assms e by auto
  define y where "y = p * 64 + q"
  define x where "x = y * 64 + r"
  note d = base64 [OF y_def b(2)] base64 [OF x_def b(3)]
  have "x div 4096 = p" using d div_mult2_eq [of x 64 64] by simp
  moreover have "0x800 \<le> x" "x < 0x10000" using b by (auto simp: x_def y_def)
  moreover have "scalar x" using b by (cases p "13 :: nat" rule: linorder_cases) (auto simp: scalar_def x_def y_def)
  ultimately show ?thesis using d e by (intro exI [of _ x]) simp
qed

lemma four_bytes:
  assumes "0xF0 \<le> a" "a \<le> 0xF4" "0x80 \<le> b" "b \<le> 0xBF" "a = 0xF0 \<longrightarrow> 0x90 \<le> b" "a = 0xF4 \<longrightarrow> b \<le> 0x8F"
    and "0x80 \<le> c" "c \<le> 0xBF" "0x80 \<le> d" "d \<le> 0xBF"
  shows "\<exists>x. scalar x \<and> utf8_bytes [x] = [a, b, c, d]"
proof -
  obtain p q r t where e: "a = 0xF0 + p" "b = 0x80 + q" "c = 0x80 + r" "d = 0x80 + t"
    using le_Suc_ex [of "0xF0" a] le_Suc_ex [of "0x80" b] le_Suc_ex [of "0x80" c] le_Suc_ex [of "0x80" d] assms by auto
  have b: "p < 5" "q < 64" "r < 64" "t < 64" "p = 0 \<longrightarrow> 16 \<le> q" "p = 4 \<longrightarrow> q < 16" using assms e by auto
  define z where "z = p * 64 + q"
  define y where "y = z * 64 + r"
  define x where "x = y * 64 + t"
  note d = base64 [OF z_def b(2)] base64 [OF y_def b(3)] base64 [OF x_def b(4)]
  have "x div 4096 = z" "x div 262144 = p" using d div_mult2_eq [of x 64 64] div_mult2_eq [of x 4096 64] by simp_all
  moreover have "0x10000 \<le> x" "x < 0x110000" using b by (auto simp: x_def y_def z_def)
  ultimately show ?thesis using d e by (intro exI [of _ x]) (simp add: scalar_def)
qed

lemma utf8_bytes_append: "utf8_bytes (s @ t) = utf8_bytes s @ utf8_bytes t"
  by (simp add: utf8_bytes_def)

lemma prepend_scalar:
  assumes "\<exists>c. scalar c \<and> utf8_bytes [c] = b" "\<exists>s. list_all scalar s \<and> utf8_bytes s = r"
  shows "\<exists>s. list_all scalar s \<and> utf8_bytes s = b @ r"
proof -
  obtain c s where "scalar c" "utf8_bytes [c] = b" "list_all scalar s" "utf8_bytes s = r" using assms by blast
  then show ?thesis using utf8_bytes_append [of "[c]" s] by (intro exI [of _ "c # s"]) (simp del: utf8_bytes_simps)
qed

lemma valid_decodes: "valid_nat b \<Longrightarrow> \<exists>s. list_all scalar s \<and> utf8_bytes s = b"
proof (induction b rule: valid_nat.induct)
  case 1
  show ?case by (intro exI [of _ "[]"]) simp
next
  case (2 a bs)
  consider "a \<le> 0x7F" | "0xC2 \<le> a" "a \<le> 0xDF" | "0xE0 \<le> a" "a \<le> 0xEF" | "0xF0 \<le> a" "a \<le> 0xF4"
    using "2.prems" by (auto split: if_splits)
  then show ?case
  proof cases
    case 1
    then have "\<exists>c. scalar c \<and> utf8_bytes [c] = [a]" by (intro exI [of _ a]) (simp add: scalar_def)
    then show ?thesis using 1 2 prepend_scalar [of "[a]" bs] by simp
  next
    case 2
    then obtain b r where "bs = b # r" "0x80 \<le> b" "b \<le> 0xBF" "valid_nat r" using "2.prems" by (auto split: list.splits)
    then show ?thesis using 2 "2.IH"(2) prepend_scalar [OF two_bytes [of a b], of r] by simp
  next
    case 3
    then obtain b c r where "bs = b # c # r" "0x80 \<le> b" "b \<le> 0xBF" "a = 0xE0 \<longrightarrow> 0xA0 \<le> b" "a = 0xED \<longrightarrow> b \<le> 0x9F"
        "0x80 \<le> c" "c \<le> 0xBF" "valid_nat r" using "2.prems" by (auto split: list.splits)
    then show ?thesis using 3 "2.IH"(3) prepend_scalar [OF three_bytes [of a b c], of r] by simp
  next
    case 4
    then obtain b c d r where "bs = b # c # d # r" "0x80 \<le> b" "b \<le> 0xBF" "a = 0xF0 \<longrightarrow> 0x90 \<le> b" "a = 0xF4 \<longrightarrow> b \<le> 0x8F"
        "0x80 \<le> c" "c \<le> 0xBF" "0x80 \<le> d" "d \<le> 0xBF" "valid_nat r" using "2.prems" by (auto split: list.splits)
    then show ?thesis using 4 "2.IH"(4) prepend_scalar [OF four_bytes [of a b c d], of r] by simp
  qed
qed

lemma valid_utf8_iff: "valid_utf8 b \<longleftrightarrow> (\<exists>s. list_all scalar s \<and> utf8_bytes s = map unat b)"
  using valid_decodes [of "map unat b"] encode_valid by (auto simp: valid_utf8_nat) (metis encode_valid)

lemma nul_free: "0 \<in> set (utf8_bytes s) \<longleftrightarrow> 0 \<in> set s"
  by (induction s) auto

lemma unat_nul: "0 \<in> set (map unat b) \<longleftrightarrow> 0 \<in> set b" for b :: bytes
  by (auto simp: unat_eq_0 image_iff)

lemma utf8_text_iff:
  "valid_utf8 c \<and> 0 \<notin> set c \<longleftrightarrow> (\<exists>s. list_all scalar s \<and> 0 \<notin> set s \<and> utf8_bytes s = map unat c)"
proof -
  have "0 \<notin> set c \<longleftrightarrow> 0 \<notin> set s" if "utf8_bytes s = map unat c" for s
    using nul_free [of s] unat_nul [of c] unfolding that by simp
  then show ?thesis unfolding valid_utf8_iff by blast
qed

section \<open>Property\<close>

text \<open>C18: Which texts arrive.  Between paired sessions, any bytes up to 504 are sent with OK and processed with OK; the receiver then
  reads them up to the first NUL when they are UTF-8 and reads nothing when they are not.  So a text
  arrives as it was exactly when it is the encoding of Unicode scalar values without NUL.\<close>

theorem text_arrives_iff_utf8:
  assumes "crypto_lens C" "aead_ok C" "length rt \<le> 512" "2048 \<le> cap" "length c \<le> 504"
    and "paired (hnd_session (ffi_inner fa)) (hnd_session (ffi_inner fb))" "wf_ffi fb"
    and "skipped_len (skipped (hnd_session (ffi_inner fb))) < MAX_SKIP"
    and "unat (send_sym_idx (hnd_session (ffi_inner fa))) + 1 < 2 ^ 64"
    and "unat (send_wire_counter (hnd_session (ffi_inner fa))) + 1 < 2 ^ 64"
  shows "\<exists>t. relay_chat C from_seed rt cap fa fb [(c, seed, seed2)] = [(GARY_CODE_OK, GARY_CODE_OK, t)]
    \<and> t = (if valid_utf8 c then c_string c else [])
    \<and> (t = c \<longleftrightarrow> (\<exists>s. list_all scalar s \<and> 0 \<notin> set s \<and> utf8_bytes s = map unat c))"
proof -
  let ?t = "if valid_utf8 c then c_string c else []"
  have "relay_chat C from_seed rt cap fa fb [(c, seed, seed2)] = [(GARY_CODE_OK, GARY_CODE_OK, ?t)]"
    using relay_chat_shows [OF assms(1-4) _ assms(6,7), of "[(c, seed, seed2)]" from_seed] assms(5,8-10)
    by (simp add: c_string_shown del: relay_chat.simps)
  moreover have "c_string c = c \<longleftrightarrow> 0 \<notin> set c" by (metis (mono_tags) c_string_def takeWhile_eq_all_conv)
  then have "?t = c \<longleftrightarrow> valid_utf8 c \<and> 0 \<notin> set c" by (cases c) auto
  then have "?t = c \<longleftrightarrow> (\<exists>s. list_all scalar s \<and> 0 \<notin> set s \<and> utf8_bytes s = map unat c)"
    unfolding utf8_text_iff .
  ultimately show ?thesis by blast
qed

text \<open>A continuation byte on its own is sent, acknowledged and lost.\<close>

theorem text_arrives_iff_utf8_witness:
  "relay_chat fixture_crypto (\<lambda>s. 5) [] 2048 (gary_session_new_initiator fixture_crypto) (gary_session_new fixture_crypto)
     [([0x68, 0x80], [], [])] = [(0, 0, [])]"
proof -
  let ?c = "[0x68, 0x80] :: bytes"
  have "\<exists>t. relay_chat fixture_crypto (\<lambda>s. 5) [] 2048 (gary_session_new_initiator fixture_crypto) (gary_session_new fixture_crypto)
     [(?c, [], [])] = [(GARY_CODE_OK, GARY_CODE_OK, t)] \<and> t = (if valid_utf8 ?c then c_string ?c else [])
    \<and> (t = ?c \<longleftrightarrow> (\<exists>s. list_all scalar s \<and> 0 \<notin> set s \<and> utf8_bytes s = map unat ?c))"
    by (rule text_arrives_iff_utf8 [OF fixture_crypto_ok(1,2) _ _ _ fixture_paired(1) [OF fixture_crypto_ok(1,3)] fixture_fresh(7)])
      (simp_all only: fixture_fresh MAX_SKIP_def, simp_all)
  moreover have "\<not> valid_utf8 ?c" by (simp add: utf8_cont_def)
  ultimately have "relay_chat fixture_crypto (\<lambda>s. 5) [] 2048 (gary_session_new_initiator fixture_crypto)
      (gary_session_new fixture_crypto) [(?c, [], [])] = [(GARY_CODE_OK, GARY_CODE_OK, [])]" by (elim exE conjE) (simp only: if_False)
  then show ?thesis unfolding gary_codes .
qed

end
