(* ===== verification/Ffi_Tests.thy ===== *)
theory Ffi_Tests
  imports Ffi_Calls
begin

text \<open>
  The unit tests inside \<^verbatim>\<open>libgary-ffi/src/lib.rs\<close> and \<^verbatim>\<open>libgary-wire/src/pad.rs\<close>, as functions of the text they
  send and of the generators they seed; \<open>True\<close> when every assertion holds.  The digest of a fresh fixture session against its
  recorded value is a fact about SHA-256 and not among them.
\<close>

section \<open>Tests of the padding\<close>

definition pad_then_strip_roundtrip :: "('r \<Rightarrow> nat \<Rightarrow> bytes \<times> 'r) \<Rightarrow> 'r \<Rightarrow> bool" where
  "pad_then_strip_roundtrip fill rng =
     (let logical = replicate 300 7 in
      case fst (pad_outer fill logical rng) of
        Inl _ \<Rightarrow> False
      | Inr padded \<Rightarrow> length padded = 512 \<and> strip_outer_pad padded (length logical) = Ok logical)"

definition strip_rejects_wrong_bucket_len :: "('r \<Rightarrow> nat \<Rightarrow> bytes \<times> 'r) \<Rightarrow> 'r \<Rightarrow> bool" where
  "strip_rejects_wrong_bucket_len fill rng =
     (let logical = replicate 100 1 in
      case fst (pad_outer fill logical rng) of
        Inl _ \<Rightarrow> False
      | Inr padded \<Rightarrow> (case strip_outer_pad (take 255 padded) (length logical) of Inl _ \<Rightarrow> True | Inr _ \<Rightarrow> False))"

lemma padding_tests_pass:
  assumes "rng_fills fill"
  shows "pad_then_strip_roundtrip fill rng" "strip_rejects_wrong_bucket_len fill rng"
proof -
  have "\<exists>p. fst (pad_outer fill l rng) = Ok p \<and> length p = b \<and> strip_outer_pad p (length l) = Ok l"
    if "smallest_padding_bucket (length l) = Some b" for l b
    using that pad_outer_Ok_iff [of fill l rng] pad_outer_length [OF assms, of l rng] strip_pad [OF assms, of l rng] by auto
  from this [of "replicate 300 7" 512] this [of "replicate 100 1" 256]
  show "pad_then_strip_roundtrip fill rng" "strip_rejects_wrong_bucket_len fill rng"
    by (auto simp: pad_then_strip_roundtrip_def strip_rejects_wrong_bucket_len_def bucket_defs strip_outer_pad_def)
qed

section \<open>Tests of the C interface\<close>

definition free_null_is_noop :: bool where
  "free_null_is_noop \<longleftrightarrow> gary_session_free None = None"

definition alice_fixture_send_bob_fixture_recv_utf8_roundtrip ::
  "'r crypto \<Rightarrow> (bytes \<Rightarrow> 'r) \<Rightarrow> bytes \<Rightarrow> bytes \<Rightarrow> bool" where
  "alice_fixture_send_bob_fixture_recv_utf8_roundtrip C from_seed os_seed msg =
     (let alice = gary_session_new_initiator C; bob = gary_session_new C;
          sr = gary_send_utf8_data_outer C from_seed (Some os_seed) (Some alice) (CBuf msg) False 8192 False;
          (recv, bob1) = gary_ingest_outer C from_seed (Some bob) (CBuf (sr_out sr))
      in sr_code sr = GARY_CODE_OK \<and> recv = GARY_CODE_OK \<and> map_option c_string (gary_last_inbound_utf8 bob1) = Some msg
         \<and> gary_session_free (sr_session sr) = None \<and> gary_session_free bob1 = None)"

definition relay_prepare_process_utf8_roundtrip ::
  "'r crypto \<Rightarrow> (bytes \<Rightarrow> 'r) \<Rightarrow> bytes \<Rightarrow> bytes \<Rightarrow> bytes \<Rightarrow> bytes \<Rightarrow> bool" where
  "relay_prepare_process_utf8_roundtrip C from_seed os_seed os_seed2 rt msg =
     (let alice = gary_session_new_initiator C; bob = gary_session_new C;
          sr = gary_prepare_relay_outbound_utf8 C from_seed (Some os_seed) (Some os_seed2) (Some alice) (CBuf rt) (CBuf msg) False 32768 False;
          (ri, bob1) = gary_process_relay_inbound C from_seed (Some bob) (CBuf (sr_out sr))
      in sr_code sr = GARY_CODE_OK \<and> ri = GARY_CODE_OK \<and> map_option c_string (gary_last_inbound_utf8 bob1) = Some msg
         \<and> gary_session_free (sr_session sr) = None \<and> gary_session_free bob1 = None)"

definition VECTOR001_OUTER :: bytes where
  "VECTOR001_OUTER = [0x00, 0x00, 0x00, 0x3f, 0x01, 0x03, 0x00, 0x00, 0x00, 0x00, 0x06] @ replicate 16 0x01
     @ replicate 8 0x00 @ replicate 32 0x02"

definition ingest_vector001_stale_epoch_and_stable_digest :: "'r crypto \<Rightarrow> (bytes \<Rightarrow> 'r) \<Rightarrow> bool" where
  "ingest_vector001_stale_epoch_and_stable_digest C from_seed =
     (let p = gary_session_new C;
          before = persistence_digest_copy C (Some p) False;
          (code, p1) = gary_ingest_outer C from_seed (Some p) (CBuf VECTOR001_OUTER)
      in code = GARY_CODE_SESSION_STALE_EPOCH \<and> snd (persistence_digest_copy C p1 False) = snd before \<and> gary_session_free p1 = None)"

definition free_boxed_roundtrip :: "'r crypto \<Rightarrow> bool" where
  "free_boxed_roundtrip C \<longleftrightarrow>
     gary_session_free (Some (ffi_new (handle_bootstrap_responder C (replicate 64 0x77) (replicate 16 1) 0 (replicate 32 2) None
       (anchor_new_v0 1)))) = None"

lemma free_None: "gary_session_free h = None"
  by (cases h) (simp_all add: gary_session_free_def)

lemma vector001_fields:
  "to_be_bytes (63 :: u32) = [0, 0, 0, 0x3f]" "to_be_bytes (6 :: u32) = [0, 0, 0, 6]" "to_be_bytes (0 :: u64) = replicate 8 0"
  by code_simp+

lemma vector001_decodes:
  "outer_record_decode VECTOR001_OUTER = Ok \<lparr>rec_header = \<lparr>version = 1, hdr_typ = 3, flags = 0, epoch_be = 6,
     hdr_session_id = replicate 16 1, counter_be = 0, ratchet_pub = replicate 32 2\<rparr>, payload = []\<rparr>"
proof -
  let ?rec = "\<lparr>rec_header = \<lparr>version = 1, hdr_typ = 3, flags = 0, epoch_be = 6,
     hdr_session_id = replicate 16 1, counter_be = 0, ratchet_pub = replicate 32 2\<rparr>, payload = []\<rparr> :: outer_record"
  have "wf_outer_record ?rec" by (simp add: wf_outer_record_def wf_header_def)
  moreover have "outer_record_encode ?rec = Ok VECTOR001_OUTER"
    by (simp add: outer_record_encode_Ok_iff record_body_len_def MAX_RECORD_BODY_LEN_def validate_v0_Ok_iff header_encode_def
        VECTOR001_OUTER_def vector001_fields)
  ultimately show ?thesis by (rule outer_record_decode_encode)
qed

lemma stale_record_refused:
  "ingest_vector001_stale_epoch_and_stable_digest C fs"
proof -
  let ?s = "hnd_session (ffi_inner (gary_session_new C))"
  have s: "mode ?s = Active 7" "epoch ?s = 7" "session_id ?s = replicate 16 1"
    by (simp_all add: gary_session_new_def ffi_new_def epoch_policy_vector_responder_def hnd_recompute_anchor_commitment_def
        handle_bootstrap_responder_def recompute_anchor_commitment_def bootstrap_responder_def Let_def split_beta)
  have "check_inbound_epoch_policy ?s h = Err StaleEpochRejected" if "epoch_be h = 6" for h
    using s that by (simp add: check_inbound_epoch_policy_def saturating_add_def Let_def)
  then show ?thesis
    using s by (simp add: ingest_vector001_stale_epoch_and_stable_digest_def gary_ingest_outer_def ingest_inner_def vector001_decodes
        hnd_handle_inbound_outer_def handle_inbound_outer_def delegate_rng_def maybe_expire_reset_pending_def validate_v0_def
        clear_last_inbound_def Let_def persistence_digest_copy_def free_None HEADER_VERSION_V0_def gary_codes
        latch_session_err_def)
qed

section \<open>All of them pass\<close>

lemma fixture_roundtrips:
  assumes "crypto_lens C" "aead_ok C" "fixture_keys_match C" "length msg \<le> 504" "valid_utf8 msg" "0 \<notin> set msg" "length rt \<le> 512"
  shows "alice_fixture_send_bob_fixture_recv_utf8_roundtrip C fs seed msg"
    "relay_prepare_process_utf8_roundtrip C fs seed seed2 rt msg"
proof -
  let ?a = "gary_session_new_initiator C" and ?b = "gary_session_new C"
  note pr = fixture_paired(1) [OF assms(1,3)]
  have room: "skipped_len (skipped (hnd_session (ffi_inner ?b))) + Suc 0 \<le> MAX_SKIP"
    "unat (send_sym_idx (hnd_session (ffi_inner ?a))) + Suc 0 < 2 ^ 64" "unat (send_wire_counter (hnd_session (ffi_inner ?a))) + Suc 0 < 2 ^ 64"
    by (simp_all add: fixture_fresh MAX_SKIP_def)
  have cs: "c_string (shown msg) = msg" using assms(5) c_string_padded [OF assms(6), of 0] by (simp add: c_string_shown)
  have l: "length (last_inbound_utf8 ?b) = 512" using fixture_fresh(7) [of C] by (simp add: wf_ffi_def)
  obtain wr a' b' where "build_data_outer_record_bytes C fs (Some seed) ?a msg = (Ok wr, ?a\<lparr>ffi_inner := \<lparr>hnd_session = a'\<rparr>\<rparr>)"
      "length wr = 1091" "ingest_inner C fs ?b wr = (GARY_CODE_OK, latch_ok (?b\<lparr>ffi_inner := \<lparr>hnd_session = b'\<rparr>, last_inbound_utf8 := shown msg\<rparr>))"
    by (rule build_and_ingest [OF assms(1,2) pr assms(4) l room, of fs seed])
  then show "alice_fixture_send_bob_fixture_recv_utf8_roundtrip C fs seed msg"
    by (simp add: alice_fixture_send_bob_fixture_recv_utf8_roundtrip_def gary_send_utf8_data_outer_def gary_ingest_outer_def
        gary_last_inbound_utf8_def latch_ok_def free_None cs)
  obtain wr2 fa' fb' where "gary_prepare_relay_outbound_utf8 C fs (Some seed) (Some seed2) (Some ?a) (CBuf rt) (CBuf msg) False 32768 False
        = \<lparr>sr_code = GARY_CODE_OK, sr_session = Some fa', sr_written = Some (length wr2), sr_out = wr2\<rparr>"
      "gary_process_relay_inbound C fs (Some ?b) (CBuf wr2) = (GARY_CODE_OK, Some fb')" "last_inbound_utf8 fb' = shown msg"
    by (rule relay_delivery [OF assms(1,2) pr fixture_fresh(7) assms(4,7) _ room, of 32768 fs seed seed2]) simp_all
  then show "relay_prepare_process_utf8_roundtrip C fs seed seed2 rt msg"
    by (simp add: relay_prepare_process_utf8_roundtrip_def gary_last_inbound_utf8_def free_None cs)
qed

text \<open>Every test passes, for any text the C interface carries, any route token within its limit and any seeds.\<close>

lemma unit_tests_pass:
  assumes "crypto_lens C" "aead_ok C" "fixture_keys_match C" "length msg \<le> 504" "valid_utf8 msg" "0 \<notin> set msg" "length rt \<le> 512"
  shows "pad_then_strip_roundtrip (fill_bytes C) r \<and> strip_rejects_wrong_bucket_len (fill_bytes C) r \<and> free_null_is_noop
    \<and> alice_fixture_send_bob_fixture_recv_utf8_roundtrip C fs seed msg \<and> relay_prepare_process_utf8_roundtrip C fs seed seed2 rt msg
    \<and> ingest_vector001_stale_epoch_and_stable_digest C fs \<and> free_boxed_roundtrip C"
  using padding_tests_pass [OF crypto_lensD(7) [OF assms(1)]] fixture_roundtrips [OF assms, of fs seed] stale_record_refused [of C fs]
  by (simp add: free_null_is_noop_def free_boxed_roundtrip_def free_None)

end
