(* ===== verification/Spec2Isabelle.thy ===== *)
theory Spec2Isabelle
  imports Transcript Store_Register Send_Outcome Fuzz_Targets Session_Stuck Session_Ratchet Key_Types Gap_Loop Ffi_Texts Ffi_Tests
begin

text \<open>
  A verification development of libgary, an end-to-end encrypted session library in Rust
  (\<^verbatim>\<open>src/crates\<close>).

  \<^bold>\<open>The program.\<close>  \<^verbatim>\<open>libgary-wire\<close> defines the byte formats: headers, handshake bodies, outer records, the
  relay envelope and the universal padding.  \<^verbatim>\<open>libgary-core\<close> derives keys and nonces, seals and opens the inner
  records, and has the session engine: a symmetric chain in each direction, a DH ratchet on the peer's ratchet
  key, a replay window, a cache of skipped message keys, an epoch and reset state machine, a device anchor, and
  the export and import of the whole state.  \<^verbatim>\<open>libgary-storage\<close> keeps one session per file, written atomically
  and checked at load.  \<^verbatim>\<open>libgary-ffi\<close> is the C interface on top of the engine.  \<^verbatim>\<open>libgary-relay\<close> is a separate
  server that pairs a host and a guest and forwards their messages blindly.

  \<^bold>\<open>Theories and sources.\<close>
  \<^item> \<open>Gary_Prelude\<close>: bytes and machine integers, \<open>Result\<close>, slices, big-endian encodings, and the codec
    interfaces (locales \<open>decodable\<close>, \<open>canonical_codec\<close>, \<open>fixed_codec\<close>).
  \<^item> \<open>Wire_Pad\<close>, \<open>Wire_Records\<close>, \<open>Wire_Relay\<close>: \<^verbatim>\<open>libgary-wire/src/{constants,error,pad,lib,outer,relay}.rs\<close>.  Every
    format is an instance of a codec interface.
  \<^item> \<open>Key_Schedule\<close>: \<^verbatim>\<open>libgary-core/src/{constants,kdf,nonce,aead,x3dh,transcript,session,identity,ratchet}.rs\<close>;
    \<open>Sample_Crypto\<close>: a concrete instance of the primitives for the witnesses; \<open>Handshake\<close>:
    \<^verbatim>\<open>{data,control,handshake,reset_handshake}.rs\<close>; \<open>Handshake_Flow\<close>: the INIT and RESET handshakes put
    together as in \<^verbatim>\<open>libgary-core/tests/full_transcript.rs\<close>, the only place in the repository that composes
    them, for arbitrary inputs; \<open>Transcript\<close>: that driver as a whole, with its saves, loads, messages and reset;
    \<open>Key_Types\<close>: the array lengths of all of these, which the code unwraps.
  \<^item> \<open>Skipped_Cache\<close> (\<^verbatim>\<open>engine/{skipped,error}.rs\<close>; the cache as a locale interface), \<open>Ratchet_Blob\<close>
    (\<^verbatim>\<open>engine/{types,anchor,blob}.rs\<close>), \<open>Session\<close> (\<^verbatim>\<open>engine/{mode,session}.rs\<close>): the state of a session is the
    record \<open>session\<close>, and each method of \<^verbatim>\<open>session.rs\<close> is one definition that returns its result with the new state,
    also on errors, because the code keeps what it wrote before an early return.
  \<^item> \<open>Session_Invariant\<close>, \<open>Session_Runs\<close>: the invariant, the replay window as an interface, and the step
    relation \<open>session_step\<close> with one rule per public operation; \<open>Session_Sync\<close>: two sessions talking to each
    other (\<open>paired\<close>, and the key chain \<open>chain_mk\<close> as the abstract specification of the symmetric ratchet);
    \<open>Session_Reload\<close>: export and import; \<open>Session_Inbound\<close>: the inbound dispatcher and its limits;
    \<open>Gap_Loop\<close>: the receiver's loop over skipped counters as a \<open>partial_function\<close>, and the keys, chain and cache it leaves;
    \<open>Session_Stuck\<close>, \<open>Session_Ratchet\<close>: what a late REKEY does, and that the DH ratchet rests between honest sessions.
  \<^item> \<open>Session_Handle\<close>: \<^verbatim>\<open>engine/{session_handle,wal_source}.rs\<close>, with the trait \<open>SessionWalSource\<close> as a record of
    methods and its contract as a locale interpreted for both implementations; \<open>Storage_Codecs\<close>, \<open>Storage\<close>:
    \<^verbatim>\<open>libgary-storage/src\<close>, on a file system that maps paths to contents.
  \<^item> \<open>Ffi\<close>, \<open>Ffi_Calls\<close>: \<^verbatim>\<open>libgary-ffi/src/{lib,fixture}.rs\<close>; \<open>Ffi_Texts\<close>: which texts it carries, and UTF-8;
    \<open>Ffi_Tests\<close>: the unit tests inside \<^verbatim>\<open>libgary-ffi/src/lib.rs\<close> and \<^verbatim>\<open>libgary-wire/src/pad.rs\<close>.
  \<^item> \<open>Relay_Server\<close>: \<^verbatim>\<open>libgary-relay/src/main.rs\<close>, as a step relation whose runs are the interleavings of the
    connections' tasks.
  \<^item> \<open>Panic_Free\<close>, \<open>Session_Debug\<close>: the decoders of untrusted bytes and the inbound path once more, with every
    index, slice, array conversion, sum and assertion that can panic checked; \<open>None\<close> is a panic.  These
    \<open>_chk\<close> definitions are the semantics of a debug build; the plain ones wrap like a release build.
    \<open>Fuzz_Targets\<close>: \<^verbatim>\<open>src/fuzz/fuzz_targets\<close> over them.
  \<^item> \<open>Refinement\<close>: runs of deterministic machines and the locale \<open>forward_sim\<close> of functional simulations;
    \<open>Session_Channel\<close>, \<open>Store_Register\<close> and \<open>End_To_End\<close> interpret it.  \<open>Session_Bounds\<close> and
    \<open>Send_Outcome\<close> have the bounds of the receive path and the outcome of the sending calls.

  \<^bold>\<open>Specifications that are refined.\<close>
  \<^item> Two clients of the C interface with the relay between them: FIFO queues of texts, one per direction
    (\<open>queue_step\<close>, implemented by \<open>e2e_step\<close>).
  \<^item> Two sessions over a network that reorders, repeats and loses records, with restarts: a sliding receive window
    per direction (\<open>channel_step\<close>, implemented by \<open>duplex_step\<close>).
  \<^item> The session store with faults: an atomic register of exports (\<open>register_step\<close>, implemented by
    \<open>store_step\<close>).
  \<^item> The pruned replay window: the set of all counters ever accepted.

  \<^bold>\<open>What is shown.\<close>  Formats: encoders and decoders are inverse, and decoders accept nothing else.  Handshake: both
  sides accept, agree on the key material and bootstrap sessions that can talk; the whole transcript of the test, from the
  first handshake through a reset to a message in the next epoch, succeeds for any inputs; every derived array has its declared
  length.  Sessions: every
  operation keeps the invariant; no counter is accepted twice in a run, and no DATA record again after a reload;
  emitted counters and nonce labels do not repeat; a batch of messages is accepted in any order of delivery;
  REKEY in order keeps sessions paired; records refused before the ratchet is looked at leave the session alone, and those refused
  later for their counter leave it as binding or turning the ratchet left it; the epoch policy and the window of a pending reset.
  Persistence: export and import, save and load, atomicity under a fault at any call, what a load accepts and
  refuses; a sender and a receiver that were saved and loaded go on talking (below).  C interface: conversations
  arrive in both directions at once, codes and diagnostics agree, when a send succeeds and how many bytes it
  gives, and that exactly the UTF-8 texts without NUL are read back as they were sent.  Robustness: no byte string makes a
  decoder or a fuzz target panic, the gap loop ends with exactly the keys of the gap or at the bound of the cache, and an inbound record costs at most 2001
  chain steps whatever its counter.  Relay: only host and guest of one room are connected, sockets are never shared,
  traffic is forwarded unchanged and in order.  Where the code does not give a guarantee one might expect, the theorem
  says what it does: forged records move the ratchet before they are authenticated, REKEY can be replayed
  after a reload, DATA overtaken by a REKEY is lost, DATA that overtakes a REKEY blocks all DATA until the REKEY arrives and leaves the chain
  ahead of the sender from then on, honest
  sessions never turn the DH ratchet, other texts than UTF-8 are acknowledged and lost, an old file passes the rollback check, a send that was not
  saved before a restart is repeated with the same key and nonce (below), a too small buffer consumes a counter, the
  guard of the gap loop overflows at the end of the counter range, a waiting relay connection can miss its
  notification.

  \<^bold>\<open>Parameters and hypotheses.\<close>  The cryptographic crates are the fields of \<open>'r crypto\<close>; \<open>crypto_lens\<close> (output
  lengths) and \<open>aead_ok\<close> (what was sealed opens, and ciphertexts are 16 bytes longer) are what is used of
  them.  The responder's side of the X3DH exchange has no code in the repository, so the handshake takes the shared
  key material as given, as the driver does.  Nothing is assumed of what a wrong key does to a ciphertext in general: the
  theorems on a forged DATA record and on a late REKEY assume of one given record that one given key does not open it.  No theorem claims secrecy or unforgeability.  \<open>serde_json\<close>, \<open>uuid\<close>, \<open>getrandom\<close> and
  \<open>ChaCha12Rng::from_seed\<close> are parameters too.

  \<^bold>\<open>Bounds.\<close>  Words have the widths of the source.  \<open>usize\<close> is 64 bits.  The gap loop of the receiver is
  structural recursion on the number of skipped counters, and \<open>Gap_Loop\<close> has the loop as it is written; the code's guard bounds it by \<open>MAX_SKIP\<close> = 2000, and where
  the sum in the guard wraps the bounded cache ends it, which is proved.  No definition uses fuel.  Counters near
  \<open>2 ^ 64\<close> are excluded only where a theorem says that a send succeeds or that debug and release builds agree.

  \<^bold>\<open>Not modelled.\<close>  Zeroization of memory, panics outside the decoders, the inbound path and key derivation, undefined behaviour
  of the C interface (a null pointer with length 0 is the empty slice here), the \<open>catch_unwind\<close> of the C interface, which never
  fires in the release semantics of the model (the one panic a debug build has on that path is in \<open>Session_Debug\<close>), directories
  (a bare file name, whose parent cannot be opened, is the fault \<open>SyncDirFails\<close>) and the durability of \<open>fsync\<close>, the routes, the banner, the WebSocket transport and logging of the relay, the
  placeholder crates \<^verbatim>\<open>libgary-attach\<close> and \<^verbatim>\<open>libgary-testvec\<close>, the tests that compare with recorded digests and
  ciphertexts of the real primitives, the other test suites and the iOS example.
\<close>

text \<open>C9: Delivery survives restarts.  A sender and a receiver that are paired each recompute their commitment, are
  saved, and new processes load them: both loads succeed, and a batch the loaded sender then sends, of at most \<open>MAX_SKIP\<close> = 2000
  messages less the keys the receiver has cached, is accepted by the loaded receiver in whatever order and with whatever
  gaps it arrives, each record decrypting to its plaintext.\<close>

theorem delivery_survives_restart:
  assumes "crypto_lens C" "aead_ok C" "paired (hnd_session g) (hnd_session h)"
    and "exportable (hnd_session g)" "safe_path (envelope_path sta)" "exportable (hnd_session h)" "safe_path (envelope_path stb)"
    and "\<forall>pt \<in> set pts. length pt = 512" "skipped_len (skipped (hnd_session h)) + length pts \<le> MAX_SKIP"
    and "unat (send_sym_idx (hnd_session g)) + length pts < 2 ^ 64" "unat (send_wire_counter (hnd_session g)) + length pts < 2 ^ 64"
    and "distinct order" "set order \<subseteq> {..<length pts}"
  shows "\<exists>fa' fb' g2 h2 recs a' r' b'.
      save_session C (handle_wal_source C) NoFault sta (hnd_recompute_anchor_commitment C g) fa = (Ok (), fa')
    \<and> load_session C False sta fa' = Ok g2
    \<and> save_session C (handle_wal_source C) NoFault stb (hnd_recompute_anchor_commitment C h) fb = (Ok (), fb')
    \<and> load_session C False stb fb' = Ok h2
    \<and> send_batch C (hnd_session g2) pts r = (Ok recs, a', r') \<and> length recs = length pts
    \<and> deliver C (hnd_session h2) (map (\<lambda>k. recs ! k) order) now r2 = (map (\<lambda>k. Ok (Data (pts ! k))) order, b', r2)"
proof -
  have inv: "session_inv (hnd_session g)" "session_inv (hnd_session h)" using assms(3) by (simp_all add: paired_def)
  obtain fa' g2 where a: "save_session C (handle_wal_source C) NoFault sta (hnd_recompute_anchor_commitment C g) fa = (Ok (), fa')"
      "load_session C False sta fa' = Ok g2" "paired (hnd_session g2) (hnd_session h)"
    and g2: "send_sym_idx (hnd_session g2) = send_sym_idx (hnd_session g)"
      "send_wire_counter (hnd_session g2) = send_wire_counter (hnd_session g)"
    using save_load [OF assms(1) inv(1) assms(4,5), of fa] assms(3) by blast
  obtain fb' h2 where b: "save_session C (handle_wal_source C) NoFault stb (hnd_recompute_anchor_commitment C h) fb = (Ok (), fb')"
      "load_session C False stb fb' = Ok h2"
    and h2: "skipped_len (skipped (hnd_session h2)) = skipped_len (skipped (hnd_session h))" "paired (hnd_session g2) (hnd_session h2)"
    using save_load [OF assms(1) inv(2) assms(6,7), of fb] a(3) by blast
  have "skipped_len (skipped (hnd_session h2)) + length pts \<le> MAX_SKIP" using assms(9) h2(1) by simp
  from batch_delivery [OF assms(1,2) h2(2) assms(8) this assms(10,11) [folded g2] assms(12,13), of r now r2] a b
  show ?thesis by blast
qed

theorem delivery_survives_restart_witness:
  "\<exists>fa' fb' g2 h2 recs a' r' b'.
      save_session sample_crypto (handle_wal_source sample_crypto) NoFault sample_store
        (hnd_recompute_anchor_commitment sample_crypto \<lparr>hnd_session = sample_a\<rparr>) Map.empty = (Ok (), fa')
    \<and> load_session sample_crypto False sample_store fa' = Ok g2
    \<and> save_session sample_crypto (handle_wal_source sample_crypto) NoFault sample_store
        (hnd_recompute_anchor_commitment sample_crypto \<lparr>hnd_session = sample_b\<rparr>) Map.empty = (Ok (), fb')
    \<and> load_session sample_crypto False sample_store fb' = Ok h2
    \<and> send_batch sample_crypto (hnd_session g2) [replicate 512 1, replicate 512 2] 0 = (Ok recs, a', r')
    \<and> deliver sample_crypto (hnd_session h2) [recs ! 1, recs ! 0] 0 9
        = ([Ok (Data (replicate 512 2)), Ok (Data (replicate 512 1))], b', 9)"
proof -
  let ?pts = "[replicate 512 1, replicate 512 2] :: bytes list"
  have "\<exists>fa' fb' g2 h2 recs a' r' b'.
      save_session sample_crypto (handle_wal_source sample_crypto) NoFault sample_store
        (hnd_recompute_anchor_commitment sample_crypto \<lparr>hnd_session = sample_a\<rparr>) Map.empty = (Ok (), fa')
    \<and> load_session sample_crypto False sample_store fa' = Ok g2
    \<and> save_session sample_crypto (handle_wal_source sample_crypto) NoFault sample_store
        (hnd_recompute_anchor_commitment sample_crypto \<lparr>hnd_session = sample_b\<rparr>) Map.empty = (Ok (), fb')
    \<and> load_session sample_crypto False sample_store fb' = Ok h2
    \<and> send_batch sample_crypto (hnd_session g2) ?pts 0 = (Ok recs, a', r') \<and> length recs = length ?pts
    \<and> deliver sample_crypto (hnd_session h2) (map (\<lambda>k. recs ! k) [1, 0]) 0 9 = (map (\<lambda>k. Ok (Data (?pts ! k))) [1, 0], b', 9)"
    by (rule delivery_survives_restart [OF sample_lens sample_aead])
      (use sample_paired sample_a_exportable sample_b_ok sample_store_safe in \<open>simp_all add: sample_fresh MAX_SKIP_def\<close>)
  then show ?thesis by (simp del: send_batch.simps deliver.simps) blast
qed

text \<open>C34: A send that is not saved before a restart is repeated with the same key and nonce.  A session is saved, sends
  one text, and the process ends before the next save: the file loads, and the next text is sent under the
  same header, counter and message key, hence with the same nonce.\<close>

theorem unsaved_send_reuses_nonce:
  assumes "crypto_lens C" "aead_ok C" "session_inv (hnd_session h)" "exportable (hnd_session h)" "safe_path (envelope_path st)"
    and "counters_left (hnd_session h)" "length pt1 = 512" "length pt2 = 512"
  shows "\<exists>fs' h2 p1 p2 s1 s2 r1' r2' mk.
      save_session C (handle_wal_source C) NoFault st (hnd_recompute_anchor_commitment C h) fs = (Ok (), fs')
    \<and> encrypt_data_plain512_outer C (hnd_session h) pt1 r1 = (Ok (next_header (hnd_session h) 3, p1), s1, r1')
    \<and> load_session C False st fs' = Ok h2
    \<and> encrypt_data_plain512_outer C (hnd_session h2) pt2 r2 = (Ok (next_header (hnd_session h) 3, p2), s2, r2')
    \<and> opens C mk (next_header (hnd_session h) 3) p1 pt1 \<and> opens C mk (next_header (hnd_session h) 3) p2 pt2"
proof -
  obtain fs' h2 where l: "save_session C (handle_wal_source C) NoFault st (hnd_recompute_anchor_commitment C h) fs = (Ok (), fs')"
      "load_session C False st fs' = Ok h2"
    and h2: "send_ck (hnd_session h2) = send_ck (hnd_session h)" "send_sym_idx (hnd_session h2) = send_sym_idx (hnd_session h)"
      "send_wire_counter (hnd_session h2) = send_wire_counter (hnd_session h)" "next_header (hnd_session h2) = next_header (hnd_session h)"
    using save_load [OF assms(1,3-5), of fs] by blast
  have c: "unat (send_wire_counter (hnd_session h)) + 1 < 2 ^ 64" "unat (send_sym_idx (hnd_session h)) + 1 < 2 ^ 64"
    using assms(6) by (simp_all add: counters_left_def)
  from encrypt_data_outer_Ok [OF assms(1,2,7) c, of r1]
    encrypt_data_outer_Ok [OF assms(1,2,8) c [folded h2(2,3)], of r2, unfolded h2] l
  show ?thesis by blast
qed

theorem unsaved_send_reuses_nonce_witness:
  "\<exists>fs' h2 p1 p2 s1 s2 r1' r2' mk.
      save_session sample_crypto (handle_wal_source sample_crypto) NoFault sample_store
        (hnd_recompute_anchor_commitment sample_crypto \<lparr>hnd_session = sample_a\<rparr>) Map.empty = (Ok (), fs')
    \<and> encrypt_data_plain512_outer sample_crypto sample_a (replicate 512 1) 0 = (Ok (next_header sample_a 3, p1), s1, r1')
    \<and> load_session sample_crypto False sample_store fs' = Ok h2
    \<and> encrypt_data_plain512_outer sample_crypto (hnd_session h2) (replicate 512 2) 0 = (Ok (next_header sample_a 3, p2), s2, r2')
    \<and> opens sample_crypto mk (next_header sample_a 3) p1 (replicate 512 1)
    \<and> opens sample_crypto mk (next_header sample_a 3) p2 (replicate 512 2)"
  using unsaved_send_reuses_nonce [OF sample_lens sample_aead, of "\<lparr>hnd_session = sample_a\<rparr>" sample_store "replicate 512 1" "replicate 512 2" Map.empty 0 0]
    sample_paired sample_a_exportable sample_store_safe
  by (simp add: paired_def counters_left_def sample_fresh)

end
